(* ===== verification/Prelude.thy ===== *)
theory Prelude
  imports Main "HOL-Library.Finite_Map" "HOL-Library.Word"
begin

text \<open>
  What every component of the development shares: the Go library functions on strings and
  maps that the controller uses (\<open>strings.Join\<close>, the \<open>%d\<close> and \<open>%v\<close>
  verbs of \<open>fmt.Sprintf\<close>, indexing a map with its zero value for a missing key), the names of
  the model's basic types, the fact collections, and generic lemmas on lists, finite maps and
  32-bit counters.
\<close>

subsection \<open>Fact collections\<close>

text \<open>
  \<open>server_defs\<close>: the operations of the in-memory API server that the witnesses run on, to be
  unfolded when a closed term is evaluated.
\<close>

named_theorems server_defs

subsection \<open>Types\<close>

type_synonym int32 = "32 word"
type_synonym int64 = "64 word"

text \<open>A \<open>metav1.Time\<close> is opaque to the controller: it is read from the clock and stored.\<close>

type_synonym time = int

text \<open>
  A Go \<open>map[string]string\<close> is a finite map. A nil map and an empty map behave alike for every
  read and for \<open>len\<close>; where the code tests for nil the model uses an option.
\<close>

type_synonym string_map = "(string, string) fmap"

subsection \<open>Go maps\<close>

text \<open>\<open>m[k]\<close> on a \<open>map[string]string\<close>: the zero value (the empty string) for a missing key.\<close>

definition go_index :: "string_map \<Rightarrow> string \<Rightarrow> string" where
  "go_index m k = (case fmlookup m k of None \<Rightarrow> [] | Some v \<Rightarrow> v)"

definition go_len :: "('k, 'v) fmap \<Rightarrow> nat" where
  "go_len m = size (fmdom m)"

lemma go_index_simps [simp]:
  "fmlookup m k = Some v \<Longrightarrow> go_index m k = v"
  "fmlookup m k = None \<Longrightarrow> go_index m k = []"
  by (simp_all add: go_index_def)

lemma go_len_card: "go_len m = card (fset (fmdom m))"
  by (simp add: go_len_def size_fset_overloaded_simps)

lemma go_len_empty [simp]: "go_len fmempty = 0"
  by (simp add: go_len_card)

lemma go_len_upd [simp]:
  "go_len (fmupd k v m) = (if fmlookup m k = None then Suc (go_len m) else go_len m)"
  by (auto simp: go_len_card card_insert_if fmdom_notI fmlookup_dom_iff)

text \<open>
  A map filled in a loop, \<open>m[f x] = g x\<close> for each \<open>x\<close> of a slice: later entries overwrite
  earlier ones.
\<close>

fun fill_map :: "('a \<Rightarrow> 'k) \<Rightarrow> ('a \<Rightarrow> 'v) \<Rightarrow> 'a list \<Rightarrow> ('k, 'v) fmap \<Rightarrow> ('k, 'v) fmap" where
  "fill_map f g [] m = m"
| "fill_map f g (x # xs) m = fill_map f g xs (fmupd (f x) (g x) m)"

lemma fmlookup_fill_map_notin:
  "k \<notin> f ` set xs \<Longrightarrow> fmlookup (fill_map f g xs m) k = fmlookup m k"
  by (induction xs arbitrary: m) auto

lemma fmlookup_fill_map_distinct:
  "distinct (map f xs) \<Longrightarrow> x \<in> set xs \<Longrightarrow> fmlookup (fill_map f g xs m) (f x) = Some (g x)"
  by (induction xs arbitrary: m) (auto simp: fmlookup_fill_map_notin)

lemma fill_map_dom: "fmlookup (fill_map f g xs m) k \<noteq> None \<longleftrightarrow> k \<in> f ` set xs \<or> fmlookup m k \<noteq> None"
  by (induction xs arbitrary: m) auto

lemma fill_map_SomeD:
  "fmlookup (fill_map f g xs m) k = Some v \<Longrightarrow>
   (\<exists>x \<in> set xs. f x = k \<and> g x = v) \<or> fmlookup m k = Some v"
  by (induction xs arbitrary: m) (fastforce split: if_splits)+

lemma fill_map_empty_Some_iff:
  assumes "distinct (map f xs)"
  shows "fmlookup (fill_map f g xs fmempty) k = Some v \<longleftrightarrow> (\<exists>x \<in> set xs. f x = k \<and> g x = v)"
  using assms by (auto dest: fill_map_SomeD simp: fmlookup_fill_map_distinct)

subsection \<open>Strings\<close>

text \<open>\<open>strings.Join(parts, sep)\<close>.\<close>

fun strings_Join :: "string list \<Rightarrow> string \<Rightarrow> string" where
  "strings_Join [] sep = []"
| "strings_Join [x] sep = x"
| "strings_Join (x # y # zs) sep = x @ sep @ strings_Join (y # zs) sep"

text \<open>\<open>%v\<close> of a \<open>[]string\<close>: the elements between brackets, separated by blanks.\<close>

definition sprint_strings :: "string list \<Rightarrow> string" where
  "sprint_strings vs = ''['' @ strings_Join vs '' '' @ '']''"

text \<open>\<open>%d\<close> of an \<open>int32\<close>: decimal digits with a sign.\<close>

fun digit_char :: "nat \<Rightarrow> char" where
  "digit_char d = char_of (48 + d)"

fun decimal_nat :: "nat \<Rightarrow> string" where
  "decimal_nat n = (if n < 10 then [digit_char n] else decimal_nat (n div 10) @ [digit_char (n mod 10)])"

declare decimal_nat.simps [simp del]

definition sprint_int :: "int \<Rightarrow> string" where
  "sprint_int i = (if i < 0 then CHR ''-'' # decimal_nat (nat (- i)) else decimal_nat (nat i))"

text \<open>A printed number starts with a digit or a minus sign.\<close>

lemma digit_chars: "list_all (\<lambda>d. digit_char d \<in> set ''0123456789'') [0..<10]"
  by code_simp

lemma digit_char_mem: "d < 10 \<Longrightarrow> digit_char d \<in> set ''0123456789''"
  using digit_chars by (simp add: list_all_iff del: digit_char.simps)

lemma decimal_nat_digits: "set (decimal_nat n) \<subseteq> set ''0123456789''"
proof (induction n rule: decimal_nat.induct)
  case (1 n)
  show ?case
  proof (cases "n < 10")
    case True
    then show ?thesis using digit_char_mem[OF True] by (simp add: decimal_nat.simps[of n])
  next
    case False
    then show ?thesis using 1[OF False] digit_char_mem[of "n mod 10"]
      by (simp add: decimal_nat.simps[of n])
  qed
qed

lemma decimal_nat_not_Nil: "decimal_nat n \<noteq> []"
  by (subst decimal_nat.simps) simp

lemma sprint_int_head: "\<exists>c cs. sprint_int i = c # cs \<and> c \<in> set ''-0123456789''"
proof (cases "i < 0")
  case True
  then show ?thesis by (simp add: sprint_int_def)
next
  case False
  obtain c cs where "decimal_nat (nat i) = c # cs" using decimal_nat_not_Nil by (cases "decimal_nat (nat i)") auto
  with False decimal_nat_digits[of "nat i"] show ?thesis by (auto simp: sprint_int_def)
qed

lemma strings_Join_Cons:
  "strings_Join (x # xs) sep = x @ (if xs = [] then [] else sep @ strings_Join xs sep)"
  by (cases xs) auto

text \<open>Joining with a one-character separator that no part holds loses nothing.\<close>

lemma append_sep_inject:
  assumes "c \<notin> set a" and "c \<notin> set b" and "a @ c # u = b @ c # v"
  shows "a = b \<and> u = v"
  using assms by (induction a arbitrary: b) (auto simp: Cons_eq_append_conv split: if_splits)

lemma strings_Join_sep_inject:
  assumes "\<forall>x \<in> set xs \<union> set ys. c \<notin> set x" and "xs \<noteq> []" and "ys \<noteq> []"
    and "strings_Join xs [c] = strings_Join ys [c]"
  shows "xs = ys"
  using assms
proof (induction xs arbitrary: ys)
  case Nil
  then show ?case by simp
next
  case (Cons x xs)
  then obtain y ys' where ys: "ys = y # ys'" by (cases ys) auto
  have eq: "x @ (if xs = [] then [] else c # strings_Join xs [c]) =
    y @ (if ys' = [] then [] else c # strings_Join ys' [c])"
    using Cons.prems(4) unfolding ys strings_Join_Cons by (simp split: if_splits)
  have cx: "c \<notin> set x" and cy: "c \<notin> set y" using Cons.prems(1) ys by auto
  show ?case
  proof (cases "xs = []")
    case True
    have "ys' = []"
    proof (rule ccontr)
      assume "ys' \<noteq> []"
      with eq True have "x = y @ c # strings_Join ys' [c]" by simp
      with cx show False by simp
    qed
    with eq True ys show ?thesis by simp
  next
    case False
    have ne: "ys' \<noteq> []"
    proof
      assume "ys' = []"
      with eq False have "y = x @ c # strings_Join xs [c]" by simp
      with cy show False by simp
    qed
    with eq False append_sep_inject[OF cx cy] have "x = y"
      and "strings_Join xs [c] = strings_Join ys' [c]" by auto
    moreover from this Cons.IH[of ys'] Cons.prems(1) False ne ys have "xs = ys'" by auto
    ultimately show ?thesis using ys by simp
  qed
qed

subsection \<open>Lists with a key\<close>

text \<open>The first element with a key, as a search loop with \<open>break\<close> finds it.\<close>

fun find_key :: "('a \<Rightarrow> 'k) \<Rightarrow> 'k \<Rightarrow> 'a list \<Rightarrow> 'a option" where
  "find_key key k [] = None"
| "find_key key k (x # xs) = (if key x = k then Some x else find_key key k xs)"

lemma find_key_None_iff: "find_key key k xs = None \<longleftrightarrow> k \<notin> key ` set xs"
  by (induction xs) auto

lemma find_key_SomeD: "find_key key k xs = Some x \<Longrightarrow> x \<in> set xs \<and> key x = k"
  by (induction xs) (auto split: if_splits)

lemma find_key_append:
  "find_key key k (xs @ ys) = (case find_key key k xs of None \<Rightarrow> find_key key k ys | Some x \<Rightarrow> Some x)"
  by (induction xs) auto

lemma find_key_distinct:
  "distinct (map key xs) \<Longrightarrow> x \<in> set xs \<Longrightarrow> find_key key (key x) xs = Some x"
  by (induction xs) auto

lemma find_key_filter_key:
  "find_key key k (filter (\<lambda>x. P (key x)) xs) = (if P k then find_key key k xs else None)"
  by (induction xs) auto

lemma distinct_map_filter_key: "distinct (map key xs) \<Longrightarrow> distinct (map key (filter P xs))"
  by (induction xs) auto

subsection \<open>The interface of a presence store\<close>

text \<open>
  An object that can be asked whether something is present in it, and in which that something can be
  put or deleted: the taints of a node, the finalizers of a rule. The laws: putting makes present,
  deleting makes absent, neither changes the rest, and deleting what is absent does nothing.
\<close>

locale presence_store =
  fixes present :: "'n \<Rightarrow> 't \<Rightarrow> bool"
    and put :: "'n \<Rightarrow> 't \<Rightarrow> 'n"
    and del :: "'n \<Rightarrow> 't \<Rightarrow> 'n"
    and others :: "'t \<Rightarrow> 'n \<Rightarrow> 'o"
  assumes present_put: "present (put n t) t"
    and absent_del: "\<not> present (del n t) t"
    and others_put: "others t (put n t) = others t n"
    and others_del: "others t (del n t) = others t n"
    and del_absent: "\<not> present n t \<Longrightarrow> del n t = n"
begin

text \<open>Steering towards a wanted presence: act only when presence and wish differ.\<close>

definition steer :: "bool \<Rightarrow> 't \<Rightarrow> 'n \<Rightarrow> 'n" where
  "steer want t n = (if \<not> want \<and> present n t then del n t
     else if want \<and> \<not> present n t then put n t else n)"

lemma steer_reaches: "present (steer want t n) t \<longleftrightarrow> want"
  by (simp add: steer_def present_put absent_del)

lemma steer_stable: "steer want t (steer want t n) = steer want t n"
  using steer_reaches[of want t n] by (auto simp: steer_def)

lemma steer_frame: "others t (steer want t n) = others t n"
  by (simp add: steer_def others_put others_del)

lemma del_eq_steer: "del n t = steer False t n"
  by (simp add: steer_def del_absent)

lemma del_idem: "del (del n t) t = del n t"
  by (simp add: del_absent absent_del)

end

subsection \<open>Counters\<close>

lemma int32_small_sint:
  fixes x :: int32
  assumes "unat x < 2 ^ 31"
  shows "sint x = int (unat x)"
proof -
  have e: "uint x = int (unat x)" by simp
  have "int (unat x) < int (2 ^ 31)" using assms unfolding of_nat_less_iff .
  then have u: "0 \<le> uint x" "uint x < 2 ^ 31"
    unfolding e of_nat_power of_nat_numeral by linarith+
  have "signed_take_bit 31 (uint x) = uint x"
    by (rule signed_take_bit_int_eq_self) (use u in linarith)+
  then have "sint x = uint x" by (simp add: sint_uint)
  with e show ?thesis by simp
qed

lemma int32_pos_iff:
  fixes x :: int32
  assumes "unat x < 2 ^ 31"
  shows "0 <s x \<longleftrightarrow> 0 < unat x"
  unfolding word_sless_alt int32_small_sint[OF assms] signed_0 of_nat_0_less_iff ..

lemma unat_of_nat_int32: "n < 2 ^ 31 \<Longrightarrow> unat (of_nat n :: int32) = n"
  by (simp add: unat_of_nat)

end
