(* ===== verification/Api_Types.thy ===== *)
theory Api_Types
  imports Prelude
begin

text \<open>
  The data of the controller. From \<open>api/v1alpha1/nodereadinessrule_types.go\<close>: the
  \<open>NodeReadinessRule\<close> resource with its spec and status, one record per Go struct, field by
  field (an embedded \<open>ObjectMeta\<close> is reduced to the metadata the controller reads or writes; a
  \<open>*int32\<close> is an option; the string enums stay strings, as in Go, with their constants). From
  the Kubernetes API, which the sources only use: the parts of a \<open>Node\<close>, a \<open>Taint\<close>, a
  \<open>NodeCondition\<close> and a \<open>LabelSelector\<close> that the controller touches. The last section holds
  the well-formedness the CRD schema declares (\<open>listType=map\<close>, \<open>listMapKey\<close>).
\<close>

subsection \<open>Kubernetes objects the controller reads\<close>

record taint =
  taintKey :: string
  taintValue :: string
  taintEffect :: string
  timeAdded :: "time option"

record nodeCondition =
  condType :: string
  condStatus :: string
  lastHeartbeatTime :: time
  lastTransitionTime :: time
  condReason :: string
  condMessage :: string

record node =
  nodeName :: string
  nodeResourceVersion :: string
  nodeLabels :: string_map
  nodeAnnotations :: "string_map option"
  nodeTaints :: "taint list"
  nodeConditions :: "nodeCondition list"

record labelSelectorRequirement =
  lsrKey :: string
  lsrOperator :: string
  lsrValues :: "string list"

record labelSelector =
  matchLabels :: string_map
  matchExpressions :: "labelSelectorRequirement list"

definition ConditionTrue :: string where "ConditionTrue = ''True''"
definition ConditionFalse :: string where "ConditionFalse = ''False''"
definition ConditionUnknown :: string where "ConditionUnknown = ''Unknown''"

subsection \<open>NodeReadinessRule\<close>

text \<open>\<open>EnforcementMode\<close> and \<open>TaintStatus\<close> are Go string types with two constants each.\<close>

definition EnforcementModeBootstrapOnly :: string where
  "EnforcementModeBootstrapOnly = ''bootstrap-only''"

definition EnforcementModeContinuous :: string where
  "EnforcementModeContinuous = ''continuous''"

definition TaintStatusPresent :: string where "TaintStatusPresent = ''Present''"
definition TaintStatusAbsent :: string where "TaintStatusAbsent = ''Absent''"

record conditionRequirement =
  reqType :: string
  requiredStatus :: string

record nodeReadinessRuleSpec =
  conditions :: "conditionRequirement list"
  enforcementMode :: string
  ruleTaint :: taint
  nodeSelector :: labelSelector
  dryRun :: bool

record conditionEvaluationResult =
  resType :: string
  resCurrentStatus :: string
  resRequiredStatus :: string
  resSatisfied :: bool
  resMissing :: bool

record nodeEvaluation =
  evalNodeName :: string
  conditionResults :: "conditionEvaluationResult list"
  taintStatus :: string
  evalLastEvaluationTime :: time

record nodeFailure =
  failNodeName :: string
  failReason :: string
  failMessage :: string
  failLastEvaluationTime :: time

record dryRunResults =
  affectedNodes :: "int32 option"
  taintsToAdd :: "int32 option"
  taintsToRemove :: "int32 option"
  riskyOperations :: "int32 option"
  summary :: string

record nodeReadinessRuleStatus =
  observedGeneration :: int64
  appliedNodes :: "string list"
  failedNodes :: "nodeFailure list"
  nodeEvaluations :: "nodeEvaluation list"
  dryRunOutcome :: dryRunResults

record nodeReadinessRule =
  ruleName :: string
  ruleResourceVersion :: string
  generation :: int64
  deletionTimestamp :: "time option"
  finalizers :: "string list"
  ruleSpec :: nodeReadinessRuleSpec
  ruleStatus :: nodeReadinessRuleStatus

text \<open>The zero values Go's composite literals \<open>DryRunResults{}\<close> and \<open>NodeEvaluation{}\<close> give.\<close>

definition zeroTime :: time where "zeroTime = 0"

definition emptyDryRunResults :: dryRunResults where
  "emptyDryRunResults = \<lparr>affectedNodes = None, taintsToAdd = None, taintsToRemove = None,
     riskyOperations = None, summary = []\<rparr>"

definition emptyNodeEvaluation :: nodeEvaluation where
  "emptyNodeEvaluation = \<lparr>evalNodeName = [], conditionResults = [], taintStatus = [],
     evalLastEvaluationTime = zeroTime\<rparr>"

subsection \<open>Identity of list entries\<close>

text \<open>A taint is identified by its key and its effect; its value is carried along.\<close>

definition taint_id :: "taint \<Rightarrow> string \<times> string" where
  "taint_id t = (taintKey t, taintEffect t)"

lemma taint_id_eq_iff [simp]:
  "taint_id s = taint_id t \<longleftrightarrow> taintKey s = taintKey t \<and> taintEffect s = taintEffect t"
  by (simp add: taint_id_def)

text \<open>
  The CRD declares \<open>nodeEvaluations\<close> and \<open>failedNodes\<close> as lists keyed by \<open>nodeName\<close>: the
  API server refuses a status in which a name occurs twice.
\<close>

definition wf_status :: "nodeReadinessRuleStatus \<Rightarrow> bool" where
  "wf_status st \<longleftrightarrow> distinct (map evalNodeName (nodeEvaluations st)) \<and>
     distinct (map failNodeName (failedNodes st))"

text \<open>\<open>MinLength=1\<close> on the name of an evaluation.\<close>

definition named_evaluations :: "nodeReadinessRuleStatus \<Rightarrow> bool" where
  "named_evaluations st \<longleftrightarrow> (\<forall>e \<in> set (nodeEvaluations st). evalNodeName e \<noteq> [])"

end
