(* ===== verification/Environment.thy ===== *)
theory Environment
  imports Api_Types
begin

text \<open>
  Everything the controller calls outside \<open>src/\<close>, as one record of functions over an abstract
  state of the world \<open>'w\<close>: the controller-runtime client (Get, List, Update, Patch and the
  status writer), \<open>retry.RetryOnConflict\<close> of client-go, the clock behind \<open>metav1.Now\<close> and the
  label selectors of apimachinery. The record is an argument of every definition that calls one of
  them. Every call may change the world, so failures, delays and the writes of other clients
  between two calls are all instances. The contracts at the end state the documented behaviour that
  some properties rely on, each as a predicate on the record.
\<close>

subsection \<open>Errors\<close>

text \<open>
  An error is one the API server or the client returned, with its reason, or one the code made
  with \<open>fmt.Errorf\<close>: from a text, or wrapping another with \<open>%w\<close> behind a prefix.
\<close>

datatype apiReason = NotFound | Conflict | OtherReason

datatype goError = ApiError apiReason string | ErrorText string | Wrapped string goError

fun errorString :: "goError \<Rightarrow> string" where
  "errorString (ApiError r msg) = msg"
| "errorString (ErrorText msg) = msg"
| "errorString (Wrapped prefix e) = prefix @ '': '' @ errorString e"

text \<open>\<open>IsNotFound\<close> and \<open>IsConflict\<close> look through wrapping.\<close>

fun errorReason :: "goError \<Rightarrow> apiReason" where
  "errorReason (ApiError r msg) = r"
| "errorReason (ErrorText msg) = OtherReason"
| "errorReason (Wrapped prefix e) = errorReason e"

subsection \<open>The environment\<close>

text \<open>
  A parsed selector: \<open>Matches\<close>, \<open>Empty\<close> and \<open>String\<close> of \<open>labels.Selector\<close>. Parsing returns
  an error or a selector that is not nil.
\<close>

record selector =
  selMatches :: "string_map \<Rightarrow> bool"
  selEmpty :: bool
  selString :: string

text \<open>
  A call that decodes a response into the object it was given returns that object; on an error the
  object stays as the caller left it.
\<close>

record 'w env =
  getRule :: "string \<Rightarrow> 'w \<Rightarrow> (goError + nodeReadinessRule) \<times> 'w"
  listRules :: "'w \<Rightarrow> (goError + nodeReadinessRule list) \<times> 'w"
  updateRule :: "nodeReadinessRule \<Rightarrow> 'w \<Rightarrow> (goError + nodeReadinessRule) \<times> 'w"
  statusUpdate :: "nodeReadinessRule \<Rightarrow> 'w \<Rightarrow> goError option \<times> 'w"
  getNode :: "string \<Rightarrow> 'w \<Rightarrow> (goError + node) \<times> 'w"
  listNodes :: "'w \<Rightarrow> (goError + node list) \<times> 'w"
  patchNode :: "node \<Rightarrow> node \<Rightarrow> 'w \<Rightarrow> (goError + node) \<times> 'w"
  updateNode :: "node \<Rightarrow> 'w \<Rightarrow> goError option \<times> 'w"
  retryOnConflict :: "('w \<Rightarrow> goError option \<times> 'w) \<Rightarrow> 'w \<Rightarrow> goError option \<times> 'w"
  clockNow :: "'w \<Rightarrow> time \<times> 'w"
  labelSelectorAsSelector :: "labelSelector \<Rightarrow> goError + selector"

subsection \<open>What a reconciler returns\<close>

text \<open>\<open>ctrl.Result\<close> with its one field the code sets, in seconds.\<close>

record ctrlResult =
  requeueAfter :: nat

definition emptyResult :: ctrlResult where
  "emptyResult = \<lparr>requeueAfter = 0\<rparr>"

definition requeueAfterMinute :: ctrlResult where
  "requeueAfterMinute = \<lparr>requeueAfter = 60\<rparr>"

subsection \<open>RetryOnConflict\<close>

text \<open>
  Documented behaviour: the function runs at least once; while it returns a conflict it may run
  again; the result of the last run is returned.
\<close>

inductive retry_run :: "('w \<Rightarrow> goError option \<times> 'w) \<Rightarrow> 'w \<Rightarrow> goError option \<times> 'w \<Rightarrow> bool"
  for f :: "'w \<Rightarrow> goError option \<times> 'w" where
  last_attempt: "f w = r \<Longrightarrow> retry_run f w r"
| next_attempt: "f w = (Some e, w1) \<Longrightarrow> errorReason e = Conflict \<Longrightarrow> retry_run f w1 r \<Longrightarrow> retry_run f w r"

definition retry_contract :: "'w env \<Rightarrow> bool" where
  "retry_contract env \<longleftrightarrow> (\<forall>f w. retry_run f w (retryOnConflict env f w))"

text \<open>An executable retry loop with at most \<open>n\<close> further attempts, to instantiate the parameter.\<close>

fun retry_loop :: "nat \<Rightarrow> ('w \<Rightarrow> goError option \<times> 'w) \<Rightarrow> 'w \<Rightarrow> goError option \<times> 'w" where
  "retry_loop 0 f w = f w"
| "retry_loop (Suc n) f w = (case f w of
     (None, w1) \<Rightarrow> (None, w1)
   | (Some e, w1) \<Rightarrow> if errorReason e = Conflict then retry_loop n f w1 else (Some e, w1))"

lemma retry_loop_run: "retry_run f w (retry_loop n f w)"
  by (induction n arbitrary: w)
    (auto intro: retry_run.intros split: prod.splits option.splits)

text \<open>An invariant of the world that one attempt keeps is kept by the whole call.\<close>

lemma retry_invariant:
  assumes "retry_contract env" and "I w" and "\<And>w. I w \<Longrightarrow> I (snd (f w))"
  shows "I (snd (retryOnConflict env f w))"
proof -
  have "retry_run f w (retryOnConflict env f w)" using assms(1) by (simp add: retry_contract_def)
  then show ?thesis using assms(2)
    by (induction rule: retry_run.induct) (metis assms(3) snd_conv)+
qed

text \<open>What the last attempt established holds when the call returns no error.\<close>

lemma retry_success:
  assumes "retry_contract env" and "retryOnConflict env f w = (None, w')"
    and "I w" and "\<And>w. I w \<Longrightarrow> I (snd (f w))"
    and "\<And>w w'. I w \<Longrightarrow> f w = (None, w') \<Longrightarrow> Q w'"
  shows "Q w'"
proof -
  have "retry_run f w (None, w')" using assms(1,2) by (metis retry_contract_def)
  then show ?thesis using assms(3)
  proof (induction w "(None :: goError option, w')" rule: retry_run.induct)
    case (last_attempt w)
    then show ?case using assms(5) by blast
  next
    case (next_attempt w e w1)
    then have "I w1" using assms(4)[of w] by simp
    then show ?case by (rule next_attempt)
  qed
qed

text \<open>An attempt that does not end in a conflict is the only one.\<close>

inductive_cases retry_runE: "retry_run f w r"

lemma retry_no_conflict:
  assumes "retry_contract env" and "f w = (e, w')" and "\<And>x. e = Some x \<Longrightarrow> errorReason x \<noteq> Conflict"
  shows "retryOnConflict env f w = (e, w')"
proof -
  have "retry_run f w (retryOnConflict env f w)" using assms(1) by (simp add: retry_contract_def)
  then show ?thesis by (rule retry_runE) (use assms(2,3) in auto)
qed

subsection \<open>Contracts of the client\<close>

text \<open>A call that keeps a view of the world, whatever it returns.\<close>

definition keeps :: "('w \<Rightarrow> 'a) \<Rightarrow> ('w \<Rightarrow> 'r \<times> 'w) \<Rightarrow> bool" where
  "keeps v f \<longleftrightarrow> (\<forall>w. v (snd (f w)) = v w)"

lemma keepsD: "keeps v f \<Longrightarrow> f w = (r, w') \<Longrightarrow> v w' = v w"
  by (metis keeps_def snd_conv)

text \<open>
  \<open>patch_contract env tv\<close>: what a patch made by \<open>StrategicMergeFrom(base)\<close> does to the taints \<open>tv w k\<close>
  the API server holds for the node \<open>k\<close>. The patch contains what differs between \<open>base\<close> and the new
  object and no resource version. \<open>spec.taints\<close> is an atomic list: when it differs it is sent, and
  replaces the server's list, as a whole; when it does not differ it is not sent and the server's list
  stays. The answer is the node as the server then has it. A patch that fails stores nothing.
\<close>

definition patch_contract :: "'w env \<Rightarrow> ('w \<Rightarrow> string \<Rightarrow> taint list) \<Rightarrow> bool" where
  "patch_contract env tv \<longleftrightarrow> (\<forall>base new w. case patchNode env base new w of
     (Inl e, w') \<Rightarrow> tv w' = tv w
   | (Inr n, w') \<Rightarrow> nodeName n = nodeName new \<and> nodeTaints n = tv w' (nodeName new) \<and>
       tv w' = (if nodeTaints base = nodeTaints new then tv w else (tv w)(nodeName new := nodeTaints new)))"

text \<open>
  \<open>update_contract env tv\<close>: what \<open>Update\<close> of a node does to them. It replaces the object, taints
  included. The API server refuses it (a conflict) when the object carries a resource version other than
  the one the server holds, \<open>rv w k\<close>; an object without one is taken as it is. A read, which may show an
  older state, carries the version of that state, so it shows the server's taints unless its version is
  another than the server's.
\<close>

definition update_contract :: "'w env \<Rightarrow> ('w \<Rightarrow> string \<Rightarrow> taint list) \<Rightarrow> bool" where
  "update_contract env tv \<longleftrightarrow> (\<exists>rv.
     (\<forall>k w n w'. getNode env k w = (Inr n, w') \<longrightarrow> nodeName n = k \<and>
        (nodeResourceVersion n \<in> {[], rv w k} \<longrightarrow> nodeTaints n = tv w k)) \<and>
     (\<forall>k. keeps rv (getNode env k)) \<and>
     (\<forall>n w w'. updateNode env n w = (None, w') \<longrightarrow>
        nodeResourceVersion n \<in> {[], rv w (nodeName n)} \<and> tv w' = (tv w)(nodeName n := nodeTaints n)) \<and>
     (\<forall>n w e w'. updateNode env n w = (Some e, w') \<longrightarrow> tv w' = tv w))"

text \<open>
  \<open>taints_contract env tv\<close>: these two; the calls that write no node keep the taints; and nobody else
  writes taints during a call.
\<close>

definition taints_contract :: "'w env \<Rightarrow> ('w \<Rightarrow> string \<Rightarrow> taint list) \<Rightarrow> bool" where
  "taints_contract env tv \<longleftrightarrow>
     retry_contract env \<and> patch_contract env tv \<and> update_contract env tv \<and>
     (\<forall>k. keeps tv (getRule env k)) \<and> keeps tv (listRules env) \<and>
     (\<forall>r. keeps tv (updateRule env r)) \<and> (\<forall>r. keeps tv (statusUpdate env r)) \<and>
     (\<forall>k. keeps tv (getNode env k)) \<and> keeps tv (listNodes env) \<and> keeps tv (clockNow env)"

text \<open>\<open>list_contract env tv\<close>: a list shows every node once, with the taints the server holds.\<close>

definition list_contract :: "'w env \<Rightarrow> ('w \<Rightarrow> string \<Rightarrow> taint list) \<Rightarrow> bool" where
  "list_contract env tv \<longleftrightarrow> (\<forall>w ns w'. listNodes env w = (Inr ns, w') \<longrightarrow>
     distinct (map nodeName ns) \<and> (\<forall>n \<in> set ns. tv w (nodeName n) = nodeTaints n))"

lemma patch_ok:
  assumes "patch_contract env tv" and "patchNode env base new w = (Inr n, w')"
  shows "nodeName n = nodeName new" "nodeTaints n = tv w' (nodeName new)"
    "nodeTaints base = nodeTaints new \<Longrightarrow> tv w' = tv w"
    "nodeTaints base \<noteq> nodeTaints new \<Longrightarrow> tv w' = (tv w)(nodeName new := nodeTaints new)"
    "tv w (nodeName new) = nodeTaints base \<Longrightarrow> tv w' = (tv w)(nodeName new := nodeTaints new)"
  using assms(1)[unfolded patch_contract_def, rule_format, where base = base and new = new and w = w] assms(2)
  by (auto simp: fun_eq_iff split: if_splits)

lemma patch_fail:
  assumes "patch_contract env tv" and "patchNode env base new w = (Inl e, w')"
  shows "tv w' = tv w"
  using assms(1)[unfolded patch_contract_def, rule_format, where base = base and new = new and w = w] assms(2) by simp

text \<open>Reading a node and updating it with its taints unchanged keeps the taints: a stale copy is refused.\<close>

lemma read_update_keeps:
  assumes "update_contract env tv" and "\<And>k. keeps tv (getNode env k)" and "getNode env k w = (Inr n, w1)"
    and "updateNode env m w1 = (e, w2)" and "nodeName m = nodeName n" and "nodeTaints m = nodeTaints n"
    and "nodeResourceVersion m = nodeResourceVersion n"
  shows "tv w2 = tv w"
proof -
  from assms(1) obtain rv where
    get: "\<forall>k w n w'. getNode env k w = (Inr n, w') \<longrightarrow> nodeName n = k \<and>
        (nodeResourceVersion n \<in> {[], rv w k} \<longrightarrow> nodeTaints n = tv w k)" and kv: "\<forall>k. keeps rv (getNode env k)"
    and ok: "\<forall>n w w'. updateNode env n w = (None, w') \<longrightarrow>
        nodeResourceVersion n \<in> {[], rv w (nodeName n)} \<and> tv w' = (tv w)(nodeName n := nodeTaints n)"
    and fail: "\<forall>n w e w'. updateNode env n w = (Some e, w') \<longrightarrow> tv w' = tv w"
    unfolding update_contract_def by blast
  have same: "tv w1 = tv w" "rv w1 = rv w" using keepsD[OF assms(2,3)] keepsD[OF kv[rule_format] assms(3)] by simp_all
  show ?thesis
  proof (cases e)
    case None
    with ok assms(4) have u: "nodeResourceVersion m \<in> {[], rv w1 (nodeName m)}" "tv w2 = (tv w1)(nodeName m := nodeTaints m)" by blast+
    with get assms(3,5,7) same have "nodeTaints n = tv w (nodeName m)" by metis
    with u(2) same assms(6) show ?thesis by simp
  next
    case (Some x)
    with fail assms(4) same show ?thesis by metis
  qed
qed

lemma taints_contractD:
  assumes "taints_contract env tv"
  shows "retry_contract env" "patch_contract env tv"
    "keeps tv (getRule env k)" "keeps tv (listRules env)" "keeps tv (updateRule env r)"
    "keeps tv (statusUpdate env r)" "keeps tv (getNode env k)" "keeps tv (listNodes env)"
    "update_contract env tv" "keeps tv (clockNow env)"
  using assms by (simp_all add: taints_contract_def)

text \<open>
  \<open>conditions_contract env cv\<close>: \<open>cv w k\<close> are the conditions the API server holds for the node \<open>k\<close>. They
  are part of the status subresource, which none of these calls writes, and nobody else writes them
  during the call; reads and the answers of patches show them.
\<close>

definition conditions_contract :: "'w env \<Rightarrow> ('w \<Rightarrow> string \<Rightarrow> nodeCondition list) \<Rightarrow> bool" where
  "conditions_contract env cv \<longleftrightarrow> retry_contract env \<and>
     (\<forall>k w n w'. getNode env k w = (Inr n, w') \<longrightarrow> nodeConditions n = cv w k) \<and>
     (\<forall>base new w n w'. patchNode env base new w = (Inr n, w') \<longrightarrow> nodeConditions n = cv w (nodeName new)) \<and>
     (\<forall>k. keeps cv (getRule env k)) \<and> (\<forall>r. keeps cv (statusUpdate env r)) \<and> (\<forall>k. keeps cv (getNode env k)) \<and>
     (\<forall>base n. keeps cv (patchNode env base n)) \<and> (\<forall>n. keeps cv (updateNode env n)) \<and> keeps cv (clockNow env)"

lemma conditions_contractD:
  assumes "conditions_contract env cv"
  shows "retry_contract env" "getNode env k w = (Inr n, w') \<Longrightarrow> nodeConditions n = cv w k"
    "patchNode env base new w = (Inr n, w') \<Longrightarrow> nodeConditions n = cv w (nodeName new)"
    "keeps cv (getRule env k)" "keeps cv (statusUpdate env r)" "keeps cv (getNode env k)"
    "keeps cv (patchNode env base m)" "keeps cv (updateNode env m)" "keeps cv (clockNow env)"
  using assms unfolding conditions_contract_def by blast+

text \<open>
  \<open>node_write_free env I\<close>: a predicate on the world that every call but the two that write a node
  (\<open>patchNode\<close>, \<open>updateNode\<close>) keeps. Showing that the code keeps every such \<open>I\<close> shows that it
  writes no node, for any client whatsoever.
\<close>

definition node_write_free :: "'w env \<Rightarrow> ('w \<Rightarrow> bool) \<Rightarrow> bool" where
  "node_write_free env I \<longleftrightarrow>
     (\<forall>w. I w \<longrightarrow>
       (\<forall>k. I (snd (getRule env k w))) \<and> I (snd (listRules env w)) \<and>
       (\<forall>r. I (snd (updateRule env r w))) \<and> (\<forall>r. I (snd (statusUpdate env r w))) \<and>
       (\<forall>k. I (snd (getNode env k w))) \<and> I (snd (listNodes env w)) \<and> I (snd (clockNow env w)))"

text \<open>\<open>read_only env I\<close>: a predicate that every call that only reads keeps.\<close>

definition read_only :: "'w env \<Rightarrow> ('w \<Rightarrow> bool) \<Rightarrow> bool" where
  "read_only env I \<longleftrightarrow>
     (\<forall>w. I w \<longrightarrow>
       (\<forall>k. I (snd (getRule env k w))) \<and> I (snd (listRules env w)) \<and>
       (\<forall>k. I (snd (getNode env k w))) \<and> I (snd (listNodes env w)) \<and> I (snd (clockNow env w)))"

lemma node_write_freeD:
  assumes "node_write_free env I" and "I w"
  shows "getRule env k w = (a, w1) \<Longrightarrow> I w1" "listRules env w = (b, w1) \<Longrightarrow> I w1"
    "updateRule env r w = (c, w1) \<Longrightarrow> I w1" "statusUpdate env r w = (d, w1) \<Longrightarrow> I w1"
    "getNode env k w = (e, w1) \<Longrightarrow> I w1" "listNodes env w = (g, w1) \<Longrightarrow> I w1"
    "clockNow env w = (h, w1) \<Longrightarrow> I w1"
  using assms unfolding node_write_free_def by (metis snd_conv)+

lemma read_onlyD:
  assumes "read_only env I" and "I w"
  shows "getRule env k w = (a, w1) \<Longrightarrow> I w1" "listRules env w = (b, w1) \<Longrightarrow> I w1"
    "getNode env k w = (e, w1) \<Longrightarrow> I w1" "listNodes env w = (g, w1) \<Longrightarrow> I w1"
    "clockNow env w = (h, w1) \<Longrightarrow> I w1"
  using assms unfolding read_only_def by (metis snd_conv)+

lemma node_write_free_read_only: "node_write_free env I \<Longrightarrow> read_only env I"
  by (simp add: node_write_free_def read_only_def)

text \<open>
  \<open>status_contract env sv\<close>: \<open>sv w k\<close> is the status the API server holds for the rule named \<open>k\<close>,
  and nobody else writes a status while the controller runs. Status is a subresource: only the status
  writer changes it, and a plain update of the rule does not.
\<close>

definition status_contract :: "'w env \<Rightarrow> ('w \<Rightarrow> string \<Rightarrow> nodeReadinessRuleStatus option) \<Rightarrow> bool" where
  "status_contract env sv \<longleftrightarrow>
     retry_contract env \<and>
     (\<forall>k w r w'. getRule env k w = (Inr r, w') \<longrightarrow> ruleName r = k \<and> sv w k = Some (ruleStatus r)) \<and>
     (\<forall>r w w'. statusUpdate env r w = (None, w') \<longrightarrow> sv w' = (sv w)(ruleName r := Some (ruleStatus r))) \<and>
     (\<forall>r w e w'. statusUpdate env r w = (Some e, w') \<longrightarrow> sv w' = sv w) \<and>
     (\<forall>k. keeps sv (getRule env k)) \<and> keeps sv (listRules env) \<and>
     (\<forall>r. keeps sv (updateRule env r)) \<and> (\<forall>k. keeps sv (getNode env k)) \<and>
     keeps sv (listNodes env) \<and> (\<forall>n. keeps sv (updateNode env n)) \<and>
     (\<forall>base n. keeps sv (patchNode env base n)) \<and> keeps sv (clockNow env)"

lemma status_contractD:
  assumes "status_contract env sv"
  shows "retry_contract env"
    "getRule env k w = (Inr r, w') \<Longrightarrow> ruleName r = k \<and> sv w k = Some (ruleStatus r)"
    "statusUpdate env r w = (None, w') \<Longrightarrow> sv w' = (sv w)(ruleName r := Some (ruleStatus r))"
    "statusUpdate env r w = (Some e, w') \<Longrightarrow> sv w' = sv w"
    "keeps sv (getRule env k)" "keeps sv (listNodes env)"
  using assms unfolding status_contract_def by blast+

text \<open>
  \<open>annotations_contract env av\<close>: \<open>av w k\<close> are the annotations the API server holds for the node
  named \<open>k\<close> (\<open>None\<close> when there is no such node); a read shows them, an update of a node that succeeds
  replaces them, and nobody else writes them during the call.
\<close>

definition annotations_contract :: "'w env \<Rightarrow> ('w \<Rightarrow> string \<Rightarrow> string_map option option) \<Rightarrow> bool" where
  "annotations_contract env av \<longleftrightarrow>
     retry_contract env \<and>
     (\<forall>k w n w'. getNode env k w = (Inr n, w') \<longrightarrow> nodeName n = k \<and> av w k = Some (nodeAnnotations n)) \<and>
     (\<forall>k. keeps av (getNode env k)) \<and>
     (\<forall>n w w'. updateNode env n w = (None, w') \<longrightarrow> av w' = (av w)(nodeName n := Some (nodeAnnotations n))) \<and>
     (\<forall>n w e w'. updateNode env n w = (Some e, w') \<longrightarrow> av w' = av w)"

lemma annotations_contractD:
  assumes "annotations_contract env av"
  shows "retry_contract env"
    "getNode env k w = (Inr n, w') \<Longrightarrow> nodeName n = k \<and> av w k = Some (nodeAnnotations n)"
    "keeps av (getNode env k)"
    "updateNode env n w = (None, w') \<Longrightarrow> av w' = (av w)(nodeName n := Some (nodeAnnotations n))"
    "updateNode env n w = (Some e, w') \<Longrightarrow> av w' = av w"
  using assms unfolding annotations_contract_def by blast+

text \<open>
  \<open>marks_contract env av\<close>: moreover the calls that write no node leave them alone, and so does a patch
  between two objects with the same annotations, which does not mention them.
\<close>

definition marks_contract :: "'w env \<Rightarrow> ('w \<Rightarrow> string \<Rightarrow> string_map option option) \<Rightarrow> bool" where
  "marks_contract env av \<longleftrightarrow> annotations_contract env av \<and>
     (\<forall>k. keeps av (getRule env k)) \<and> (\<forall>r. keeps av (statusUpdate env r)) \<and> keeps av (clockNow env) \<and>
     (\<forall>base new. nodeAnnotations base = nodeAnnotations new \<longrightarrow> keeps av (patchNode env base new))"

lemma marks_contractD:
  assumes "marks_contract env av"
  shows "annotations_contract env av" "keeps av (getRule env k)" "keeps av (statusUpdate env r)" "keeps av (clockNow env)"
    "nodeAnnotations base = nodeAnnotations new \<Longrightarrow> keeps av (patchNode env base new)"
  using assms unfolding marks_contract_def by blast+

text \<open>
  \<open>finalizers_contract env fv\<close>: \<open>fv w k\<close> are the finalizers the API server holds for the rule named
  \<open>k\<close>; a read shows them, only an update of a rule that is accepted changes them, and nobody else does
  during the call.
\<close>

definition finalizers_contract :: "'w env \<Rightarrow> ('w \<Rightarrow> string \<Rightarrow> string list option) \<Rightarrow> bool" where
  "finalizers_contract env fv \<longleftrightarrow> retry_contract env \<and>
     (\<forall>k w r w'. getRule env k w = (Inr r, w') \<longrightarrow> ruleName r = k \<and> fv w k = Some (finalizers r)) \<and>
     (\<forall>r w e w'. updateRule env r w = (Inl e, w') \<longrightarrow> fv w' = fv w) \<and>
     (\<forall>k. keeps fv (getRule env k)) \<and> keeps fv (listRules env) \<and> (\<forall>r. keeps fv (statusUpdate env r)) \<and>
     (\<forall>k. keeps fv (getNode env k)) \<and> keeps fv (listNodes env) \<and> (\<forall>base n. keeps fv (patchNode env base n)) \<and>
     (\<forall>n. keeps fv (updateNode env n)) \<and> keeps fv (clockNow env)"

lemma finalizers_contractD:
  assumes "finalizers_contract env fv"
  shows "retry_contract env" "getRule env k w = (Inr r, w') \<Longrightarrow> ruleName r = k \<and> fv w k = Some (finalizers r)"
    "updateRule env r w = (Inl e, w') \<Longrightarrow> fv w' = fv w" "keeps fv (getRule env k)" "keeps fv (listNodes env)"
    "keeps fv (patchNode env base n)"
  using assms unfolding finalizers_contract_def by blast+

end
