(* ===== verification/Node_Taints.thy ===== *)
theory Node_Taints
  imports Environment
begin

text \<open>
  Reading a node's conditions and reading, adding and removing its taints: \<open>getConditionStatus\<close>,
  \<open>hasTaintBySpec\<close>, \<open>addTaintBySpec\<close> and \<open>removeTaintBySpec\<close> of
  \<open>internal/controller/node_controller.go\<close>. The last two change the node they are given in memory
  and then patch it; when the patch fails the in-memory change stays. The interface
  \<open>presence_store\<close> states what the evaluation relies on, and the lemmas at the end lift it
  through the patch under the taint contract of the client.
\<close>

subsection \<open>Operations\<close>

fun conditionStatusIn :: "nodeCondition list \<Rightarrow> string \<Rightarrow> string" where
  "conditionStatusIn [] ty = ConditionUnknown"
| "conditionStatusIn (c # cs) ty = (if condType c = ty then condStatus c else conditionStatusIn cs ty)"

definition getConditionStatus :: "node \<Rightarrow> string \<Rightarrow> string" where
  "getConditionStatus n conditionType = conditionStatusIn (nodeConditions n) conditionType"

fun hasTaintIn :: "taint list \<Rightarrow> taint \<Rightarrow> bool" where
  "hasTaintIn [] spec = False"
| "hasTaintIn (t # ts) spec =
     (if taintKey t = taintKey spec \<and> taintEffect t = taintEffect spec then True else hasTaintIn ts spec)"

definition hasTaintBySpec :: "node \<Rightarrow> taint \<Rightarrow> bool" where
  "hasTaintBySpec n spec = hasTaintIn (nodeTaints n) spec"

text \<open>The in-memory part of the two operations: what the code assigns to \<open>node.Spec.Taints\<close>.\<close>

definition appendTaint :: "node \<Rightarrow> taint \<Rightarrow> node" where
  "appendTaint n spec = n\<lparr>nodeTaints := nodeTaints n @
     [\<lparr>taintKey = taintKey spec, taintValue = taintValue spec, taintEffect = taintEffect spec,
       timeAdded = None\<rparr>]\<rparr>"

fun filterTaints :: "taint list \<Rightarrow> taint \<Rightarrow> taint list \<Rightarrow> taint list" where
  "filterTaints [] spec newTaints = newTaints"
| "filterTaints (t # ts) spec newTaints =
     (if taintKey t \<noteq> taintKey spec \<or> taintEffect t \<noteq> taintEffect spec
      then filterTaints ts spec (newTaints @ [t]) else filterTaints ts spec newTaints)"

definition dropTaint :: "node \<Rightarrow> taint \<Rightarrow> node" where
  "dropTaint n spec = n\<lparr>nodeTaints := filterTaints (nodeTaints n) spec []\<rparr>"

text \<open>
  Each returns the error of the patch, the node as the caller then sees it (the server's answer, or
  the changed copy when the patch failed) and the world. The first argument of \<open>patchNode\<close> is the
  deep copy taken before the change, from which the client computes the patch.
\<close>

definition addTaintBySpec :: "'w env \<Rightarrow> node \<Rightarrow> taint \<Rightarrow> 'w \<Rightarrow> goError option \<times> node \<times> 'w" where
  "addTaintBySpec env n spec w =
     (let base = n; n' = appendTaint n spec
      in case patchNode env base n' w of
           (Inl e, w') \<Rightarrow> (Some e, n', w')
         | (Inr answer, w') \<Rightarrow> (None, answer, w'))"

definition removeTaintBySpec :: "'w env \<Rightarrow> node \<Rightarrow> taint \<Rightarrow> 'w \<Rightarrow> goError option \<times> node \<times> 'w" where
  "removeTaintBySpec env n spec w =
     (let base = n; n' = dropTaint n spec
      in case patchNode env base n' w of
           (Inl e, w') \<Rightarrow> (Some e, n', w')
         | (Inr answer, w') \<Rightarrow> (None, answer, w'))"

subsection \<open>Characterisation\<close>

lemma conditionStatusIn_find_key:
  "conditionStatusIn cs ty = (case find_key condType ty cs of None \<Rightarrow> ConditionUnknown | Some c \<Rightarrow> condStatus c)"
  by (induction cs) auto

lemma hasTaintIn_iff: "hasTaintIn ts spec \<longleftrightarrow> (\<exists>t \<in> set ts. taint_id t = taint_id spec)"
  by (induction ts) auto

lemma filterTaints_eq: "filterTaints ts spec acc = acc @ filter (\<lambda>t. taint_id t \<noteq> taint_id spec) ts"
  by (induction ts arbitrary: acc) auto

text \<open>The taints of a list that are not the one of the specification: the frame of both operations.\<close>

definition other_taints :: "taint \<Rightarrow> taint list \<Rightarrow> taint list" where
  "other_taints spec ts = filter (\<lambda>t. taint_id t \<noteq> taint_id spec) ts"

lemma dropTaint_taints [simp]: "nodeTaints (dropTaint n spec) = other_taints spec (nodeTaints n)"
  by (simp add: dropTaint_def filterTaints_eq other_taints_def)

lemma appendTaint_taints [simp]:
  "nodeTaints (appendTaint n spec) = nodeTaints n @ [spec\<lparr>timeAdded := None\<rparr>]"
  by (cases spec) (simp add: appendTaint_def)

lemma taint_update_fields [simp]:
  "nodeName (appendTaint n spec) = nodeName n" "nodeName (dropTaint n spec) = nodeName n"
  "nodeConditions (appendTaint n spec) = nodeConditions n"
  "nodeConditions (dropTaint n spec) = nodeConditions n"
  "nodeLabels (appendTaint n spec) = nodeLabels n" "nodeLabels (dropTaint n spec) = nodeLabels n"
  "nodeAnnotations (appendTaint n spec) = nodeAnnotations n" "nodeAnnotations (dropTaint n spec) = nodeAnnotations n"
  by (simp_all add: appendTaint_def dropTaint_def)

lemma other_taints_hasTaintIn:
  "taint_id t \<noteq> taint_id spec \<Longrightarrow> hasTaintIn (other_taints spec ts) t = hasTaintIn ts t"
  by (induction ts) (auto simp: other_taints_def)

lemma other_taints_idem [simp]: "other_taints spec (other_taints spec ts) = other_taints spec ts"
  by (simp add: other_taints_def)

subsection \<open>Taints as a presence store\<close>

lemma appendTaint_present: "hasTaintBySpec (appendTaint n t) t"
  by (auto simp: hasTaintBySpec_def hasTaintIn_iff)

lemma dropTaint_absent: "\<not> hasTaintBySpec (dropTaint n t) t"
  by (auto simp: hasTaintBySpec_def hasTaintIn_iff other_taints_def)

interpretation node_taints: presence_store hasTaintBySpec appendTaint dropTaint
  "\<lambda>t n. other_taints t (nodeTaints n)"
proof unfold_locales
  fix n t assume "\<not> hasTaintBySpec n t"
  then have "filter (\<lambda>s. taint_id s \<noteq> taint_id t) (nodeTaints n) = nodeTaints n"
    by (auto simp: hasTaintBySpec_def hasTaintIn_iff filter_id_conv)
  then show "dropTaint n t = n" by (simp add: dropTaint_def filterTaints_eq)
qed (simp_all add: appendTaint_present dropTaint_absent other_taints_def)

subsection \<open>Through the patch\<close>

text \<open>
  Both operations on a node as the server has it, seen on the server's taints: the patch is the difference
  to the node before the change, so a success makes the change, and nothing else; a failure stores nothing;
  the node the caller goes on with has the change in both cases.
\<close>

lemma taint_patch_contract:
  assumes con: "patch_contract env tv" and "tv w (nodeName n) = nodeTaints n" and "nodeName m = nodeName n"
    and "patchNode env n m w = (r, w')"
  shows "(case r of Inr n' \<Rightarrow> nodeName n' = nodeName n \<and> nodeTaints n' = nodeTaints m | Inl e \<Rightarrow> True) \<and>
    tv w' = (case r of Inr _ \<Rightarrow> (tv w)(nodeName n := nodeTaints m) | Inl _ \<Rightarrow> tv w)"
proof (cases r)
  case (Inl e)
  with patch_fail[OF con assms(4)[unfolded Inl]] show ?thesis by simp
next
  case (Inr n')
  with patch_ok(1,2,5)[OF con assms(4)[unfolded Inr]] assms(2,3) show ?thesis by simp
qed

lemma addTaintBySpec_contract:
  assumes con: "patch_contract env tv" and run: "addTaintBySpec env n t w = (e, n', w')"
    and cur: "tv w (nodeName n) = nodeTaints n"
  shows "nodeTaints n' = nodeTaints (appendTaint n t)" "nodeName n' = nodeName n"
    "tv w' = (case e of None \<Rightarrow> (tv w)(nodeName n := nodeTaints (appendTaint n t)) | Some _ \<Rightarrow> tv w)"
  using run taint_patch_contract[OF con cur, of "appendTaint n t"]
  by (auto simp: addTaintBySpec_def Let_def split: prod.splits sum.splits)

lemma removeTaintBySpec_contract:
  assumes con: "patch_contract env tv" and run: "removeTaintBySpec env n t w = (e, n', w')"
    and cur: "tv w (nodeName n) = nodeTaints n"
  shows "nodeTaints n' = nodeTaints (dropTaint n t)" "nodeName n' = nodeName n"
    "tv w' = (case e of None \<Rightarrow> (tv w)(nodeName n := nodeTaints (dropTaint n t)) | Some _ \<Rightarrow> tv w)"
  using run taint_patch_contract[OF con cur, of "dropTaint n t"]
  by (auto simp: removeTaintBySpec_def Let_def split: prod.splits sum.splits)

end
