(* ===== verification/Mem_Server.thy ===== *)
theory Mem_Server
  imports Environment
begin

text \<open>
  An in-memory API server: one concrete environment that meets the contracts of the theory
  \<open>Environment\<close>. It models no code of the repository; the witnesses of the properties run on it, which
  shows that the hypotheses about the client can hold together. Nodes and rules are lists of which the
  first entry with a name counts; a script of faults decides which patches fail; the clock ticks. Its
  selectors look at the label \<open>role\<close> only.
\<close>

record server =
  srvNodes :: "node list"
  srvRules :: "nodeReadinessRule list"
  srvFaults :: "goError option list"
  srvClock :: time

subsection \<open>Lists keyed by name\<close>

fun dedup :: "('a \<Rightarrow> 'k) \<Rightarrow> 'a list \<Rightarrow> 'a list" where
  "dedup key [] = []"
| "dedup key (x # xs) = x # filter (\<lambda>y. key y \<noteq> key x) (dedup key xs)"

definition update_key :: "('a \<Rightarrow> 'k) \<Rightarrow> 'k \<Rightarrow> ('a \<Rightarrow> 'a) \<Rightarrow> 'a list \<Rightarrow> 'a list" where
  "update_key key k f xs = map (\<lambda>x. if key x = k then f x else x) xs"

lemma dedup_distinct: "distinct (map key (dedup key xs))"
  by (induction xs) (auto simp: distinct_map_filter_key)

lemma dedup_find: "find_key key k (dedup key xs) = find_key key k xs"
proof (induction xs)
  case (Cons x xs)
  then show ?case
    using find_key_filter_key[of key k "\<lambda>j. j \<noteq> key x" "dedup key xs"] by auto
qed simp

lemma dedup_mem: "x \<in> set (dedup key xs) \<Longrightarrow> find_key key (key x) xs = Some x"
  using find_key_distinct[OF dedup_distinct, of x key xs] by (simp add: dedup_find)

lemma update_key_find:
  assumes "\<And>x. key (f x) = key x"
  shows "find_key key j (update_key key k f xs) =
    (if j = k then map_option f (find_key key k xs) else find_key key j xs)"
  using assms by (induction xs) (auto simp: update_key_def)

subsection \<open>The environment\<close>

definition notFound :: goError where
  "notFound = ApiError NotFound ''not found''"

definition mem_selector :: "labelSelector \<Rightarrow> goError + selector" where
  "mem_selector s =
     (if matchExpressions s \<noteq> [] then Inl (ErrorText ''expressions are not supported'')
      else let role = go_index (matchLabels s) ''role''
           in Inr \<lparr>selMatches = (\<lambda>m. go_index m ''role'' = role), selEmpty = (role = []), selString = ''role='' @ role\<rparr>)"

text \<open>A write that changes a node gives it a new resource version.\<close>

definition patched :: "node \<Rightarrow> node \<Rightarrow> node \<Rightarrow> node" where
  "patched base new old = (if nodeTaints base = nodeTaints new then old
     else old\<lparr>nodeTaints := nodeTaints new, nodeResourceVersion := CHR ''1'' # nodeResourceVersion old\<rparr>)"

definition mem_patch :: "node \<Rightarrow> node \<Rightarrow> server \<Rightarrow> (goError + node) \<times> server" where
  "mem_patch base new s =
     (case srvFaults s of
        Some e # faults \<Rightarrow> (Inl e, s\<lparr>srvFaults := faults\<rparr>)
      | faults \<Rightarrow>
          (case find_key nodeName (nodeName new) (srvNodes s) of
             None \<Rightarrow> (Inl notFound, s\<lparr>srvFaults := tl faults\<rparr>)
           | Some old \<Rightarrow> (Inr (patched base new old), s\<lparr>srvFaults := tl faults,
               srvNodes := update_key nodeName (nodeName new) (patched base new) (srvNodes s)\<rparr>)))"

text \<open>An update replaces the object except its status, and needs the current resource version or none.\<close>

definition updated :: "node \<Rightarrow> node \<Rightarrow> node" where
  "updated n old = n\<lparr>nodeName := nodeName old, nodeConditions := nodeConditions old,
     nodeResourceVersion := CHR ''1'' # nodeResourceVersion old\<rparr>"

definition mem_update :: "node \<Rightarrow> server \<Rightarrow> goError option \<times> server" where
  "mem_update n s =
     (case find_key nodeName (nodeName n) (srvNodes s) of
        None \<Rightarrow> (Some notFound, s)
      | Some old \<Rightarrow> if nodeResourceVersion n \<notin> {[], nodeResourceVersion old} then (Some (ApiError Conflict ''conflict''), s)
          else (None, s\<lparr>srvNodes := update_key nodeName (nodeName n) (updated n) (srvNodes s)\<rparr>))"

lemma patched_fields [simp]:
  "nodeName (patched base new old) = nodeName old" "nodeConditions (patched base new old) = nodeConditions old"
  "nodeLabels (patched base new old) = nodeLabels old" "nodeAnnotations (patched base new old) = nodeAnnotations old"
  "nodeTaints (patched base new old) = (if nodeTaints base = nodeTaints new then nodeTaints old else nodeTaints new)"
  by (simp_all add: patched_def)

lemma updated_fields [simp]:
  "nodeName (updated n old) = nodeName old" "nodeConditions (updated n old) = nodeConditions old"
  "nodeTaints (updated n old) = nodeTaints n" "nodeAnnotations (updated n old) = nodeAnnotations n"
  "nodeLabels (updated n old) = nodeLabels n"
  by (simp_all add: updated_def)

definition mem_env :: "server env" where
  "mem_env = \<lparr>
     getRule = (\<lambda>k s. (case find_key ruleName k (srvRules s) of None \<Rightarrow> (Inl notFound, s) | Some r \<Rightarrow> (Inr r, s))),
     listRules = (\<lambda>s. (Inr (dedup ruleName (srvRules s)), s)),
     updateRule = (\<lambda>r s. (case find_key ruleName (ruleName r) (srvRules s) of
        None \<Rightarrow> (Inl notFound, s)
      | Some old \<Rightarrow> (Inr (r\<lparr>ruleStatus := ruleStatus old\<rparr>),
          s\<lparr>srvRules := update_key ruleName (ruleName r) (\<lambda>old. r\<lparr>ruleName := ruleName old, ruleStatus := ruleStatus old\<rparr>) (srvRules s)\<rparr>))),
     statusUpdate = (\<lambda>r s. (case find_key ruleName (ruleName r) (srvRules s) of
        None \<Rightarrow> (Some notFound, s)
      | Some old \<Rightarrow> (None,
          s\<lparr>srvRules := update_key ruleName (ruleName r) (\<lambda>old. old\<lparr>ruleStatus := ruleStatus r\<rparr>) (srvRules s)\<rparr>))),
     getNode = (\<lambda>k s. (case find_key nodeName k (srvNodes s) of None \<Rightarrow> (Inl notFound, s) | Some n \<Rightarrow> (Inr n, s))),
     listNodes = (\<lambda>s. (Inr (dedup nodeName (srvNodes s)), s)),
     patchNode = mem_patch,
     updateNode = mem_update,
     retryOnConflict = retry_loop 4,
     clockNow = (\<lambda>s. (srvClock s, s\<lparr>srvClock := srvClock s + 1\<rparr>)),
     labelSelectorAsSelector = mem_selector\<rparr>"

lemma mem_env_simps [server_defs]:
  "getRule mem_env k s = (case find_key ruleName k (srvRules s) of None \<Rightarrow> (Inl notFound, s) | Some r \<Rightarrow> (Inr r, s))"
  "listRules mem_env s = (Inr (dedup ruleName (srvRules s)), s)"
  "updateRule mem_env r s = (case find_key ruleName (ruleName r) (srvRules s) of
        None \<Rightarrow> (Inl notFound, s)
      | Some old \<Rightarrow> (Inr (r\<lparr>ruleStatus := ruleStatus old\<rparr>),
          s\<lparr>srvRules := update_key ruleName (ruleName r) (\<lambda>old. r\<lparr>ruleName := ruleName old, ruleStatus := ruleStatus old\<rparr>) (srvRules s)\<rparr>))"
  "statusUpdate mem_env r s = (case find_key ruleName (ruleName r) (srvRules s) of
        None \<Rightarrow> (Some notFound, s)
      | Some old \<Rightarrow> (None,
          s\<lparr>srvRules := update_key ruleName (ruleName r) (\<lambda>old. old\<lparr>ruleStatus := ruleStatus r\<rparr>) (srvRules s)\<rparr>))"
  "getNode mem_env k s = (case find_key nodeName k (srvNodes s) of None \<Rightarrow> (Inl notFound, s) | Some n \<Rightarrow> (Inr n, s))"
  "listNodes mem_env s = (Inr (dedup nodeName (srvNodes s)), s)"
  "patchNode mem_env base new s = mem_patch base new s"
  "updateNode mem_env n s = mem_update n s"
  "retryOnConflict mem_env = retry_loop 4"
  "clockNow mem_env s = (srvClock s, s\<lparr>srvClock := srvClock s + 1\<rparr>)"
  "labelSelectorAsSelector mem_env = mem_selector"
  by (simp_all add: mem_env_def)

lemmas mem_eval [server_defs] = mem_patch_def mem_update_def patched_def updated_def mem_selector_def notFound_def update_key_def eval_nat_numeral

subsection \<open>It meets the contracts\<close>

definition server_taints :: "server \<Rightarrow> string \<Rightarrow> taint list" where
  "server_taints s k = (case find_key nodeName k (srvNodes s) of None \<Rightarrow> [] | Some n \<Rightarrow> nodeTaints n)"

definition server_status :: "server \<Rightarrow> string \<Rightarrow> nodeReadinessRuleStatus option" where
  "server_status s k = map_option ruleStatus (find_key ruleName k (srvRules s))"

definition server_annotations :: "server \<Rightarrow> string \<Rightarrow> string_map option option" where
  "server_annotations s k = map_option nodeAnnotations (find_key nodeName k (srvNodes s))"

lemma mem_retry_contract: "retry_contract mem_env"
  by (simp add: retry_contract_def mem_env_simps retry_loop_run)

lemma mem_patch_contract: "patch_contract mem_env server_taints"
  by (auto simp: patch_contract_def mem_env_simps mem_patch_def server_taints_def update_key_find fun_eq_iff
      split: list.split option.split dest: find_key_SomeD)

definition server_version :: "server \<Rightarrow> string \<Rightarrow> string" where
  "server_version s k = (case find_key nodeName k (srvNodes s) of None \<Rightarrow> [] | Some n \<Rightarrow> nodeResourceVersion n)"

lemma mem_update_None:
  assumes "mem_update n s = (None, s')"
  shows "nodeResourceVersion n \<in> {[], server_version s (nodeName n)}" "server_taints s' = (server_taints s)(nodeName n := nodeTaints n)"
    "srvFaults s' = srvFaults s" "find_key nodeName k (srvNodes s') = None \<longleftrightarrow> find_key nodeName k (srvNodes s) = None"
  using assms by (auto simp: mem_update_def server_taints_def server_version_def update_key_find fun_eq_iff
      split: option.splits if_splits dest: find_key_SomeD)

lemma mem_update_Some: "mem_update n s = (Some e, s') \<Longrightarrow> s' = s"
  by (auto simp: mem_update_def split: option.splits if_splits)

lemma mem_update_contract: "update_contract mem_env server_taints"
  unfolding update_contract_def
proof (intro exI[of _ server_version] conjI allI impI)
  fix n s s' assume "updateNode mem_env n s = (None, s')"
  then have "mem_update n s = (None, s')" by (simp add: mem_env_simps)
  note up = mem_update_None[OF this]
  show "nodeResourceVersion n \<in> {[], server_version s (nodeName n)}" by (rule up(1))
  show "server_taints s' = (server_taints s)(nodeName n := nodeTaints n)" by (rule up(2))
qed (auto simp: keeps_def mem_env_simps server_taints_def server_version_def dest: mem_update_Some find_key_SomeD
    split: option.splits)

lemma mem_taints_contract: "taints_contract mem_env server_taints"
  unfolding taints_contract_def
  by (auto simp: mem_retry_contract mem_patch_contract mem_update_contract keeps_def mem_env_simps server_taints_def
      update_key_find fun_eq_iff split: option.split)

definition server_conditions :: "server \<Rightarrow> string \<Rightarrow> nodeCondition list" where
  "server_conditions s k = (case find_key nodeName k (srvNodes s) of None \<Rightarrow> [] | Some n \<Rightarrow> nodeConditions n)"

lemma mem_conditions_contract: "conditions_contract mem_env server_conditions"
  unfolding conditions_contract_def
  by (auto simp: mem_retry_contract keeps_def mem_env_simps mem_patch_def mem_update_def server_conditions_def
      update_key_find fun_eq_iff split: option.splits list.splits if_splits)

lemma mem_list_contract: "list_contract mem_env server_taints"
  by (auto simp: list_contract_def mem_env_simps dedup_distinct server_taints_def dedup_mem)

lemma mem_status_contract: "status_contract mem_env server_status"
  unfolding status_contract_def
  by (auto simp: mem_retry_contract keeps_def mem_env_simps mem_patch_def mem_update_def server_status_def update_key_find
      fun_eq_iff split: option.splits list.split dest: find_key_SomeD)

lemma mem_annotations_contract: "annotations_contract mem_env server_annotations"
  unfolding annotations_contract_def
  by (auto simp: mem_retry_contract keeps_def mem_env_simps mem_update_def server_annotations_def update_key_find
      fun_eq_iff split: option.splits if_splits dest: find_key_SomeD)

lemma mem_marks_contract: "marks_contract mem_env server_annotations"
  unfolding marks_contract_def
  by (auto simp: mem_annotations_contract keeps_def mem_env_simps mem_patch_def server_annotations_def update_key_find
      fun_eq_iff option.map_comp comp_def split: option.splits list.splits)

definition server_finalizers :: "server \<Rightarrow> string \<Rightarrow> string list option" where
  "server_finalizers s k = map_option finalizers (find_key ruleName k (srvRules s))"

lemma mem_finalizers_contract: "finalizers_contract mem_env server_finalizers"
  unfolding finalizers_contract_def
  by (auto simp: mem_retry_contract keeps_def mem_env_simps mem_patch_def mem_update_def server_finalizers_def update_key_find
      fun_eq_iff option.map_comp comp_def split: option.splits list.splits dest: find_key_SomeD)

end
