(* ===== verification/Samples.thy ===== *)
theory Samples
  imports Mem_Server
begin

text \<open>
  Concrete objects for the witnesses: the network rule of the README with its taint, worker nodes with
  and without the condition the rule requires, and servers that hold them. They model no code.
\<close>

definition net_taint :: taint where
  "net_taint = \<lparr>taintKey = ''readiness.k8s.io/NetworkReady'', taintValue = ''pending'',
     taintEffect = ''NoSchedule'', timeAdded = None\<rparr>"

definition disk_taint :: taint where
  "disk_taint = \<lparr>taintKey = ''disk'', taintValue = [], taintEffect = ''NoExecute'', timeAdded = None\<rparr>"

definition net_condition :: "string \<Rightarrow> nodeCondition" where
  "net_condition st = \<lparr>condType = ''CalicoReady'', condStatus = st, lastHeartbeatTime = 0,
     lastTransitionTime = 0, condReason = [], condMessage = []\<rparr>"

definition role_labels :: "string \<Rightarrow> string_map" where
  "role_labels role = fmupd ''role'' role fmempty"

definition worker :: "string \<Rightarrow> string \<Rightarrow> taint list \<Rightarrow> node" where
  "worker name st ts = \<lparr>nodeName = name, nodeResourceVersion = ''1'', nodeLabels = role_labels ''worker'',
     nodeAnnotations = None, nodeTaints = ts, nodeConditions = [net_condition st]\<rparr>"

definition no_status :: nodeReadinessRuleStatus where
  "no_status = \<lparr>observedGeneration = 0, appliedNodes = [], failedNodes = [], nodeEvaluations = [],
     dryRunOutcome = emptyDryRunResults\<rparr>"

definition net_spec :: "string \<Rightarrow> bool \<Rightarrow> nodeReadinessRuleSpec" where
  "net_spec mode dry = \<lparr>conditions = [\<lparr>reqType = ''CalicoReady'', requiredStatus = ''True''\<rparr>],
     enforcementMode = mode, ruleTaint = net_taint,
     nodeSelector = \<lparr>matchLabels = role_labels ''worker'', matchExpressions = []\<rparr>, dryRun = dry\<rparr>"

definition net_rule :: "string \<Rightarrow> bool \<Rightarrow> nodeReadinessRule" where
  "net_rule mode dry = \<lparr>ruleName = ''net'', ruleResourceVersion = [], generation = 1,
     deletionTimestamp = None, finalizers = [''readiness.node.x-k8s.io/cleanup-taints''],
     ruleSpec = net_spec mode dry, ruleStatus = no_status\<rparr>"

definition server_of :: "node list \<Rightarrow> nodeReadinessRule list \<Rightarrow> goError option list \<Rightarrow> server" where
  "server_of ns rs faults = \<lparr>srvNodes = ns, srvRules = rs, srvFaults = faults, srvClock = 0\<rparr>"

definition denied :: goError where
  "denied = ApiError OtherReason ''denied''"

lemmas sample_defs = net_taint_def disk_taint_def net_condition_def role_labels_def worker_def no_status_def
  net_spec_def net_rule_def server_of_def denied_def

lemmas mode_defs = EnforcementModeBootstrapOnly_def EnforcementModeContinuous_def
  ConditionTrue_def ConditionFalse_def ConditionUnknown_def TaintStatusPresent_def TaintStatusAbsent_def

end
