(* ===== verification/Rule_Status.thy ===== *)
theory Rule_Status
  imports Samples
begin

text \<open>
  The bookkeeping in a rule's status, keyed by node name: \<open>updateNodeEvaluationStatus\<close>
  (\<open>nodereadinessrule_controller.go\<close>) replaces a node's evaluation where it is or appends one,
  \<open>recordNodeFailure\<close> (\<open>node_controller.go\<close>) removes a node's failures and appends the new one.
  Both are instances of the interface \<open>keyed_store\<close>, which keeps the list keyed by node name as the
  CRD declares it and whose lookups behave like those of a map.
\<close>

subsection \<open>Operations\<close>

text \<open>
  The loop that finds the entry to overwrite, and the write through the pointer it leaves; the entry
  is appended when there is none.
\<close>

fun setEvaluation :: "string \<Rightarrow> conditionEvaluationResult list \<Rightarrow> string \<Rightarrow> time \<Rightarrow>
    nodeEvaluation list \<Rightarrow> nodeEvaluation list" where
  "setEvaluation name results st t [] =
     [\<lparr>evalNodeName = name, conditionResults = results, taintStatus = st, evalLastEvaluationTime = t\<rparr>]"
| "setEvaluation name results st t (e # es) =
     (if evalNodeName e = name
      then e\<lparr>conditionResults := results, taintStatus := st, evalLastEvaluationTime := t\<rparr> # es
      else e # setEvaluation name results st t es)"

definition updateNodeEvaluationStatus :: "'w env \<Rightarrow> nodeReadinessRule \<Rightarrow> string \<Rightarrow>
    conditionEvaluationResult list \<Rightarrow> string \<Rightarrow> 'w \<Rightarrow> nodeReadinessRule \<times> 'w" where
  "updateNodeEvaluationStatus env rule name results st w =
     (let (t, w') = clockNow env w;
          status = ruleStatus rule
      in (rule\<lparr>ruleStatus := status\<lparr>nodeEvaluations :=
            setEvaluation name results st t (nodeEvaluations status)\<rparr>\<rparr>, w'))"

definition replaceFailure :: "nodeFailure \<Rightarrow> nodeFailure list \<Rightarrow> nodeFailure list" where
  "replaceFailure f fs = filter (\<lambda>g. failNodeName g \<noteq> failNodeName f) fs @ [f]"

definition recordNodeFailure :: "'w env \<Rightarrow> nodeReadinessRule \<Rightarrow> string \<Rightarrow> string \<Rightarrow> string \<Rightarrow> 'w \<Rightarrow>
    nodeReadinessRule \<times> 'w" where
  "recordNodeFailure env rule name reason message w =
     (let (t, w') = clockNow env w;
          status = ruleStatus rule
      in (rule\<lparr>ruleStatus := status\<lparr>failedNodes :=
            replaceFailure \<lparr>failNodeName = name, failReason = reason, failMessage = message,
              failLastEvaluationTime = t\<rparr> (failedNodes status)\<rparr>\<rparr>, w'))"

subsection \<open>The interface of a list keyed by name\<close>

text \<open>
  \<open>store k v xs\<close> sets the entry named \<open>k\<close>; \<open>entry k v\<close> is what a lookup finds there afterwards.
\<close>

locale keyed_store =
  fixes key :: "'a \<Rightarrow> 'k"
    and store :: "'k \<Rightarrow> 'v \<Rightarrow> 'a list \<Rightarrow> 'a list"
    and entry :: "'k \<Rightarrow> 'v \<Rightarrow> 'a"
  assumes key_entry: "key (entry k v) = k"
    and find_store: "find_key key j (store k v xs) = (if j = k then Some (entry k v) else find_key key j xs)"
    and distinct_store: "distinct (map key xs) \<Longrightarrow> distinct (map key (store k v xs))"
begin

lemma keys_store: "key ` set (store k v xs) = insert k (key ` set xs)"
proof -
  have "j \<in> key ` set (store k v xs) \<longleftrightarrow> j \<in> insert k (key ` set xs)" for j
    by (metis find_key_None_iff find_store insert_iff option.distinct(1))
  then show ?thesis by blast
qed

text \<open>A sequence of stores, as a loop over the nodes makes them.\<close>

fun store_all :: "('k \<times> 'v) list \<Rightarrow> 'a list \<Rightarrow> 'a list" where
  "store_all [] xs = xs"
| "store_all ((k, v) # kvs) xs = store_all kvs (store k v xs)"

lemma distinct_store_all: "distinct (map key xs) \<Longrightarrow> distinct (map key (store_all kvs xs))"
  by (induction kvs xs rule: store_all.induct) (simp_all add: distinct_store)

lemma find_store_all:
  "find_key key j (store_all kvs xs) =
     (case map_of (rev kvs) j of None \<Rightarrow> find_key key j xs | Some v \<Rightarrow> Some (entry j v))"
  by (induction kvs xs rule: store_all.induct)
    (auto simp: find_store map_add_def split: option.splits)

end

definition mkEvaluation :: "string \<Rightarrow> conditionEvaluationResult list \<times> string \<times> time \<Rightarrow> nodeEvaluation" where
  "mkEvaluation name v = (case v of (results, st, t) \<Rightarrow>
     \<lparr>evalNodeName = name, conditionResults = results, taintStatus = st, evalLastEvaluationTime = t\<rparr>)"

definition mkFailure :: "string \<Rightarrow> string \<times> string \<times> time \<Rightarrow> nodeFailure" where
  "mkFailure name v = (case v of (reason, message, t) \<Rightarrow>
     \<lparr>failNodeName = name, failReason = reason, failMessage = message, failLastEvaluationTime = t\<rparr>)"

lemma setEvaluation_keys: "k \<notin> evalNodeName ` set xs \<Longrightarrow> k \<noteq> name \<Longrightarrow>
  k \<notin> evalNodeName ` set (setEvaluation name r s t xs)"
  by (induction xs) auto

interpretation evaluations: keyed_store evalNodeName
  "\<lambda>k v. setEvaluation k (fst v) (fst (snd v)) (snd (snd v))" mkEvaluation
proof unfold_locales
  fix j k :: string and v :: "conditionEvaluationResult list \<times> string \<times> time" and xs
  show "evalNodeName (mkEvaluation k v) = k" by (simp add: mkEvaluation_def split: prod.split)
  show "find_key evalNodeName j (setEvaluation k (fst v) (fst (snd v)) (snd (snd v)) xs) =
    (if j = k then Some (mkEvaluation k v) else find_key evalNodeName j xs)"
    by (induction xs) (auto simp: mkEvaluation_def split: prod.split)
  assume "distinct (map evalNodeName xs)"
  then show "distinct (map evalNodeName (setEvaluation k (fst v) (fst (snd v)) (snd (snd v)) xs))"
    by (induction xs) (use setEvaluation_keys in \<open>fastforce+\<close>)
qed

interpretation failures: keyed_store failNodeName "\<lambda>k v. replaceFailure (mkFailure k v)" mkFailure
proof unfold_locales
  fix j k :: string and v :: "string \<times> string \<times> time" and xs
  show n: "failNodeName (mkFailure k v) = k" for k v by (simp add: mkFailure_def split: prod.split)
  show "find_key failNodeName j (replaceFailure (mkFailure k v) xs) =
    (if j = k then Some (mkFailure k v) else find_key failNodeName j xs)"
    using find_key_filter_key[of failNodeName j "\<lambda>i. i \<noteq> k" xs]
    by (simp add: replaceFailure_def find_key_append n split: option.split)
  assume "distinct (map failNodeName xs)"
  then show "distinct (map failNodeName (replaceFailure (mkFailure k v) xs))"
    by (auto simp: replaceFailure_def n distinct_map_filter_key)
qed

subsection \<open>What the operations leave in the status\<close>

lemma updateNodeEvaluationStatus_eq:
  "updateNodeEvaluationStatus env rule name results st w =
     (rule\<lparr>ruleStatus := (ruleStatus rule)\<lparr>nodeEvaluations :=
        setEvaluation name results st (fst (clockNow env w)) (nodeEvaluations (ruleStatus rule))\<rparr>\<rparr>,
      snd (clockNow env w))"
  by (simp add: updateNodeEvaluationStatus_def Let_def split: prod.split)

lemma recordNodeFailure_eq:
  "recordNodeFailure env rule name reason message w =
     (rule\<lparr>ruleStatus := (ruleStatus rule)\<lparr>failedNodes :=
        replaceFailure (mkFailure name (reason, message, fst (clockNow env w))) (failedNodes (ruleStatus rule))\<rparr>\<rparr>,
      snd (clockNow env w))"
  by (simp add: recordNodeFailure_def mkFailure_def Let_def split: prod.split)

lemma updateNodeEvaluationStatus_wf:
  assumes "wf_status (ruleStatus rule)"
  shows "wf_status (ruleStatus (fst (updateNodeEvaluationStatus env rule name results st w)))"
  using assms evaluations.distinct_store[of "nodeEvaluations (ruleStatus rule)" name "(results, st, t)" for t]
  by (simp add: updateNodeEvaluationStatus_eq wf_status_def)

lemma recordNodeFailure_wf:
  assumes "wf_status (ruleStatus rule)"
  shows "wf_status (ruleStatus (fst (recordNodeFailure env rule name reason message w)))"
  using assms failures.distinct_store[of "failedNodes (ruleStatus rule)"]
  by (simp add: recordNodeFailure_eq wf_status_def)

lemma updateNodeEvaluationStatus_find:
  "find_key evalNodeName j (nodeEvaluations (ruleStatus (fst
     (updateNodeEvaluationStatus env rule name results st w)))) =
   (if j = name then Some (mkEvaluation name (results, st, fst (clockNow env w)))
    else find_key evalNodeName j (nodeEvaluations (ruleStatus rule)))"
  using evaluations.find_store[of j name "(results, st, fst (clockNow env w))"]
  by (simp add: updateNodeEvaluationStatus_eq)

lemma recordNodeFailure_find:
  "find_key failNodeName j (failedNodes (ruleStatus (fst
     (recordNodeFailure env rule name reason message w)))) =
   (if j = name then Some (mkFailure name (reason, message, fst (clockNow env w)))
    else find_key failNodeName j (failedNodes (ruleStatus rule)))"
  using failures.find_store[of j name "(reason, message, fst (clockNow env w))"]
  by (simp add: recordNodeFailure_eq)

subsection \<open>Properties\<close>

text \<open>
  C32: Recording an evaluation or a failure of a node leaves at most one entry per node in both lists,
  makes the new entry the one found under the node's name, and keeps the entries of all other nodes.
\<close>

theorem status_entries_keyed:
  assumes "distinct (map evalNodeName (nodeEvaluations (ruleStatus rule)))"
    and "distinct (map failNodeName (failedNodes (ruleStatus rule)))"
    and "fst (updateNodeEvaluationStatus env rule name results st w) = rule1"
    and "fst (recordNodeFailure env rule1 name reason message v) = rule2"
  shows "distinct (map evalNodeName (nodeEvaluations (ruleStatus rule2))) \<and>
    distinct (map failNodeName (failedNodes (ruleStatus rule2))) \<and>
    (\<forall>k. find_key evalNodeName k (nodeEvaluations (ruleStatus rule2)) =
      (if k = name then Some \<lparr>evalNodeName = name, conditionResults = results, taintStatus = st,
         evalLastEvaluationTime = fst (clockNow env w)\<rparr>
       else find_key evalNodeName k (nodeEvaluations (ruleStatus rule)))) \<and>
    (\<forall>k. find_key failNodeName k (failedNodes (ruleStatus rule2)) =
      (if k = name then Some (mkFailure name (reason, message, fst (clockNow env v)))
       else find_key failNodeName k (failedNodes (ruleStatus rule))))"
proof -
  have wf: "wf_status (ruleStatus rule)" using assms(1,2) by (simp add: wf_status_def)
  have wf1: "wf_status (ruleStatus rule1)"
    using updateNodeEvaluationStatus_wf[OF wf, of env name results st w] assms(3) by simp
  have wf2: "wf_status (ruleStatus rule2)"
    using recordNodeFailure_wf[OF wf1, of env name reason message v] assms(4) by simp
  have evals: "nodeEvaluations (ruleStatus rule2) = nodeEvaluations (ruleStatus rule1)"
    using assms(4) by (auto simp: recordNodeFailure_eq)
  have fails: "failedNodes (ruleStatus rule1) = failedNodes (ruleStatus rule)"
    using assms(3) by (auto simp: updateNodeEvaluationStatus_eq)
  show ?thesis
    using wf2 updateNodeEvaluationStatus_find[of _ env rule name results st w]
      recordNodeFailure_find[of _ env rule1 name reason message v]
    unfolding evals fails assms(3,4) by (simp add: wf_status_def evals mkEvaluation_def)
qed

theorem status_entries_keyed_witness:
  "\<exists>rule2. fst (recordNodeFailure mem_env (fst (updateNodeEvaluationStatus mem_env (net_rule ''continuous'' False) ''w1'' [] ''Absent''
       (server_of [] [] []))) ''w1'' ''EvaluationError'' ''denied'' (server_of [] [] [])) = rule2 \<and>
     distinct (map evalNodeName (nodeEvaluations (ruleStatus rule2))) \<and>
     find_key failNodeName ''w2'' (failedNodes (ruleStatus rule2)) = None"
  using status_entries_keyed[OF _ _ refl refl, where rule = "net_rule ''continuous'' False" and env = mem_env
      and name = "''w1''" and reason = "''EvaluationError''" and message = "''denied''" and v = "server_of [] [] []"
      and results = "[]" and st = "''Absent''" and w = "server_of [] [] []"]
  by (simp add: net_rule_def no_status_def)

end
