(* ===== verification/Evaluation.thy ===== *)
theory Evaluation
  imports Node_Taints Rule_Status Samples
begin

text \<open>
  The heart of the controller: \<open>evaluateRuleForNode\<close>
  (\<open>internal/controller/nodereadinessrule_controller.go\<close>), which compares every condition a rule
  requires with the node's, adds or removes the rule's taint and records the outcome in the rule's
  status, and the bootstrap completion marks it leaves (\<open>isBootstrapCompleted\<close>,
  \<open>markBootstrapCompleted\<close> of \<open>node_controller.go\<close>). The function takes and returns the rule and
  the node, both of which it changes in place, and the world.
\<close>

subsection \<open>Bootstrap completion\<close>

definition bootstrapAnnotation :: "string \<Rightarrow> string" where
  "bootstrapAnnotation rule = ''readiness.k8s.io/bootstrap-completed-'' @ rule"

definition hasAnnotation :: "node \<Rightarrow> string \<Rightarrow> bool" where
  "hasAnnotation n k = (case nodeAnnotations n of None \<Rightarrow> False | Some m \<Rightarrow> fmlookup m k \<noteq> None)"

definition isBootstrapCompleted :: "'w env \<Rightarrow> string \<Rightarrow> string \<Rightarrow> 'w \<Rightarrow> bool \<times> 'w" where
  "isBootstrapCompleted env name rule w =
     (case getNode env name w of
        (Inl e, w') \<Rightarrow> (False, w')
      | (Inr n, w') \<Rightarrow> (hasAnnotation n (bootstrapAnnotation rule), w'))"

text \<open>One attempt of the update under \<open>RetryOnConflict\<close>; a nil annotation map is made first.\<close>

definition markAttempt :: "'w env \<Rightarrow> string \<Rightarrow> string \<Rightarrow> 'w \<Rightarrow> goError option \<times> 'w" where
  "markAttempt env name key w =
     (case getNode env name w of
        (Inl e, w') \<Rightarrow> (Some e, w')
      | (Inr n, w') \<Rightarrow>
          if hasAnnotation n key then (None, w')
          else let annotations = (case nodeAnnotations n of None \<Rightarrow> fmempty | Some m \<Rightarrow> m)
               in updateNode env (n\<lparr>nodeAnnotations := Some (fmupd key ''true'' annotations)\<rparr>) w')"

text \<open>The error is only logged, so nothing but the world comes back.\<close>

definition markBootstrapCompleted :: "'w env \<Rightarrow> string \<Rightarrow> string \<Rightarrow> 'w \<Rightarrow> 'w" where
  "markBootstrapCompleted env name rule w =
     snd (retryOnConflict env (markAttempt env name (bootstrapAnnotation rule)) w)"

subsection \<open>Condition evaluation\<close>

text \<open>The loop over the required conditions, with its two accumulators.\<close>

fun evaluateConditions :: "node \<Rightarrow> conditionRequirement list \<Rightarrow> bool \<Rightarrow> conditionEvaluationResult list \<Rightarrow>
    bool \<times> conditionEvaluationResult list" where
  "evaluateConditions n [] allSatisfied results = (allSatisfied, results)"
| "evaluateConditions n (c # cs) allSatisfied results =
     (let currentStatus = getConditionStatus n (reqType c);
          satisfied = (currentStatus = requiredStatus c);
          missing = (currentStatus = ConditionUnknown)
      in evaluateConditions n cs (if \<not> satisfied then False else allSatisfied)
           (results @ [\<lparr>resType = reqType c, resCurrentStatus = currentStatus,
              resRequiredStatus = requiredStatus c, resSatisfied = satisfied, resMissing = missing\<rparr>]))"

definition satisfiedBy :: "node \<Rightarrow> conditionRequirement \<Rightarrow> bool" where
  "satisfiedBy n c \<longleftrightarrow> getConditionStatus n (reqType c) = requiredStatus c"

definition conditionResult :: "node \<Rightarrow> conditionRequirement \<Rightarrow> conditionEvaluationResult" where
  "conditionResult n c = \<lparr>resType = reqType c, resCurrentStatus = getConditionStatus n (reqType c),
     resRequiredStatus = requiredStatus c, resSatisfied = satisfiedBy n c,
     resMissing = (getConditionStatus n (reqType c) = ConditionUnknown)\<rparr>"

lemma evaluateConditions_eq:
  "evaluateConditions n cs b rs = (b \<and> list_all (satisfiedBy n) cs, rs @ map (conditionResult n) cs)"
  by (induction cs arbitrary: b rs) (auto simp: Let_def satisfiedBy_def conditionResult_def)

subsection \<open>evaluateRuleForNode\<close>

definition taintStatusOf :: "node \<Rightarrow> taint \<Rightarrow> string" where
  "taintStatusOf n t = (if hasTaintBySpec n t then TaintStatusPresent else TaintStatusAbsent)"

definition evaluateRuleForNode :: "'w env \<Rightarrow> nodeReadinessRule \<Rightarrow> node \<Rightarrow> 'w \<Rightarrow>
    goError option \<times> nodeReadinessRule \<times> node \<times> 'w" where
  "evaluateRuleForNode env rule n w =
     (let spec = ruleSpec rule;
          (allConditionsSatisfied, results) = evaluateConditions n (conditions spec) True [];
          shouldRemoveTaint = allConditionsSatisfied;
          currentlyHasTaint = hasTaintBySpec n (ruleTaint spec);
          finish = (\<lambda>n w. case updateNodeEvaluationStatus env rule (nodeName n) results
                            (taintStatusOf n (ruleTaint spec)) w of (rule', w') \<Rightarrow> (None, rule', n, w'))
      in if shouldRemoveTaint \<and> currentlyHasTaint then
           (case removeTaintBySpec env n (ruleTaint spec) w of
              (Some e, n', w') \<Rightarrow> (Some (Wrapped ''failed to remove taint'' e), rule, n', w')
            | (None, n', w') \<Rightarrow>
                finish n' (if enforcementMode spec = EnforcementModeBootstrapOnly
                           then markBootstrapCompleted env (nodeName n') (ruleName rule) w' else w'))
         else if \<not> shouldRemoveTaint \<and> \<not> currentlyHasTaint then
           (case addTaintBySpec env n (ruleTaint spec) w of
              (Some e, n', w') \<Rightarrow> (Some (Wrapped ''failed to add taint'' e), rule, n', w')
            | (None, n', w') \<Rightarrow> finish n' w')
         else finish n w)"

subsection \<open>Its behaviour\<close>

text \<open>What a rule wants of a node: its taint, unless every condition is met.\<close>

definition ready :: "nodeReadinessRule \<Rightarrow> node \<Rightarrow> bool" where
  "ready rule n \<longleftrightarrow> list_all (satisfiedBy n) (conditions (ruleSpec rule))"

definition wants_taint :: "nodeReadinessRule \<Rightarrow> node \<Rightarrow> bool" where
  "wants_taint rule n \<longleftrightarrow> \<not> ready rule n"

abbreviation taint_of :: "nodeReadinessRule \<Rightarrow> taint" where
  "taint_of rule \<equiv> ruleTaint (ruleSpec rule)"

definition steered :: "nodeReadinessRule \<Rightarrow> node \<Rightarrow> node" where
  "steered rule n = node_taints.steer (wants_taint rule n) (taint_of rule) n"

definition evaluated :: "nodeReadinessRule \<Rightarrow> node \<Rightarrow> time \<Rightarrow> nodeReadinessRule" where
  "evaluated rule n t = rule\<lparr>ruleStatus := (ruleStatus rule)\<lparr>nodeEvaluations :=
     setEvaluation (nodeName n) (map (conditionResult n) (conditions (ruleSpec rule)))
       (if wants_taint rule n then TaintStatusPresent else TaintStatusAbsent) t
       (nodeEvaluations (ruleStatus rule))\<rparr>\<rparr>"

lemma steered_cases:
  "steered rule n = (if ready rule n \<and> hasTaintBySpec n (taint_of rule) then dropTaint n (taint_of rule)
     else if \<not> ready rule n \<and> \<not> hasTaintBySpec n (taint_of rule) then appendTaint n (taint_of rule) else n)"
  by (simp add: steered_def node_taints.steer_def wants_taint_def)

lemma steered_has: "hasTaintBySpec (steered rule n) (taint_of rule) \<longleftrightarrow> wants_taint rule n"
  by (simp add: steered_def node_taints.steer_reaches)

lemma steered_others: "other_taints (taint_of rule) (nodeTaints (steered rule n)) = other_taints (taint_of rule) (nodeTaints n)"
  by (simp add: steered_def node_taints.steer_frame)

lemma steered_fields [simp]:
  "nodeName (steered rule n) = nodeName n" "nodeConditions (steered rule n) = nodeConditions n"
  "nodeLabels (steered rule n) = nodeLabels n" "nodeAnnotations (steered rule n) = nodeAnnotations n"
  by (simp_all add: steered_cases)

lemma satisfiedBy_cong: "nodeConditions n = nodeConditions m \<Longrightarrow> satisfiedBy n c = satisfiedBy m c"
  by (simp add: satisfiedBy_def getConditionStatus_def)

lemma ready_cong: "nodeConditions n = nodeConditions m \<Longrightarrow> ready rule n = ready rule m"
  by (simp add: ready_def list_all_iff satisfiedBy_cong[of n m])

lemma hasTaintBySpec_cong: "nodeTaints n = nodeTaints m \<Longrightarrow> hasTaintBySpec n t = hasTaintBySpec m t"
  by (simp add: hasTaintBySpec_def)

text \<open>
  The evaluation as a patch that may fail followed by the bookkeeping: \<open>evaluateRuleForNode\<close> patches
  exactly when presence and wish differ, with the steered node as the new version.
\<close>

definition needs_action :: "nodeReadinessRule \<Rightarrow> node \<Rightarrow> bool" where
  "needs_action rule n \<longleftrightarrow> hasTaintBySpec n (taint_of rule) \<noteq> wants_taint rule n"

definition actionError :: "nodeReadinessRule \<Rightarrow> node \<Rightarrow> goError \<Rightarrow> goError" where
  "actionError rule n e = Wrapped (if ready rule n then ''failed to remove taint'' else ''failed to add taint'') e"

definition after_patch :: "'w env \<Rightarrow> nodeReadinessRule \<Rightarrow> node \<Rightarrow> node \<Rightarrow> 'w \<Rightarrow> 'w" where
  "after_patch env rule n n' w =
     (if ready rule n \<and> enforcementMode (ruleSpec rule) = EnforcementModeBootstrapOnly
      then markBootstrapCompleted env (nodeName n') (ruleName rule) w else w)"

definition record_evaluation :: "'w env \<Rightarrow> nodeReadinessRule \<Rightarrow> node \<Rightarrow> node \<Rightarrow> 'w \<Rightarrow> nodeReadinessRule \<times> 'w" where
  "record_evaluation env rule n n' w =
     updateNodeEvaluationStatus env rule (nodeName n') (map (conditionResult n) (conditions (ruleSpec rule)))
       (taintStatusOf n' (taint_of rule)) w"

lemma evaluateRuleForNode_eq:
  "evaluateRuleForNode env rule n w =
     (if needs_action rule n then
        (case patchNode env n (steered rule n) w of
           (Inl e, w') \<Rightarrow> (Some (actionError rule n e), rule, steered rule n, w')
         | (Inr n', w') \<Rightarrow>
             (case record_evaluation env rule n n' (after_patch env rule n n' w') of
                (rule', w'') \<Rightarrow> (None, rule', n', w'')))
      else (case record_evaluation env rule n n w of (rule', w') \<Rightarrow> (None, rule', n, w')))"
proof (cases "ready rule n"; cases "hasTaintBySpec n (taint_of rule)")
  note defs = evaluateRuleForNode_def evaluateConditions_eq needs_action_def wants_taint_def
    steered_cases actionError_def after_patch_def record_evaluation_def
    addTaintBySpec_def removeTaintBySpec_def Let_def
  {
    assume "ready rule n" "hasTaintBySpec n (taint_of rule)"
    then show ?thesis by (simp add: defs ready_def split: prod.split sum.split option.split)
  next
    assume "ready rule n" "\<not> hasTaintBySpec n (taint_of rule)"
    then show ?thesis by (simp add: defs ready_def split: prod.split)
  next
    assume "\<not> ready rule n" "hasTaintBySpec n (taint_of rule)"
    then show ?thesis by (simp add: defs ready_def split: prod.split)
  next
    assume "\<not> ready rule n" "\<not> hasTaintBySpec n (taint_of rule)"
    then show ?thesis by (simp add: defs ready_def split: prod.split sum.split option.split)
  }
qed

text \<open>Whatever the client does, only the status of the rule and the taints of the node may change.\<close>

definition same_rule :: "nodeReadinessRule \<Rightarrow> nodeReadinessRule \<Rightarrow> bool" where
  "same_rule r r' \<longleftrightarrow> ruleName r' = ruleName r \<and> ruleSpec r' = ruleSpec r \<and>
     ruleResourceVersion r' = ruleResourceVersion r \<and> generation r' = generation r \<and>
     deletionTimestamp r' = deletionTimestamp r \<and> finalizers r' = finalizers r"

lemma same_rule_refl [simp]: "same_rule r r"
  by (simp add: same_rule_def)

lemma same_rule_trans: "same_rule a b \<Longrightarrow> same_rule b c \<Longrightarrow> same_rule a c"
  by (simp add: same_rule_def)

lemma same_rule_status [simp]: "same_rule r (r\<lparr>ruleStatus := st\<rparr>)"
  by (simp add: same_rule_def)

lemma record_evaluation_eq:
  "record_evaluation env rule n n' w =
     (rule\<lparr>ruleStatus := (ruleStatus rule)\<lparr>nodeEvaluations :=
        setEvaluation (nodeName n') (map (conditionResult n) (conditions (ruleSpec rule)))
          (taintStatusOf n' (taint_of rule)) (fst (clockNow env w)) (nodeEvaluations (ruleStatus rule))\<rparr>\<rparr>,
      snd (clockNow env w))"
  by (simp add: record_evaluation_def updateNodeEvaluationStatus_eq)

lemma evaluateRuleForNode_same_rule:
  assumes "evaluateRuleForNode env rule n w = (e, rule', n', w')"
  shows "same_rule rule rule'"
  using assms by (auto simp: evaluateRuleForNode_eq record_evaluation_eq split: prod.splits sum.splits if_splits)

lemma evaluateRuleForNode_failures:
  assumes "evaluateRuleForNode env rule n w = (e, rule', n', w')"
  shows "failedNodes (ruleStatus rule') = failedNodes (ruleStatus rule)"
  using assms by (auto simp: evaluateRuleForNode_eq record_evaluation_eq split: prod.splits sum.splits if_splits)

lemma evaluateRuleForNode_wf:
  assumes "evaluateRuleForNode env rule n w = (e, rule', n', w')" and "wf_status (ruleStatus rule)"
  shows "wf_status (ruleStatus rule')"
proof -
  have "wf_status (ruleStatus (fst (record_evaluation env rule m m' v)))" for m m' v
    unfolding record_evaluation_def by (rule updateNodeEvaluationStatus_wf[OF assms(2)])
  then show ?thesis using assms
    by (auto simp: evaluateRuleForNode_eq split: prod.splits sum.splits if_splits) (metis fst_conv)+
qed

text \<open>An error is the patch's, wrapped; the rule is then as it was.\<close>

lemma evaluateRuleForNode_error:
  assumes "evaluateRuleForNode env rule n w = (Some e, rule', n', w')"
  shows "needs_action rule n \<and> rule' = rule \<and> n' = steered rule n \<and>
    (\<exists>c. patchNode env n (steered rule n) w = (Inl c, w') \<and> e = actionError rule n c)"
  using assms by (auto simp: evaluateRuleForNode_eq record_evaluation_eq split: prod.splits sum.splits if_splits)

subsection \<open>Under the taint contract\<close>

text \<open>The mark is an update of the object as it was read, with another annotation.\<close>

lemma markAttempt_keeps:
  assumes "taints_contract env tv"
  shows "tv (snd (markAttempt env name key w)) = tv w"
proof -
  note D = taints_contractD[OF assms]
  obtain r v where g: "getNode env name w = (r, v)" by (cases "getNode env name w")
  have v: "tv v = tv w" by (rule keepsD[OF D(7) g])
  show ?thesis
  proof (cases r)
    case (Inl e)
    with g v show ?thesis by (simp add: markAttempt_def)
  next
    case (Inr n)
    let ?m = "n\<lparr>nodeAnnotations := Some (fmupd key ''true'' (case nodeAnnotations n of None \<Rightarrow> fmempty | Some m \<Rightarrow> m))\<rparr>"
    obtain e u where up: "updateNode env ?m v = (e, u)" by (cases "updateNode env ?m v")
    have "tv u = tv w" by (rule read_update_keeps[OF D(9) D(7) g[unfolded Inr] up]) simp_all
    with g Inr v up show ?thesis by (simp add: markAttempt_def Let_def)
  qed
qed

lemma markBootstrapCompleted_keeps:
  assumes "taints_contract env tv"
  shows "tv (markBootstrapCompleted env name rule w) = tv w"
  unfolding markBootstrapCompleted_def
  by (rule retry_invariant[where I = "\<lambda>v. tv v = tv w"])
    (simp_all add: taints_contractD(1)[OF assms] markAttempt_keeps[OF assms])

lemma after_patch_keeps: "taints_contract env tv \<Longrightarrow> tv (after_patch env rule n n' w) = tv w"
  by (simp add: after_patch_def markBootstrapCompleted_keeps)

lemma clock_keeps: "taints_contract env tv \<Longrightarrow> tv (snd (clockNow env w)) = tv w"
  by (simp add: taints_contract_def keeps_def)

text \<open>
  The one lemma the reconcilers use: what an evaluation does to the node in hand, to the server's
  taints and to the rule, for a node as the server has it.
\<close>

lemma steered_differs:
  assumes "needs_action rule n"
  shows "nodeTaints n \<noteq> nodeTaints (steered rule n)"
proof
  assume "nodeTaints n = nodeTaints (steered rule n)"
  with steered_has[of rule n] assms show False by (simp add: needs_action_def hasTaintBySpec_def)
qed

lemma steered_idle: "\<not> needs_action rule n \<Longrightarrow> steered rule n = n"
  by (auto simp: needs_action_def steered_cases wants_taint_def)

text \<open>
  Whatever the client does and however old the node in hand is: what it becomes, and what becomes of the
  server's taints. A patch made from an old copy writes the whole list.
\<close>

lemma evaluateRuleForNode_any:
  assumes con: "taints_contract env tv" and run: "evaluateRuleForNode env rule n w = (e, rule', n', w')"
  shows "nodeName n' = nodeName n" "nodeTaints n' = nodeTaints (steered rule n)"
    "tv w' = (if e = None \<and> needs_action rule n then (tv w)(nodeName n := nodeTaints (steered rule n)) else tv w)"
    "e = None \<Longrightarrow> \<exists>t. rule' = evaluated rule n t"
proof -
  have status: "taintStatusOf m (taint_of rule) = (if wants_taint rule n then TaintStatusPresent else TaintStatusAbsent)"
    if "nodeTaints m = nodeTaints (steered rule n)" for m
    using steered_has[of rule n] hasTaintBySpec_cong[OF that] by (simp add: taintStatusOf_def)
  have "nodeName n' = nodeName n \<and> nodeTaints n' = nodeTaints (steered rule n) \<and>
    tv w' = (if e = None \<and> needs_action rule n then (tv w)(nodeName n := nodeTaints (steered rule n)) else tv w) \<and>
    (e = None \<longrightarrow> (\<exists>t. rule' = evaluated rule n t))"
  proof (cases "needs_action rule n")
    case False
    with run steered_idle con show ?thesis
      by (auto simp: evaluateRuleForNode_eq record_evaluation_eq evaluated_def status clock_keeps)
  next
    case True
    obtain r v where p: "patchNode env n (steered rule n) w = (r, v)" by (cases "patchNode env n (steered rule n) w")
    show ?thesis
    proof (cases r)
      case (Inl c)
      with run True p patch_fail[OF taints_contractD(2)[OF con] p[unfolded Inl]] show ?thesis
        by (auto simp: evaluateRuleForNode_eq)
    next
      case (Inr m)
      note ok = patch_ok(1,2)[OF taints_contractD(2)[OF con] p[unfolded Inr]]
        patch_ok(4)[OF taints_contractD(2)[OF con] p[unfolded Inr] steered_differs[OF True]]
      have m: "nodeName m = nodeName n" "nodeTaints m = nodeTaints (steered rule n)" using ok by simp_all
      have "tv v = (tv w)(nodeName n := nodeTaints (steered rule n))" using ok(3) by simp
      with m run True p Inr con show ?thesis
        by (auto simp: evaluateRuleForNode_eq record_evaluation_eq evaluated_def status clock_keeps after_patch_keeps)
    qed
  qed
  then show "nodeName n' = nodeName n" "nodeTaints n' = nodeTaints (steered rule n)"
    "tv w' = (if e = None \<and> needs_action rule n then (tv w)(nodeName n := nodeTaints (steered rule n)) else tv w)"
    "e = None \<Longrightarrow> \<exists>t. rule' = evaluated rule n t" by blast+
qed

lemma evaluateRuleForNode_contract:
  assumes con: "taints_contract env tv" and run: "evaluateRuleForNode env rule n w = (e, rule', n', w')"
    and cur: "tv w (nodeName n) = nodeTaints n"
  shows "nodeName n' = nodeName n" "nodeTaints n' = nodeTaints (steered rule n)"
    "e = None \<Longrightarrow> tv w' = (tv w)(nodeName n := nodeTaints (steered rule n))"
    "e \<noteq> None \<Longrightarrow> tv w' = tv w"
    "e = None \<Longrightarrow> \<exists>t. rule' = evaluated rule n t"
proof -
  note any = evaluateRuleForNode_any[OF con run]
  show "nodeName n' = nodeName n" "nodeTaints n' = nodeTaints (steered rule n)" "e = None \<Longrightarrow> \<exists>t. rule' = evaluated rule n t"
    by (fact any(1) any(2) any(4))+
  have "(tv w)(nodeName n := nodeTaints (steered rule n)) = tv w" if "\<not> needs_action rule n"
    using steered_idle[OF that] cur by (simp add: fun_eq_iff)
  with any(3) show "e = None \<Longrightarrow> tv w' = (tv w)(nodeName n := nodeTaints (steered rule n))" "e \<noteq> None \<Longrightarrow> tv w' = tv w"
    by (auto split: if_splits)
qed

text \<open>The node in hand keeps the conditions the server has.\<close>

lemma markAttempt_conditions:
  assumes "conditions_contract env cv"
  shows "cv (snd (markAttempt env name key w)) = cv w"
proof -
  obtain r v where g: "getNode env name w = (r, v)" by (cases "getNode env name w")
  have v: "cv v = cv w" by (rule keepsD[OF conditions_contractD(6)[OF assms] g])
  have "cv (snd (updateNode env m v)) = cv v" for m
    using conditions_contractD(8)[OF assms, of m] by (simp add: keeps_def)
  with g v show ?thesis by (cases r) (simp_all add: markAttempt_def Let_def)
qed

lemma after_patch_conditions:
  assumes "conditions_contract env cv"
  shows "cv (after_patch env rule n n' w) = cv w"
proof -
  have "cv (markBootstrapCompleted env k r v) = cv v" for k r v
    unfolding markBootstrapCompleted_def
    by (rule retry_invariant[where I = "\<lambda>u. cv u = cv v"])
      (simp_all add: conditions_contractD(1)[OF assms] markAttempt_conditions[OF assms])
  then show ?thesis by (simp add: after_patch_def)
qed

lemma evaluateRuleForNode_conditions:
  assumes con: "conditions_contract env cv" and run: "evaluateRuleForNode env rule n w = (e, rule', n', w')"
    and cur: "cv w (nodeName n) = nodeConditions n"
  shows "nodeConditions n' = nodeConditions n \<and> cv w' = cv w"
proof -
  have clock: "cv (snd (clockNow env u)) = cv u" for u
    using conditions_contractD(9)[OF con] by (simp add: keeps_def)
  obtain r v where p: "patchNode env n (steered rule n) w = (r, v)" by (cases "patchNode env n (steered rule n) w")
  have v: "cv v = cv w" by (rule keepsD[OF conditions_contractD(7)[OF con] p])
  have "nodeConditions m = nodeConditions n" if "r = Inr m" for m
    using conditions_contractD(3)[OF con] p that cur by simp
  with run p v clock after_patch_conditions[OF con] show ?thesis
    by (cases r) (auto simp: evaluateRuleForNode_eq record_evaluation_eq split: if_splits)
qed

lemma evaluated_find:
  "find_key evalNodeName j (nodeEvaluations (ruleStatus (evaluated rule n t))) =
   (if j = nodeName n then Some (mkEvaluation j (map (conditionResult n) (conditions (ruleSpec rule)),
      (if wants_taint rule n then TaintStatusPresent else TaintStatusAbsent), t))
    else find_key evalNodeName j (nodeEvaluations (ruleStatus rule)))"
  using evaluations.find_store[of j "nodeName n" "(map (conditionResult n) (conditions (ruleSpec rule)),
      (if wants_taint rule n then TaintStatusPresent else TaintStatusAbsent), t)"]
  by (simp add: evaluated_def)

subsection \<open>Evaluations that write no node\<close>

lemma evaluateRuleForNode_idle:
  assumes "\<not> needs_action rule n"
  shows "evaluateRuleForNode env rule n w = (None, evaluated rule n (fst (clockNow env w)), n, snd (clockNow env w))"
proof -
  have "taintStatusOf n (taint_of rule) = (if wants_taint rule n then TaintStatusPresent else TaintStatusAbsent)"
    using assms by (simp add: taintStatusOf_def needs_action_def)
  with assms show ?thesis by (simp add: evaluateRuleForNode_eq record_evaluation_eq evaluated_def)
qed

subsection \<open>Completion marks\<close>

lemma markAttempt_marks:
  assumes "annotations_contract env av" and "markAttempt env name key w = (None, w')"
  shows "\<exists>m. av w' name = Some (Some m) \<and> fmlookup m key \<noteq> None"
proof -
  note D = annotations_contractD[OF assms(1)]
  obtain r v where g: "getNode env name w = (r, v)" by (cases "getNode env name w")
  with assms(2) obtain n where n: "r = Inr n" by (cases r) (auto simp: markAttempt_def)
  have name: "nodeName n = name" "av w name = Some (nodeAnnotations n)" using D(2) g n by auto
  show ?thesis
  proof (cases "hasAnnotation n key")
    case True
    with assms(2) g n name keepsD[OF D(3) g] show ?thesis
      by (auto simp: markAttempt_def hasAnnotation_def split: option.splits)
  next
    case False
    with assms(2) g n have "updateNode env (n\<lparr>nodeAnnotations := Some (fmupd key ''true''
        (case nodeAnnotations n of None \<Rightarrow> fmempty | Some m \<Rightarrow> m))\<rparr>) v = (None, w')"
      by (simp add: markAttempt_def Let_def)
    from D(4)[OF this] name(1) show ?thesis by auto
  qed
qed

lemma markBootstrapCompleted_marks:
  assumes "annotations_contract env av"
    and "retryOnConflict env (markAttempt env name (bootstrapAnnotation rule)) w = (None, w')"
  shows "\<exists>m. av w' name = Some (Some m) \<and> fmlookup m (bootstrapAnnotation rule) \<noteq> None"
  by (rule retry_success[where I = "\<lambda>_. True", OF annotations_contractD(1)[OF assms(1)] assms(2)])
    (use markAttempt_marks[OF assms(1)] in auto)

lemma isBootstrapCompleted_marked:
  assumes "annotations_contract env av" and "av w name = Some (Some m)"
    and "fmlookup m (bootstrapAnnotation rule) \<noteq> None" and "getNode env name w = (Inr n, w1)"
  shows "isBootstrapCompleted env name rule w = (True, w1)"
proof -
  have "nodeAnnotations n = Some m" using annotations_contractD(2)[OF assms(1,4)] assms(2) by simp
  with assms(3,4) show ?thesis by (auto simp: isBootstrapCompleted_def hasAnnotation_def)
qed

text \<open>The completion mark of one rule is not touched by the evaluation of another.\<close>

definition marked :: "(string \<Rightarrow> string_map option option) \<Rightarrow> string \<Rightarrow> string \<Rightarrow> bool" where
  "marked a name rule \<longleftrightarrow> (\<exists>m. a name = Some (Some m) \<and> fmlookup m (bootstrapAnnotation rule) \<noteq> None)"

lemma markAttempt_unmarked:
  assumes "annotations_contract env av" and "\<not> marked (av w) j k" and "k \<noteq> rule"
  shows "\<not> marked (av (snd (markAttempt env name (bootstrapAnnotation rule) w))) j k"
proof -
  note D = annotations_contractD[OF assms(1)]
  have key: "bootstrapAnnotation k \<noteq> bootstrapAnnotation rule" using assms(3) by (simp add: bootstrapAnnotation_def)
  obtain r v where g: "getNode env name w = (r, v)" by (cases "getNode env name w")
  have v: "av v = av w" by (rule keepsD[OF D(3) g])
  show ?thesis
  proof (cases r)
    case (Inl e)
    with g v assms(2) show ?thesis by (simp add: markAttempt_def)
  next
    case (Inr n)
    note n = D(2)[OF g[unfolded Inr]]
    let ?m = "case nodeAnnotations n of None \<Rightarrow> fmempty | Some m \<Rightarrow> m"
    let ?n = "n\<lparr>nodeAnnotations := Some (fmupd (bootstrapAnnotation rule) ''true'' ?m)\<rparr>"
    obtain e u where up: "updateNode env ?n v = (e, u)" by (cases "updateNode env ?n v")
    have "\<not> marked (av u) j k"
    proof (cases e)
      case (Some x)
      with D(5) up v assms(2) show ?thesis by simp
    next
      case None
      with D(4) up v have "av u = (av w)(name := Some (Some (fmupd (bootstrapAnnotation rule) ''true'' ?m)))" using n by fastforce
      with n key assms(2) show ?thesis by (auto simp: marked_def split: option.splits)
    qed
    with g Inr v up assms(2) show ?thesis by (simp add: markAttempt_def Let_def)
  qed
qed

lemma evaluateRuleForNode_unmarked:
  assumes con: "marks_contract env av" and run: "evaluateRuleForNode env rule n w = (e, rule', n', w')"
    and "\<not> marked (av w) j k" and "k \<noteq> ruleName rule"
  shows "\<not> marked (av w') j k"
proof -
  note D = marks_contractD[OF con]
  have clock: "av (snd (clockNow env u)) = av u" for u using D(4) by (simp add: keeps_def)
  obtain r v where p: "patchNode env n (steered rule n) w = (r, v)" by (cases "patchNode env n (steered rule n) w")
  have v: "av v = av w" by (rule keepsD[OF D(5) p]) simp
  have "\<not> marked (av (markBootstrapCompleted env x (ruleName rule) u)) j k" if "\<not> marked (av u) j k" for x u
    unfolding markBootstrapCompleted_def
    by (rule retry_invariant[where I = "\<lambda>u. \<not> marked (av u) j k", OF annotations_contractD(1)[OF D(1)] that])
      (rule markAttempt_unmarked[OF D(1) _ assms(4)])
  then have "\<not> marked (av (after_patch env rule n m u)) j k" if "\<not> marked (av u) j k" for m u
    using that by (simp add: after_patch_def)
  with run p v clock assms(3) show ?thesis
    by (cases r) (auto simp: evaluateRuleForNode_eq record_evaluation_eq split: if_splits)
qed

lemma isBootstrapCompleted_unmarked:
  assumes "annotations_contract env av" and "\<not> marked (av w) name rule"
    and "isBootstrapCompleted env name rule w = (b, w')"
  shows "\<not> b"
  using assms annotations_contractD(2)[OF assms(1), of name w]
  by (auto simp: isBootstrapCompleted_def marked_def hasAnnotation_def split: prod.splits sum.splits option.splits)

subsection \<open>Properties\<close>

text \<open>
  The evaluation of a rule's conditions on a node is the conjunction of all of them, without
  short-circuit: the node is ready exactly when every required type has the required status on it, and
  there is one result per requirement, in order, with the observed status, whether it matches, and
  whether it is \<open>Unknown\<close>.
\<close>

lemma evaluateConditions_all:
  "evaluateConditions n cs True [] =
     (list_all (\<lambda>c. getConditionStatus n (reqType c) = requiredStatus c) cs,
      map (\<lambda>c. \<lparr>resType = reqType c, resCurrentStatus = getConditionStatus n (reqType c),
         resRequiredStatus = requiredStatus c,
         resSatisfied = (getConditionStatus n (reqType c) = requiredStatus c),
         resMissing = (getConditionStatus n (reqType c) = ConditionUnknown)\<rparr>) cs)"
  by (simp add: evaluateConditions_eq satisfiedBy_def conditionResult_def list_all_iff)

text \<open>
  C1: An evaluation that returns no error leaves the rule's taint on the server's node exactly when
  some required condition is not met; the node's other taints and every other node stay as they were;
  and the rule's status holds, under the node's name, the condition results and the taint status that
  is then true.
\<close>

theorem evaluateRuleForNode_converges:
  assumes "taints_contract env tv" and "tv w (nodeName n) = nodeTaints n"
    and "evaluateRuleForNode env rule n w = (None, rule', n', w')"
  shows "(hasTaintIn (tv w' (nodeName n)) (taint_of rule) \<longleftrightarrow>
       \<not> list_all (\<lambda>c. getConditionStatus n (reqType c) = requiredStatus c) (conditions (ruleSpec rule))) \<and>
    other_taints (taint_of rule) (tv w' (nodeName n)) = other_taints (taint_of rule) (nodeTaints n) \<and>
    (tv w')(nodeName n := []) = (tv w)(nodeName n := []) \<and>
    (\<exists>t. find_key evalNodeName (nodeName n) (nodeEvaluations (ruleStatus rule')) =
      Some \<lparr>evalNodeName = nodeName n,
        conditionResults = map (conditionResult n) (conditions (ruleSpec rule)),
        taintStatus = (if hasTaintIn (tv w' (nodeName n)) (taint_of rule) then ''Present'' else ''Absent''),
        evalLastEvaluationTime = t\<rparr>)"
proof (intro conjI)
  note c = evaluateRuleForNode_contract[OF assms(1,3,2)]
  have tv: "tv w' = (tv w)(nodeName n := nodeTaints (steered rule n))" by (rule c(3)) simp
  have wants: "hasTaintIn (tv w' (nodeName n)) (taint_of rule) \<longleftrightarrow> wants_taint rule n"
    using steered_has[of rule n] by (simp add: tv hasTaintBySpec_def)
  then show "hasTaintIn (tv w' (nodeName n)) (taint_of rule) \<longleftrightarrow>
      \<not> list_all (\<lambda>c. getConditionStatus n (reqType c) = requiredStatus c) (conditions (ruleSpec rule))"
    by (simp add: wants_taint_def ready_def list_all_iff satisfiedBy_def)
  show "other_taints (taint_of rule) (tv w' (nodeName n)) = other_taints (taint_of rule) (nodeTaints n)"
    by (simp add: tv steered_others)
  show "(tv w')(nodeName n := []) = (tv w)(nodeName n := [])" by (simp add: tv)
  obtain t where "rule' = evaluated rule n t" using c(5) by blast
  then show "\<exists>t. find_key evalNodeName (nodeName n) (nodeEvaluations (ruleStatus rule')) =
      Some \<lparr>evalNodeName = nodeName n,
        conditionResults = map (conditionResult n) (conditions (ruleSpec rule)),
        taintStatus = (if hasTaintIn (tv w' (nodeName n)) (taint_of rule) then ''Present'' else ''Absent''),
        evalLastEvaluationTime = t\<rparr>"
    unfolding wants by (auto simp: evaluated_find mkEvaluation_def TaintStatusPresent_def TaintStatusAbsent_def)
qed

text \<open>The equations that evaluate a closed call on the in-memory server.\<close>

lemmas evaluation_eval = evaluateRuleForNode_eq needs_action_def wants_taint_def ready_def satisfiedBy_def
  getConditionStatus_def hasTaintBySpec_def record_evaluation_eq steered_cases appendTaint_def dropTaint_def
  actionError_def after_patch_def conditionResult_def taintStatusOf_def other_taints_def
  markBootstrapCompleted_def markAttempt_def hasAnnotation_def bootstrapAnnotation_def Let_def

theorem evaluateRuleForNode_converges_witness:
  "\<exists>rule' n' s'. evaluateRuleForNode mem_env (net_rule ''continuous'' False) (worker ''w1'' ''False'' [disk_taint])
       (server_of [worker ''w1'' ''False'' [disk_taint]] [] []) = (None, rule', n', s') \<and>
     hasTaintIn (server_taints s' ''w1'') net_taint"
proof -
  let ?n = "worker ''w1'' ''False'' [disk_taint]" and ?r = "net_rule ''continuous'' False"
  let ?s = "server_of [?n] [] []"
  obtain r n' s' where run: "evaluateRuleForNode mem_env ?r ?n ?s = (None, r, n', s')"
    by (simp add: evaluation_eval sample_defs server_defs)
  have cur: "server_taints ?s (nodeName ?n) = nodeTaints ?n" by (simp add: server_taints_def sample_defs)
  have "hasTaintIn (server_taints s' (nodeName ?n)) (taint_of ?r)"
    using evaluateRuleForNode_converges[OF mem_taints_contract cur run]
    by (simp add: getConditionStatus_def sample_defs)
  with run show ?thesis by (simp add: sample_defs)
qed

text \<open>
  When the patch fails, nothing changes on the server and nothing in the rule, and the error is the
  patch's behind the text of the action that was tried; but the node in memory already carries the
  change, so a caller that goes on with it sees the taint as the rule wants it.
\<close>

lemma evaluateRuleForNode_failure:
  assumes "taints_contract env tv" and "tv w (nodeName n) = nodeTaints n"
    and "evaluateRuleForNode env rule n w = (Some e, rule', n', w')"
  shows "tv w' = tv w \<and> rule' = rule \<and>
    (\<exists>cause. e = Wrapped (if hasTaintBySpec n (taint_of rule) then ''failed to remove taint''
       else ''failed to add taint'') cause) \<and>
    (hasTaintBySpec n' (taint_of rule) \<longleftrightarrow> \<not> hasTaintBySpec n (taint_of rule)) \<and>
    (hasTaintIn (tv w' (nodeName n)) (taint_of rule) \<longleftrightarrow> hasTaintBySpec n (taint_of rule))"
proof -
  have "needs_action rule n" "rule' = rule" "n' = steered rule n" "\<exists>cause. e = actionError rule n cause"
    using evaluateRuleForNode_error[OF assms(3)] by auto
  moreover have "tv w' = tv w" using evaluateRuleForNode_contract(4)[OF assms(1,3,2)] by simp
  ultimately show ?thesis
    using steered_has[of rule n] assms(2)
    by (auto simp: needs_action_def wants_taint_def actionError_def hasTaintBySpec_def)
qed

lemma evaluateRuleForNode_failure_witness:
  "\<exists>e rule' n' s'. evaluateRuleForNode mem_env (net_rule ''continuous'' False) (worker ''w1'' ''False'' [])
       (server_of [worker ''w1'' ''False'' []] [] [Some denied]) = (Some e, rule', n', s') \<and>
     hasTaintBySpec n' net_taint \<and> \<not> hasTaintIn (server_taints s' ''w1'') net_taint"
proof -
  let ?n = "worker ''w1'' ''False'' []" and ?r = "net_rule ''continuous'' False"
  let ?s = "server_of [?n] [] [Some denied]"
  obtain e r n' s' where run: "evaluateRuleForNode mem_env ?r ?n ?s = (Some e, r, n', s')"
    by (simp add: evaluation_eval sample_defs server_defs)
  have cur: "server_taints ?s (nodeName ?n) = nodeTaints ?n" by (simp add: server_taints_def sample_defs)
  have ids: "\<not> hasTaintBySpec ?n net_taint" "taint_of ?r = net_taint" "nodeName ?n = ''w1''"
    by (simp_all add: hasTaintBySpec_def worker_def net_rule_def net_spec_def)
  have "hasTaintBySpec n' net_taint \<and> \<not> hasTaintIn (server_taints s' ''w1'') net_taint"
    using evaluateRuleForNode_failure[OF mem_taints_contract cur run] unfolding ids using ids(1) by blast
  with run show ?thesis by blast
qed

text \<open>
  An evaluation is stable: after one that returned no error, evaluating the same rule and node again
  finds nothing to do, reads the clock, makes no other call, and only renews the entry's time.
\<close>

lemma evaluateRuleForNode_stable:
  assumes "taints_contract env tv" and "tv w (nodeName n) = nodeTaints n"
    and "evaluateRuleForNode env rule n w = (None, rule', n', w')"
    and "conditions_contract env cv" and "cv w (nodeName n) = nodeConditions n"
  shows "evaluateRuleForNode env2 rule' n' w2 =
    (None, evaluated rule' n' (fst (clockNow env2 w2)), n', snd (clockNow env2 w2))"
proof (rule evaluateRuleForNode_idle)
  note c = evaluateRuleForNode_contract[OF assms(1,3,2)]
  have spec: "ruleSpec rule' = ruleSpec rule" using evaluateRuleForNode_same_rule[OF assms(3)] by (simp add: same_rule_def)
  have "hasTaintBySpec n' (taint_of rule) \<longleftrightarrow> wants_taint rule n"
    using steered_has[of rule n] hasTaintBySpec_cong[OF c(2)] by simp
  moreover have "wants_taint rule' n' = wants_taint rule n"
    using ready_cong[OF conjunct1[OF evaluateRuleForNode_conditions[OF assms(4,3,5)]], of rule] by (simp add: wants_taint_def ready_def spec)
  ultimately show "\<not> needs_action rule' n'" by (simp add: needs_action_def spec)
qed

lemma evaluateRuleForNode_stable_witness:
  "\<exists>rule' n' s'. evaluateRuleForNode mem_env (net_rule ''continuous'' False) (worker ''w1'' ''False'' [])
       (server_of [worker ''w1'' ''False'' []] [] []) = (None, rule', n', s') \<and>
     srvNodes (snd (snd (snd (evaluateRuleForNode mem_env rule' n' s')))) = srvNodes s'"
proof -
  let ?n = "worker ''w1'' ''False'' []" and ?r = "net_rule ''continuous'' False"
  let ?s = "server_of [?n] [] []"
  obtain r n' s' where run: "evaluateRuleForNode mem_env ?r ?n ?s = (None, r, n', s')"
    by (simp add: evaluation_eval sample_defs server_defs)
  have cur: "server_taints ?s (nodeName ?n) = nodeTaints ?n" by (simp add: server_taints_def sample_defs)
  have "server_conditions ?s (nodeName ?n) = nodeConditions ?n" by (simp add: server_conditions_def sample_defs)
  from evaluateRuleForNode_stable[where tv = server_taints and cv = server_conditions and ?env2.0 = mem_env and ?w2.0 = s',
      OF mem_taints_contract cur run mem_conditions_contract this] run show ?thesis
    by (auto simp: mem_env_simps)
qed

text \<open>
  C31: A completion mark sticks: when the update under \<open>RetryOnConflict\<close> returns no error, the node
  carries the rule's annotation, and a later \<open>isBootstrapCompleted\<close> answers true as long as nobody
  removes it and the node can be read.
\<close>

theorem bootstrap_mark_sticks:
  assumes "annotations_contract env av"
    and "retryOnConflict env (markAttempt env name (bootstrapAnnotation rule)) w = (None, w1)"
    and "av w2 name = av w1 name" and "getNode env name w2 = (Inr n, w3)"
  shows "isBootstrapCompleted env name rule w2 = (True, w3)"
  using markBootstrapCompleted_marks[OF assms(1,2)] assms(3) isBootstrapCompleted_marked[OF assms(1) _ _ assms(4)]
  by metis

theorem bootstrap_mark_sticks_witness:
  "\<exists>s1. retryOnConflict mem_env (markAttempt mem_env ''w1'' (bootstrapAnnotation ''net''))
       (server_of [worker ''w1'' ''True'' []] [] []) = (None, s1) \<and>
     isBootstrapCompleted mem_env ''w1'' ''net'' s1 = (True, s1)"
proof -
  let ?s = "server_of [worker ''w1'' ''True'' []] [] []"
  obtain s1 n where run: "retryOnConflict mem_env (markAttempt mem_env ''w1'' (bootstrapAnnotation ''net'')) ?s = (None, s1)"
    and n: "getNode mem_env ''w1'' s1 = (Inr n, s1)"
    by (simp add: evaluation_eval sample_defs server_defs)
  from bootstrap_mark_sticks[OF mem_annotations_contract run refl n] run show ?thesis by blast
qed

end
