(* ===== verification/Dry_Run.thy ===== *)
theory Dry_Run
  imports Evaluation
begin

text \<open>
  Which nodes a rule applies to (\<open>ruleAppliesTo\<close>) and the dry run (\<open>processDryRun\<close>), both of
  \<open>internal/controller/nodereadinessrule_controller.go\<close>. The dry run counts in \<open>int32\<close>
  variables what an evaluation would do to each node; the counters wrap around, so they are exact
  below \<open>2 ^ 31\<close> nodes.
\<close>

subsection \<open>ruleAppliesTo\<close>

definition ruleAppliesTo :: "'w env \<Rightarrow> nodeReadinessRule \<Rightarrow> node \<Rightarrow> bool" where
  "ruleAppliesTo env rule n =
     (case labelSelectorAsSelector env (nodeSelector (ruleSpec rule)) of
        Inl e \<Rightarrow> False
      | Inr selector \<Rightarrow> selMatches selector (nodeLabels n))"

lemma ruleAppliesTo_cong:
  "ruleSpec r = ruleSpec r' \<Longrightarrow> nodeLabels n = nodeLabels n' \<Longrightarrow> ruleAppliesTo env r n = ruleAppliesTo env r' n'"
  by (simp add: ruleAppliesTo_def split: sum.split)

subsection \<open>processDryRun\<close>

text \<open>The inner loop: all conditions satisfied, and how many are missing.\<close>

fun simulateConditions :: "node \<Rightarrow> conditionRequirement list \<Rightarrow> bool \<Rightarrow> int64 \<Rightarrow> bool \<times> int64" where
  "simulateConditions n [] allSatisfied missing = (allSatisfied, missing)"
| "simulateConditions n (c # cs) allSatisfied missing =
     (let currentStatus = getConditionStatus n (reqType c)
      in simulateConditions n cs
           (if currentStatus \<noteq> requiredStatus c then False else allSatisfied)
           (if currentStatus = ConditionUnknown then missing + 1 else missing))"

record dryRunCounters =
  cAffected :: int32
  cAdd :: int32
  cRemove :: int32
  cRisky :: int32

definition simulateNode :: "nodeReadinessRule \<Rightarrow> node \<Rightarrow> dryRunCounters \<Rightarrow> dryRunCounters" where
  "simulateNode rule n c =
     (let c1 = c\<lparr>cAffected := cAffected c + 1\<rparr>;
          (allConditionsSatisfied, missing) = simulateConditions n (conditions (ruleSpec rule)) True 0;
          shouldRemoveTaint = allConditionsSatisfied;
          currentlyHasTaint = hasTaintBySpec n (ruleTaint (ruleSpec rule));
          c2 = (if shouldRemoveTaint \<and> currentlyHasTaint then c1\<lparr>cRemove := cRemove c1 + 1\<rparr>
                else if \<not> shouldRemoveTaint \<and> \<not> currentlyHasTaint then c1\<lparr>cAdd := cAdd c1 + 1\<rparr>
                else c1)
      in if 0 <s missing then c2\<lparr>cRisky := cRisky c2 + 1\<rparr> else c2)"

fun dryRunLoop :: "'w env \<Rightarrow> nodeReadinessRule \<Rightarrow> node list \<Rightarrow> dryRunCounters \<Rightarrow> dryRunCounters" where
  "dryRunLoop env rule [] c = c"
| "dryRunLoop env rule (n # ns) c =
     (if \<not> ruleAppliesTo env rule n then dryRunLoop env rule ns c
      else dryRunLoop env rule ns (simulateNode rule n c))"

definition dryRunSummary :: "dryRunCounters \<Rightarrow> string" where
  "dryRunSummary c =
     (let p1 = (if 0 <s cAdd c then [''would add '' @ sprint_int (sint (cAdd c)) @ '' taints''] else []);
          p2 = (if 0 <s cRemove c then p1 @ [''would remove '' @ sprint_int (sint (cRemove c)) @ '' taints''] else p1);
          p3 = (if 0 <s cRisky c then p2 @ [sprint_int (sint (cRisky c)) @ '' nodes have missing conditions''] else p2)
      in if 0 < length p3 then strings_Join p3 '', '' else ''No changes needed'')"

definition zeroCounters :: dryRunCounters where
  "zeroCounters = \<lparr>cAffected = 0, cAdd = 0, cRemove = 0, cRisky = 0\<rparr>"

definition processDryRun :: "'w env \<Rightarrow> nodeReadinessRule \<Rightarrow> 'w \<Rightarrow> goError option \<times> nodeReadinessRule \<times> 'w" where
  "processDryRun env rule w =
     (case listNodes env w of
        (Inl e, w') \<Rightarrow> (Some e, rule, w')
      | (Inr nodes, w') \<Rightarrow>
          let c = dryRunLoop env rule nodes zeroCounters
          in (None, rule\<lparr>ruleStatus := (ruleStatus rule)\<lparr>dryRunOutcome :=
                \<lparr>affectedNodes = Some (cAffected c), taintsToAdd = Some (cAdd c),
                 taintsToRemove = Some (cRemove c), riskyOperations = Some (cRisky c),
                 summary = dryRunSummary c\<rparr>\<rparr>\<rparr>, w'))"

subsection \<open>Exact counts\<close>

text \<open>What the counters stand for: how many of the nodes the rule applies to have a property.\<close>

definition would_add :: "nodeReadinessRule \<Rightarrow> node \<Rightarrow> bool" where
  "would_add rule n \<longleftrightarrow> needs_action rule n \<and> wants_taint rule n"

definition would_remove :: "nodeReadinessRule \<Rightarrow> node \<Rightarrow> bool" where
  "would_remove rule n \<longleftrightarrow> needs_action rule n \<and> \<not> wants_taint rule n"

definition risky :: "nodeReadinessRule \<Rightarrow> node \<Rightarrow> bool" where
  "risky rule n \<longleftrightarrow> (\<exists>c \<in> set (conditions (ruleSpec rule)). getConditionStatus n (reqType c) = ConditionUnknown)"

definition count_applied :: "'w env \<Rightarrow> nodeReadinessRule \<Rightarrow> (node \<Rightarrow> bool) \<Rightarrow> node list \<Rightarrow> nat" where
  "count_applied env rule P ns = length (filter (\<lambda>n. ruleAppliesTo env rule n \<and> P n) ns)"

definition missing_conditions :: "node \<Rightarrow> conditionRequirement list \<Rightarrow> nat" where
  "missing_conditions n cs = length (filter (\<lambda>c. getConditionStatus n (reqType c) = ConditionUnknown) cs)"

lemma simulateConditions_eq:
  "simulateConditions n cs b m = (b \<and> list_all (satisfiedBy n) cs, m + of_nat (missing_conditions n cs))"
  by (induction cs arbitrary: b m) (auto simp: Let_def satisfiedBy_def missing_conditions_def)

lemma int64_pos_iff:
  assumes "k < 2 ^ 63"
  shows "0 <s (of_nat k :: int64) \<longleftrightarrow> 0 < k"
proof -
  have "signed_take_bit 63 (int k) = int k"
    by (rule signed_take_bit_int_eq_self) (use assms in auto)
  then show ?thesis by (simp add: word_sless_alt signed_of_nat)
qed

lemma missing_conditions_pos: "0 < missing_conditions n (conditions (ruleSpec rule)) \<longleftrightarrow> risky rule n"
  by (auto simp: missing_conditions_def risky_def filter_empty_conv)

lemma simulateNode_eq:
  assumes "length (conditions (ruleSpec rule)) < 2 ^ 63"
  shows "simulateNode rule n c =
    \<lparr>cAffected = cAffected c + 1,
     cAdd = cAdd c + of_bool (would_add rule n),
     cRemove = cRemove c + of_bool (would_remove rule n),
     cRisky = cRisky c + of_bool (risky rule n)\<rparr>"
proof -
  have "missing_conditions n (conditions (ruleSpec rule)) < 2 ^ 63"
    using assms le_less_trans length_filter_le unfolding missing_conditions_def by blast
  then have r: "0 <s (of_nat (missing_conditions n (conditions (ruleSpec rule))) :: int64) \<longleftrightarrow> risky rule n"
    by (simp add: int64_pos_iff missing_conditions_pos)
  show ?thesis
    by (cases c) (auto simp: simulateNode_def simulateConditions_eq r would_add_def would_remove_def
        needs_action_def wants_taint_def ready_def Let_def)
qed

definition counts :: "'w env \<Rightarrow> nodeReadinessRule \<Rightarrow> node list \<Rightarrow> dryRunCounters" where
  "counts env rule ns =
     \<lparr>cAffected = of_nat (count_applied env rule (\<lambda>_. True) ns),
      cAdd = of_nat (count_applied env rule (would_add rule) ns),
      cRemove = of_nat (count_applied env rule (would_remove rule) ns),
      cRisky = of_nat (count_applied env rule (risky rule) ns)\<rparr>"

lemma dryRunLoop_eq:
  assumes "length (conditions (ruleSpec rule)) < 2 ^ 63"
  shows "dryRunLoop env rule ns c =
    \<lparr>cAffected = cAffected c + cAffected (counts env rule ns), cAdd = cAdd c + cAdd (counts env rule ns),
     cRemove = cRemove c + cRemove (counts env rule ns), cRisky = cRisky c + cRisky (counts env rule ns)\<rparr>"
proof (induction ns arbitrary: c)
  case Nil
  then show ?case by (simp add: counts_def count_applied_def)
next
  case (Cons n ns)
  then show ?case
    by (auto simp: simulateNode_eq[OF assms] counts_def count_applied_def algebra_simps)
qed

lemma dryRunLoop_counts:
  assumes "length (conditions (ruleSpec rule)) < 2 ^ 63"
  shows "dryRunLoop env rule ns zeroCounters = counts env rule ns"
  by (simp add: dryRunLoop_eq[OF assms] zeroCounters_def counts_def)

lemma count_applied_le: "count_applied env rule P ns \<le> length ns"
  by (simp add: count_applied_def)

lemma count_exact:
  assumes "length ns < 2 ^ 31"
  shows "sint (of_nat (count_applied env rule P ns) :: int32) = int (count_applied env rule P ns)"
proof -
  have "unat (of_nat (count_applied env rule P ns) :: int32) = count_applied env rule P ns"
    by (rule unat_of_nat_int32) (use assms count_applied_le le_less_trans in blast)
  moreover have "count_applied env rule P ns < 2 ^ 31"
    using assms count_applied_le le_less_trans by blast
  ultimately show ?thesis using int32_small_sint by metis
qed

lemma processDryRun_ok:
  assumes "length (conditions (ruleSpec rule)) < 2 ^ 63" and "listNodes env w = (Inr ns, w')"
  shows "processDryRun env rule w = (None, rule\<lparr>ruleStatus := (ruleStatus rule)\<lparr>dryRunOutcome :=
    \<lparr>affectedNodes = Some (cAffected (counts env rule ns)), taintsToAdd = Some (cAdd (counts env rule ns)),
     taintsToRemove = Some (cRemove (counts env rule ns)), riskyOperations = Some (cRisky (counts env rule ns)),
     summary = dryRunSummary (counts env rule ns)\<rparr>\<rparr>\<rparr>, w')"
  using assms by (simp add: processDryRun_def dryRunLoop_counts Let_def)

lemma processDryRun_world: "snd (snd (processDryRun env rule w)) = snd (listNodes env w)"
  by (simp add: processDryRun_def Let_def split: prod.split sum.split)

lemma processDryRun_same_rule: "processDryRun env rule w = (e, rule', w') \<Longrightarrow> same_rule rule rule'"
  by (auto simp: processDryRun_def Let_def split: prod.splits sum.splits)

subsection \<open>Properties\<close>

text \<open>
  C25: The counts of a dry run are exact below \<open>2 ^ 31\<close> nodes: of the listed nodes the rule applies to,
  it reports how many there are, how many lack the taint and fail a condition, how many carry it and
  meet all conditions, and how many have a condition that is \<open>Unknown\<close>. It changes nothing else in the
  rule and does nothing but list the nodes.
\<close>

theorem dry_run_counts:
  assumes "length (conditions (ruleSpec rule)) < 2 ^ 63" and "length ns < 2 ^ 31"
    and "listNodes env w = (Inr ns, w')"
  shows "\<exists>affected add remove missing text.
    processDryRun env rule w = (None, rule\<lparr>ruleStatus := (ruleStatus rule)\<lparr>dryRunOutcome :=
      \<lparr>affectedNodes = Some affected, taintsToAdd = Some add, taintsToRemove = Some remove,
       riskyOperations = Some missing, summary = text\<rparr>\<rparr>\<rparr>, w') \<and>
    sint affected = int (length (filter (ruleAppliesTo env rule) ns)) \<and>
    sint add = int (length (filter (\<lambda>n. ruleAppliesTo env rule n \<and> \<not> hasTaintBySpec n (taint_of rule) \<and>
      \<not> list_all (\<lambda>c. getConditionStatus n (reqType c) = requiredStatus c) (conditions (ruleSpec rule))) ns)) \<and>
    sint remove = int (length (filter (\<lambda>n. ruleAppliesTo env rule n \<and> hasTaintBySpec n (taint_of rule) \<and>
      list_all (\<lambda>c. getConditionStatus n (reqType c) = requiredStatus c) (conditions (ruleSpec rule))) ns)) \<and>
    sint missing = int (length (filter (\<lambda>n. ruleAppliesTo env rule n \<and>
      list_ex (\<lambda>c. getConditionStatus n (reqType c) = ''Unknown'') (conditions (ruleSpec rule))) ns))"
proof -
  note run = processDryRun_ok[OF assms(1,3)]
  have ready: "ready rule n \<longleftrightarrow>
      list_all (\<lambda>c. getConditionStatus n (reqType c) = requiredStatus c) (conditions (ruleSpec rule))" for n
    by (simp add: ready_def satisfiedBy_def[abs_def])
  have add: "would_add rule n \<longleftrightarrow> \<not> hasTaintBySpec n (taint_of rule) \<and> \<not> ready rule n" for n
    by (auto simp: would_add_def needs_action_def wants_taint_def)
  have remove: "would_remove rule n \<longleftrightarrow> hasTaintBySpec n (taint_of rule) \<and> ready rule n" for n
    by (auto simp: would_remove_def needs_action_def wants_taint_def)
  have risk: "risky rule n \<longleftrightarrow> list_ex (\<lambda>c. getConditionStatus n (reqType c) = ''Unknown'') (conditions (ruleSpec rule))" for n
    by (simp add: risky_def list_ex_iff ConditionUnknown_def)
  note exact = count_exact[OF assms(2), of env rule]
  show ?thesis
    by (intro exI conjI, rule run)
      (simp_all add: counts_def exact, simp_all add: count_applied_def add remove risk ready)
qed

theorem dry_run_counts_witness:
  "\<exists>rule' affected add. processDryRun mem_env (net_rule ''continuous'' True)
      (server_of [worker ''w1'' ''False'' [], worker ''w2'' ''True'' []] [] []) =
        (None, rule', server_of [worker ''w1'' ''False'' [], worker ''w2'' ''True'' []] [] []) \<and>
     affectedNodes (dryRunOutcome (ruleStatus rule')) = Some affected \<and> sint affected = 2 \<and>
     taintsToAdd (dryRunOutcome (ruleStatus rule')) = Some add \<and> sint add = 1"
proof -
  let ?r = "net_rule ''continuous'' True"
  let ?ns = "[worker ''w1'' ''False'' [], worker ''w2'' ''True'' []]"
  let ?s = "server_of ?ns [] []"
  have len: "length (conditions (ruleSpec ?r)) < 2 ^ 63" "length ?ns < 2 ^ 31" by (simp_all add: sample_defs)
  have list: "listNodes mem_env ?s = (Inr ?ns, ?s)" by (simp add: server_of_def worker_def server_defs)
  have applies: "ruleAppliesTo mem_env ?r (worker k st ts)" for k st ts
    by (simp add: ruleAppliesTo_def sample_defs server_defs Let_def)
  have status: "getConditionStatus (worker k st ts) ''CalicoReady'' = st" for k st ts
    by (simp add: getConditionStatus_def worker_def net_condition_def)
  have conds: "conditions (ruleSpec ?r) = [\<lparr>reqType = ''CalicoReady'', requiredStatus = ''True''\<rparr>]"
    by (simp add: net_rule_def net_spec_def)
  have clean: "\<not> hasTaintBySpec (worker k st []) t" for k st t by (simp add: hasTaintBySpec_def worker_def)
  show ?thesis
    using dry_run_counts[OF len list] by (auto simp: applies status conds clean)
qed

text \<open>
  A dry run says \<open>No changes needed\<close> exactly when it counted no taint to add, none to remove and no
  node with missing conditions.
\<close>

lemma dry_run_summary_none:
  assumes "unat (cAdd c) < 2 ^ 31" and "unat (cRemove c) < 2 ^ 31" and "unat (cRisky c) < 2 ^ 31"
  shows "dryRunSummary c = ''No changes needed'' \<longleftrightarrow> cAdd c = 0 \<and> cRemove c = 0 \<and> cRisky c = 0"
proof -
  have zero: "(0 <s x) = (x \<noteq> 0)" if "unat x < 2 ^ 31" for x :: int32
    unfolding int32_pos_iff[OF that] by (simp add: unat_gt_0)
  have "sprint_int i @ rest \<noteq> ''No changes needed''" for i rest
    using sprint_int_head[of i] by (cases "sprint_int i") auto
  then show ?thesis
    unfolding dryRunSummary_def Let_def zero[OF assms(1)] zero[OF assms(2)] zero[OF assms(3)]
    by (auto simp: strings_Join_Cons)
qed

lemma dry_run_summary_none_witness:
  "dryRunSummary \<lparr>cAffected = 5, cAdd = 0, cRemove = 0, cRisky = 0\<rparr> = ''No changes needed'' \<and>
   dryRunSummary \<lparr>cAffected = 5, cAdd = 0, cRemove = 1, cRisky = 0\<rparr> \<noteq> ''No changes needed''"
  using dry_run_summary_none[of "\<lparr>cAffected = 5, cAdd = 0, cRemove = 0, cRisky = 0\<rparr>"]
    dry_run_summary_none[of "\<lparr>cAffected = 5, cAdd = 0, cRemove = 1, cRisky = 0\<rparr>"] by simp

end
