(* ===== verification/Rule_Cache.thy ===== *)
theory Rule_Cache
  imports Dry_Run
begin

text \<open>
  The state of the controller and its cache of rules (\<open>ReadinessGateController\<close>,
  \<open>updateRuleCache\<close>, \<open>getCachedRule\<close>, \<open>removeRuleFromCache\<close>,
  \<open>getApplicableRulesForNode\<close>, \<open>SetGlobalDryRun\<close>), and the finalizer helpers
  (\<open>containsFinalizer\<close>, \<open>addFinalizer\<close>, \<open>removeFinalizer\<close>) of
  \<open>internal/controller/nodereadinessrule_controller.go\<close>. Each cache operation runs under the
  controller's mutex, so it is one step. The cache stores deep copies: values in the model.
\<close>

subsection \<open>State\<close>

record controller =
  ruleCache :: "(string, nodeReadinessRule) fmap"
  globalDryRun :: bool

definition newReadinessGateController :: controller where
  "newReadinessGateController = \<lparr>ruleCache = fmempty, globalDryRun = False\<rparr>"

definition updateRuleCache :: "controller \<Rightarrow> nodeReadinessRule \<Rightarrow> controller" where
  "updateRuleCache c rule = c\<lparr>ruleCache := fmupd (ruleName rule) rule (ruleCache c)\<rparr>"

definition getCachedRule :: "controller \<Rightarrow> string \<Rightarrow> nodeReadinessRule option" where
  "getCachedRule c name = fmlookup (ruleCache c) name"

definition removeRuleFromCache :: "controller \<Rightarrow> string \<Rightarrow> controller" where
  "removeRuleFromCache c name = c\<lparr>ruleCache := fmdrop name (ruleCache c)\<rparr>"

definition setGlobalDryRun :: "controller \<Rightarrow> bool \<Rightarrow> controller" where
  "setGlobalDryRun c b = c\<lparr>globalDryRun := b\<rparr>"

text \<open>
  The code returns pointers to the cache entries, collected by a range loop over the map. Go leaves
  the order of such a loop open, so it is an argument: an enumeration of the keys. A pointer to an
  entry is represented by the entry's key.
\<close>

definition range_order :: "('k, 'v) fmap \<Rightarrow> 'k list \<Rightarrow> bool" where
  "range_order m ks \<longleftrightarrow> distinct ks \<and> set ks = fset (fmdom m)"

fun getApplicableRulesForNode :: "'w env \<Rightarrow> controller \<Rightarrow> node \<Rightarrow> string list \<Rightarrow> string list" where
  "getApplicableRulesForNode env c n [] = []"
| "getApplicableRulesForNode env c n (k # ks) =
     (case fmlookup (ruleCache c) k of
        None \<Rightarrow> getApplicableRulesForNode env c n ks
      | Some rule \<Rightarrow> if ruleAppliesTo env rule n then k # getApplicableRulesForNode env c n ks
                     else getApplicableRulesForNode env c n ks)"

subsection \<open>Finalizers\<close>

definition finalizerName :: string where
  "finalizerName = ''readiness.node.x-k8s.io/cleanup-taints''"

fun containsIn :: "string list \<Rightarrow> string \<Rightarrow> bool" where
  "containsIn [] finalizer = False"
| "containsIn (f # fs) finalizer = (if f = finalizer then True else containsIn fs finalizer)"

definition containsFinalizer :: "nodeReadinessRule \<Rightarrow> string \<Rightarrow> bool" where
  "containsFinalizer rule finalizer = containsIn (finalizers rule) finalizer"

definition addFinalizer :: "nodeReadinessRule \<Rightarrow> string \<Rightarrow> nodeReadinessRule" where
  "addFinalizer rule finalizer =
     (if \<not> containsFinalizer rule finalizer
      then rule\<lparr>finalizers := finalizers rule @ [finalizer]\<rparr> else rule)"

definition removeFinalizer :: "nodeReadinessRule \<Rightarrow> string \<Rightarrow> nodeReadinessRule" where
  "removeFinalizer rule finalizer =
     rule\<lparr>finalizers := filter (\<lambda>f. f \<noteq> finalizer) (finalizers rule)\<rparr>"

lemma containsIn_iff: "containsIn fs f \<longleftrightarrow> f \<in> set fs"
  by (induction fs) auto

lemma containsFinalizer_iff: "containsFinalizer rule f \<longleftrightarrow> f \<in> set (finalizers rule)"
  by (simp add: containsFinalizer_def containsIn_iff)

interpretation rule_finalizers: presence_store containsFinalizer addFinalizer removeFinalizer
  "\<lambda>f rule. (filter (\<lambda>g. g \<noteq> f) (finalizers rule), rule\<lparr>finalizers := []\<rparr>)"
proof unfold_locales
  fix rule f assume "\<not> containsFinalizer rule f"
  then have "filter (\<lambda>g. g \<noteq> f) (finalizers rule) = finalizers rule"
    by (auto simp: containsFinalizer_iff filter_id_conv)
  then show "removeFinalizer rule f = rule" by (simp add: removeFinalizer_def)
qed (auto simp: addFinalizer_def removeFinalizer_def containsFinalizer_iff)

subsection \<open>The interface of the cache\<close>

text \<open>
  What the reconcilers rely on: a lookup sees the last update or removal of its key and nothing
  else, whatever the store is made of.
\<close>

locale rule_store =
  fixes lookup :: "'s \<Rightarrow> string \<Rightarrow> nodeReadinessRule option"
    and update :: "'s \<Rightarrow> nodeReadinessRule \<Rightarrow> 's"
    and remove :: "'s \<Rightarrow> string \<Rightarrow> 's"
  assumes lookup_update: "lookup (update s r) k = (if k = ruleName r then Some r else lookup s k)"
    and lookup_remove: "lookup (remove s j) k = (if k = j then None else lookup s k)"
begin

text \<open>Every entry sits under its own name.\<close>

definition named :: "'s \<Rightarrow> bool" where
  "named s \<longleftrightarrow> (\<forall>k r. lookup s k = Some r \<longrightarrow> ruleName r = k)"

lemma named_update: "named s \<Longrightarrow> named (update s r)"
  by (simp add: named_def lookup_update)

lemma named_remove: "named s \<Longrightarrow> named (remove s k)"
  by (simp add: named_def lookup_remove)

lemma lookup_update_other: "k \<noteq> ruleName r \<Longrightarrow> lookup (update s r) k = lookup s k"
  by (simp add: lookup_update)

lemma lookup_remove_other: "k \<noteq> j \<Longrightarrow> lookup (remove s j) k = lookup s k"
  by (simp add: lookup_remove)

end

interpretation cache: rule_store getCachedRule updateRuleCache removeRuleFromCache
  by unfold_locales (auto simp: getCachedRule_def updateRuleCache_def removeRuleFromCache_def)

lemma cache_globalDryRun [simp]:
  "globalDryRun (updateRuleCache c r) = globalDryRun c"
  "globalDryRun (removeRuleFromCache c k) = globalDryRun c"
  by (simp_all add: updateRuleCache_def removeRuleFromCache_def)

text \<open>The applicable rules are those of the cache whose selector matches, each once.\<close>

lemma getApplicableRulesForNode_set:
  "k \<in> set (getApplicableRulesForNode env c n ks) \<longleftrightarrow>
     k \<in> set ks \<and> (\<exists>rule. getCachedRule c k = Some rule \<and> ruleAppliesTo env rule n)"
  by (induction ks) (auto simp: getCachedRule_def split: option.splits)

lemma getApplicableRulesForNode_distinct:
  "distinct ks \<Longrightarrow> distinct (getApplicableRulesForNode env c n ks)"
  by (induction ks) (auto simp: getApplicableRulesForNode_set split: option.splits)

lemma getApplicableRulesForNode_iff:
  assumes "range_order (ruleCache c) ks"
  shows "k \<in> set (getApplicableRulesForNode env c n ks) \<longleftrightarrow>
     (\<exists>rule. getCachedRule c k = Some rule \<and> ruleAppliesTo env rule n)"
proof -
  have "k \<in> set ks" if "getCachedRule c k = Some rule" for rule
    using that assms by (metis fmdom_notI getCachedRule_def option.distinct(1) range_order_def fmdom_notD)
  then show ?thesis by (auto simp: getApplicableRulesForNode_set)
qed

end
