(* ===== verification/Cleanup.thy ===== *)
theory Cleanup
  imports Rule_Cache
begin

text \<open>
  The three clean-ups of \<open>internal/controller/nodereadinessrule_controller.go\<close>:
  \<open>cleanupTaintsForRule\<close> when a rule is deleted, \<open>cleanupNodesAfterSelectorChange\<close> when its
  selector changes, and \<open>cleanupDeletedNodes\<close>, which drops the status entries of nodes that are
  gone. The first two loops are one sweep over the nodes with a different choice of nodes; the lemmas
  about the sweep are proved once.
\<close>

subsection \<open>Removing taints in a loop\<close>

definition nodeErrorText :: "node \<Rightarrow> goError \<Rightarrow> string" where
  "nodeErrorText n e = ''node '' @ nodeName n @ '': '' @ errorString e"

fun cleanupTaintsLoop :: "'w env \<Rightarrow> nodeReadinessRule \<Rightarrow> node list \<Rightarrow> string list \<Rightarrow> 'w \<Rightarrow> string list \<times> 'w" where
  "cleanupTaintsLoop env rule [] errors w = (errors, w)"
| "cleanupTaintsLoop env rule (n # ns) errors w =
     (if \<not> ruleAppliesTo env rule n then cleanupTaintsLoop env rule ns errors w
      else if hasTaintBySpec n (ruleTaint (ruleSpec rule)) then
        (case removeTaintBySpec env n (ruleTaint (ruleSpec rule)) w of
           (Some e, n', w') \<Rightarrow> cleanupTaintsLoop env rule ns (errors @ [nodeErrorText n' e]) w'
         | (None, n', w') \<Rightarrow> cleanupTaintsLoop env rule ns errors w')
      else cleanupTaintsLoop env rule ns errors w)"

definition cleanupResult :: "string list \<times> 'w \<Rightarrow> goError option \<times> 'w" where
  "cleanupResult r = (case r of (errors, w) \<Rightarrow>
     (if 0 < length errors
      then (Some (ErrorText (''failed to cleanup taints on some nodes: '' @ strings_Join errors ''; '')), w)
      else (None, w)))"

definition cleanupTaintsForRule :: "'w env \<Rightarrow> nodeReadinessRule \<Rightarrow> 'w \<Rightarrow> goError option \<times> 'w" where
  "cleanupTaintsForRule env rule w =
     (case listNodes env w of
        (Inl e, w') \<Rightarrow> (Some (Wrapped ''failed to list nodes'' e), w')
      | (Inr nodes, w') \<Rightarrow> cleanupResult (cleanupTaintsLoop env rule nodes [] w'))"

text \<open>The old selector is not nil after the error check, so its nil branch does not arise.\<close>

fun selectorChangeLoop :: "'w env \<Rightarrow> selector \<Rightarrow> nodeReadinessRule \<Rightarrow> node list \<Rightarrow> string list \<Rightarrow> 'w \<Rightarrow>
    string list \<times> 'w" where
  "selectorChangeLoop env oldSelector newRule [] errors w = (errors, w)"
| "selectorChangeLoop env oldSelector newRule (n # ns) errors w =
     (let matchedOld = selMatches oldSelector (nodeLabels n);
          matchesNew = ruleAppliesTo env newRule n
      in if matchedOld \<and> \<not> matchesNew then
           if hasTaintBySpec n (ruleTaint (ruleSpec newRule)) then
             (case removeTaintBySpec env n (ruleTaint (ruleSpec newRule)) w of
                (Some e, n', w') \<Rightarrow> selectorChangeLoop env oldSelector newRule ns (errors @ [nodeErrorText n' e]) w'
              | (None, n', w') \<Rightarrow> selectorChangeLoop env oldSelector newRule ns errors w')
           else selectorChangeLoop env oldSelector newRule ns errors w
         else selectorChangeLoop env oldSelector newRule ns errors w)"

definition cleanupNodesAfterSelectorChange :: "'w env \<Rightarrow> nodeReadinessRule \<Rightarrow> nodeReadinessRule \<Rightarrow> 'w \<Rightarrow>
    goError option \<times> 'w" where
  "cleanupNodesAfterSelectorChange env oldRule newRule w =
     (case listNodes env w of
        (Inl e, w') \<Rightarrow> (Some (Wrapped ''failed to list nodes'' e), w')
      | (Inr nodes, w') \<Rightarrow>
          (case labelSelectorAsSelector env (nodeSelector (ruleSpec oldRule)) of
             Inl e \<Rightarrow> (Some (Wrapped ''failed to parse old node selector'' e), w')
           | Inr oldSelector \<Rightarrow> cleanupResult (selectorChangeLoop env oldSelector newRule nodes [] w')))"

subsection \<open>Status entries of deleted nodes\<close>

definition existingNodes :: "node list \<Rightarrow> (string, bool) fmap" where
  "existingNodes nodes = fill_map nodeName (\<lambda>n. True) nodes fmempty"

definition nodeExists :: "(string, bool) fmap \<Rightarrow> string \<Rightarrow> bool" where
  "nodeExists m name = (case fmlookup m name of None \<Rightarrow> False | Some b \<Rightarrow> b)"

definition keepExisting :: "(string, bool) fmap \<Rightarrow> nodeEvaluation list \<Rightarrow> nodeEvaluation list" where
  "keepExisting m es = filter (\<lambda>e. nodeExists m (evalNodeName e)) es"

definition cleanupDeletedAttempt :: "'w env \<Rightarrow> string \<Rightarrow> (string, bool) fmap \<Rightarrow> 'w \<Rightarrow> goError option \<times> 'w" where
  "cleanupDeletedAttempt env name existing w =
     (case getRule env name w of
        (Inl e, w') \<Rightarrow> (Some e, w')
      | (Inr fresh, w') \<Rightarrow>
          let evals = nodeEvaluations (ruleStatus fresh);
              kept = keepExisting existing evals
          in if length kept = length evals then (None, w')
             else statusUpdate env (fresh\<lparr>ruleStatus := (ruleStatus fresh)\<lparr>nodeEvaluations := kept\<rparr>\<rparr>) w')"

definition cleanupDeletedNodes :: "'w env \<Rightarrow> nodeReadinessRule \<Rightarrow> 'w \<Rightarrow> goError option \<times> 'w" where
  "cleanupDeletedNodes env rule w =
     (case listNodes env w of
        (Inl e, w') \<Rightarrow> (Some e, w')
      | (Inr nodes, w') \<Rightarrow>
          let existing = existingNodes nodes;
              evals = nodeEvaluations (ruleStatus rule)
          in if length (keepExisting existing evals) = length evals then (None, w')
             else retryOnConflict env (cleanupDeletedAttempt env (ruleName rule) existing) w')"

subsection \<open>The sweep\<close>

fun sweep :: "'w env \<Rightarrow> (node \<Rightarrow> bool) \<Rightarrow> taint \<Rightarrow> node list \<Rightarrow> string list \<Rightarrow> 'w \<Rightarrow> string list \<times> 'w" where
  "sweep env P t [] errors w = (errors, w)"
| "sweep env P t (n # ns) errors w =
     (if P n \<and> hasTaintBySpec n t then
        (case removeTaintBySpec env n t w of
           (Some e, n', w') \<Rightarrow> sweep env P t ns (errors @ [nodeErrorText n' e]) w'
         | (None, n', w') \<Rightarrow> sweep env P t ns errors w')
      else sweep env P t ns errors w)"

lemma cleanupTaintsLoop_sweep:
  "cleanupTaintsLoop env rule ns errors w = sweep env (ruleAppliesTo env rule) (ruleTaint (ruleSpec rule)) ns errors w"
  by (induction ns arbitrary: errors w) (simp_all split: prod.split option.split)

definition left_selector :: "'w env \<Rightarrow> selector \<Rightarrow> nodeReadinessRule \<Rightarrow> node \<Rightarrow> bool" where
  "left_selector env oldSelector newRule n \<longleftrightarrow>
     selMatches oldSelector (nodeLabels n) \<and> \<not> ruleAppliesTo env newRule n"

lemma selectorChangeLoop_sweep:
  "selectorChangeLoop env sel rule ns errors w = sweep env (left_selector env sel rule) (ruleTaint (ruleSpec rule)) ns errors w"
  by (induction ns arbitrary: errors w) (simp_all add: Let_def left_selector_def split: prod.split option.split)

lemma sweep_errors_grow: "sweep env P t ns errors w = (errors', w') \<Longrightarrow> \<exists>es. errors' = errors @ es"
proof (induction ns arbitrary: errors w)
  case Nil
  then show ?case by simp
next
  case (Cons n ns)
  show ?case
  proof (cases "P n \<and> hasTaintBySpec n t")
    case False
    with Cons show ?thesis by auto
  next
    case True
    obtain e n' v where r: "removeTaintBySpec env n t w = (e, n', v)" by (cases "removeTaintBySpec env n t w")
    show ?thesis
    proof (cases e)
      case None
      with Cons.prems True r have "sweep env P t ns errors v = (errors', w')" by simp
      then show ?thesis by (rule Cons.IH)
    next
      case (Some x)
      with Cons.prems True r have "sweep env P t ns (errors @ [nodeErrorText n' x]) v = (errors', w')" by simp
      then have "\<exists>es. errors' = (errors @ [nodeErrorText n' x]) @ es" by (rule Cons.IH)
      then show ?thesis by auto
    qed
  qed
qed

text \<open>
  One step of the sweep under the contract: the node's stored taints become those without the rule's
  taint, or stay and an error is recorded.
\<close>

definition sweep_post :: "(node \<Rightarrow> bool) \<Rightarrow> taint \<Rightarrow> node list \<Rightarrow> (string \<Rightarrow> taint list) \<Rightarrow> bool \<Rightarrow> (string \<Rightarrow> taint list) \<Rightarrow> bool" where
  "sweep_post P t ns before clean after \<longleftrightarrow>
     (\<forall>k. after k = before k \<or> (\<exists>n \<in> set ns. nodeName n = k \<and> P n \<and> after k = other_taints t (before k))) \<and>
     (clean \<longrightarrow> (\<forall>n \<in> set ns. P n \<longrightarrow> after (nodeName n) = other_taints t (before (nodeName n))))"

lemma sweep_post_frame: "sweep_post P t ns before clean after \<Longrightarrow> k \<notin> nodeName ` set ns \<Longrightarrow> after k = before k"
  unfolding sweep_post_def by (metis image_eqI)

lemma sweep_post_skip:
  assumes "sweep_post P t ns before clean after" and "nodeName n \<notin> nodeName ` set ns"
    and "P n \<Longrightarrow> before (nodeName n) = other_taints t (before (nodeName n))"
  shows "sweep_post P t (n # ns) before clean after"
  using assms sweep_post_frame[OF assms(1,2)] by (auto simp: sweep_post_def)

lemma sweep_post_done:
  assumes "sweep_post P t ns (before(nodeName n := other_taints t (before (nodeName n)))) clean after"
    and "nodeName n \<notin> nodeName ` set ns" and "P n"
  shows "sweep_post P t (n # ns) before clean after"
proof -
  let ?b = "before(nodeName n := other_taints t (before (nodeName n)))"
  have here: "after (nodeName n) = other_taints t (before (nodeName n))"
    using sweep_post_frame[OF assms(1,2)] by simp
  have rest: "\<forall>m \<in> set ns. ?b (nodeName m) = before (nodeName m)"
    using assms(2) by (auto simp: image_iff)
  have "after k = before k \<or> (\<exists>m \<in> set (n # ns). nodeName m = k \<and> P m \<and> after k = other_taints t (before k))" for k
    using assms(1,3) here rest unfolding sweep_post_def
    by (metis fun_upd_other list.set_intros(1,2))
  moreover have "clean \<longrightarrow> (\<forall>m \<in> set (n # ns). P m \<longrightarrow> after (nodeName m) = other_taints t (before (nodeName m)))"
    using assms(1) here rest by (auto simp: sweep_post_def)
  ultimately show ?thesis unfolding sweep_post_def by blast
qed

lemma sweep_post_fail:
  "sweep_post P t ns before clean after \<Longrightarrow> sweep_post P t (n # ns) before False after"
  unfolding sweep_post_def by (meson list.set_intros(2))

lemma sweep_contract:
  assumes "patch_contract env tv" and "sweep env P t ns errors w = (errors', w')"
    and "distinct (map nodeName ns)" and "\<forall>n \<in> set ns. tv w (nodeName n) = nodeTaints n"
  shows "sweep_post P t ns (tv w) (errors' = errors) (tv w')"
  using assms(2-4)
proof (induction ns arbitrary: errors w)
  case Nil
  then show ?case by (simp add: sweep_post_def)
next
  case (Cons n ns)
  have fresh: "nodeName n \<notin> nodeName ` set ns" "distinct (map nodeName ns)" using Cons.prems(2) by simp_all
  have cur: "tv w (nodeName n) = nodeTaints n" "\<forall>m \<in> set ns. tv w (nodeName m) = nodeTaints m"
    using Cons.prems(3) by simp_all
  show ?case
  proof (cases "P n \<and> hasTaintBySpec n t")
    case False
    have run: "sweep env P t ns errors w = (errors', w')"
      using Cons.prems(1) unfolding sweep.simps(2) if_not_P[OF False] .
    have "tv w (nodeName n) = other_taints t (tv w (nodeName n))" if "P n"
      using that False cur node_taints.del_absent[of n t] dropTaint_taints[of n t] by auto
    with Cons.IH[OF run fresh(2) cur(2)] fresh(1) show ?thesis by (rule sweep_post_skip)
  next
    case True
    obtain e n' v where r: "removeTaintBySpec env n t w = (e, n', v)" by (cases "removeTaintBySpec env n t w")
    note step = removeTaintBySpec_contract[OF assms(1) r cur(1)]
    have others: "\<forall>m \<in> set ns. tv v (nodeName m) = nodeTaints m"
    proof
      fix m assume m: "m \<in> set ns"
      with fresh(1) have "nodeName m \<noteq> nodeName n" by (metis image_eqI)
      with m cur(2) step(3) show "tv v (nodeName m) = nodeTaints m" by (simp split: option.splits)
    qed
    show ?thesis
    proof (cases e)
      case None
      with Cons.prems(1) True r have run: "sweep env P t ns errors v = (errors', w')" by simp
      have v: "tv v = (tv w)(nodeName n := other_taints t (tv w (nodeName n)))"
        using step(3) None cur by simp
      show ?thesis
        by (rule sweep_post_done[OF Cons.IH[OF run fresh(2) others, unfolded v] fresh(1)]) (use True in simp)
    next
      case (Some x)
      with Cons.prems(1) True r have run: "sweep env P t ns (errors @ [nodeErrorText n' x]) v = (errors', w')" by simp
      have "errors' \<noteq> errors" using sweep_errors_grow[OF run] by auto
      moreover have "tv v = tv w" using step(3) Some by simp
      ultimately show ?thesis
        using sweep_post_fail[OF Cons.IH[OF run fresh(2) others]] by simp
    qed
  qed
qed

subsection \<open>The clean-ups under the contract\<close>

lemma cleanupResult_eq:
  "cleanupResult (errors, w) = (if errors = [] then None
     else Some (ErrorText (''failed to cleanup taints on some nodes: '' @ strings_Join errors ''; '')), w)"
  by (simp add: cleanupResult_def)

lemma cleanup_sweep_post:
  assumes "taints_contract env tv" and "list_contract env tv" and "listNodes env w = (Inr ns, w1)"
    and "cleanupResult (sweep env P t ns [] w1) = (e, w')"
  shows "sweep_post P t ns (tv w) (e = None) (tv w')"
proof -
  obtain errors v where run: "sweep env P t ns [] w1 = (errors, v)" by (cases "sweep env P t ns [] w1")
  have same: "tv w1 = tv w" by (rule keepsD[OF taints_contractD(8)[OF assms(1)] assms(3)])
  have "distinct (map nodeName ns)" "\<forall>n \<in> set ns. tv w1 (nodeName n) = nodeTaints n"
    using assms(2,3) same by (auto simp: list_contract_def)
  from sweep_contract[OF taints_contractD(2)[OF assms(1)] run this]
  show ?thesis using assms(4) run same by (auto simp: cleanupResult_eq split: if_splits)
qed

lemma cleanupTaintsForRule_post:
  assumes "taints_contract env tv" and "list_contract env tv" and "listNodes env w = (Inr ns, w1)"
    and "cleanupTaintsForRule env rule w = (e, w')"
  shows "sweep_post (ruleAppliesTo env rule) (ruleTaint (ruleSpec rule)) ns (tv w) (e = None) (tv w')"
  by (rule cleanup_sweep_post[OF assms(1-3)])
    (use assms(3,4) in \<open>simp add: cleanupTaintsForRule_def cleanupTaintsLoop_sweep\<close>)

lemma cleanupNodesAfterSelectorChange_post:
  assumes "taints_contract env tv" and "list_contract env tv" and "listNodes env w = (Inr ns, w1)"
    and "labelSelectorAsSelector env (nodeSelector (ruleSpec oldRule)) = Inr sel"
    and "cleanupNodesAfterSelectorChange env oldRule newRule w = (e, w')"
  shows "sweep_post (left_selector env sel newRule) (ruleTaint (ruleSpec newRule)) ns (tv w) (e = None) (tv w')"
  by (rule cleanup_sweep_post[OF assms(1-3)])
    (use assms(3-5) in \<open>simp add: cleanupNodesAfterSelectorChange_def selectorChangeLoop_sweep\<close>)

subsection \<open>What is left of the status\<close>

definition prune :: "node list \<Rightarrow> nodeReadinessRuleStatus \<Rightarrow> nodeReadinessRuleStatus" where
  "prune nodes st = st\<lparr>nodeEvaluations := filter (\<lambda>e. evalNodeName e \<in> nodeName ` set nodes) (nodeEvaluations st)\<rparr>"

lemma nodeExists_iff: "nodeExists (existingNodes nodes) name \<longleftrightarrow> name \<in> nodeName ` set nodes"
proof -
  have "fmlookup (existingNodes nodes) name \<noteq> Some False"
    using fill_map_SomeD[of nodeName "\<lambda>n. True" nodes fmempty name False] by (auto simp: existingNodes_def)
  moreover have "fmlookup (existingNodes nodes) name \<noteq> None \<longleftrightarrow> name \<in> nodeName ` set nodes"
    unfolding existingNodes_def fill_map_dom by simp
  ultimately show ?thesis by (auto simp: nodeExists_def split: option.splits)
qed

lemma keepExisting_prune: "keepExisting (existingNodes nodes) (nodeEvaluations st) = nodeEvaluations (prune nodes st)"
  by (simp add: keepExisting_def prune_def nodeExists_iff)

lemma filter_same_length: "length (filter P xs) = length xs \<Longrightarrow> filter P xs = xs"
  by (metis filter_id_conv length_filter_less less_irrefl)

lemma prune_same_length: "length (nodeEvaluations (prune nodes st)) = length (nodeEvaluations st) \<Longrightarrow> prune nodes st = st"
  using filter_same_length[of "\<lambda>e. evalNodeName e \<in> nodeName ` set nodes" "nodeEvaluations st"]
  by (simp add: prune_def)

lemma prune_idem [simp]: "prune nodes (prune nodes st) = prune nodes st"
  by (simp add: prune_def)

lemma prune_wf: "wf_status st \<Longrightarrow> wf_status (prune nodes st)"
  by (simp add: wf_status_def prune_def distinct_map_filter_key)

lemma cleanupDeletedAttempt_post:
  assumes con: "status_contract env sv" and run: "cleanupDeletedAttempt env name (existingNodes nodes) w = (e, w')"
    and "sv w name = Some st"
  shows "sv w' name = Some (if e = None then prune nodes st else st)"
proof -
  note D = status_contractD[OF con]
  obtain r v where g: "getRule env name w = (r, v)" by (cases "getRule env name w")
  have sv: "sv v = sv w" using keepsD[OF D(5) g] .
  show ?thesis
  proof (cases r)
    case (Inl x)
    with run g sv assms(3) show ?thesis by (auto simp: cleanupDeletedAttempt_def)
  next
    case (Inr fresh)
    with D(2) g have f: "ruleName fresh = name" "sv w name = Some (ruleStatus fresh)" by blast+
    with assms(3) have st: "ruleStatus fresh = st" by simp
    let ?new = "fresh\<lparr>ruleStatus := (ruleStatus fresh)\<lparr>nodeEvaluations := nodeEvaluations (prune nodes st)\<rparr>\<rparr>"
    have new: "ruleName ?new = name" "ruleStatus ?new = prune nodes st" using f st by (simp_all add: prune_def)
    show ?thesis
    proof (cases "length (nodeEvaluations (prune nodes st)) = length (nodeEvaluations st)")
      case True
      with run g Inr st sv assms(3) prune_same_length[OF True] show ?thesis
        by (auto simp: cleanupDeletedAttempt_def Let_def keepExisting_prune)
    next
      case False
      with run g Inr st have "statusUpdate env ?new v = (e, w')"
        by (simp add: cleanupDeletedAttempt_def Let_def keepExisting_prune)
      with D(3,4)[of ?new v] sv assms(3) show ?thesis by (cases e) (simp_all add: new)
    qed
  qed
qed

text \<open>
  The status that is stored need not be the one of the rule in hand: the rule in hand decides whether
  anything is written, and what is written comes from the rule that is read again.
\<close>

lemma prune_unchanged_iff:
  "length (nodeEvaluations (prune nodes st)) = length (nodeEvaluations st) \<longleftrightarrow>
   (\<forall>e \<in> set (nodeEvaluations st). evalNodeName e \<in> nodeName ` set nodes)"
proof
  assume "length (nodeEvaluations (prune nodes st)) = length (nodeEvaluations st)"
  from arg_cong[OF prune_same_length[OF this], of nodeEvaluations]
  show "\<forall>e \<in> set (nodeEvaluations st). evalNodeName e \<in> nodeName ` set nodes"
    unfolding prune_def by (auto simp: filter_id_conv)
qed (simp add: prune_def)

lemma cleanupDeletedNodes_post:
  assumes con: "status_contract env sv" and run: "cleanupDeletedNodes env rule w = (None, w')"
    and st: "sv w (ruleName rule) = Some st"
  shows "\<exists>nodes v. listNodes env w = (Inr nodes, v) \<and> sv w' (ruleName rule) =
    Some (if \<forall>e \<in> set (nodeEvaluations (ruleStatus rule)). evalNodeName e \<in> nodeName ` set nodes then st else prune nodes st)"
proof -
  note D = status_contractD[OF con]
  obtain r v where l: "listNodes env w = (r, v)" by (cases "listNodes env w")
  with run obtain nodes where r: "r = Inr nodes" by (cases r) (auto simp: cleanupDeletedNodes_def)
  let ?n = "ruleName rule" and ?st = "ruleStatus rule"
  let ?f = "cleanupDeletedAttempt env ?n (existingNodes nodes)"
  have sv: "sv v ?n = Some st" using keepsD[OF D(6) l] st by simp
  have "sv w' ?n = Some (if length (nodeEvaluations (prune nodes ?st)) = length (nodeEvaluations ?st) then st else prune nodes st)"
  proof (cases "length (nodeEvaluations (prune nodes ?st)) = length (nodeEvaluations ?st)")
    case True
    with run l r have "w' = v" by (simp add: cleanupDeletedNodes_def Let_def keepExisting_prune)
    with sv True show ?thesis by simp
  next
    case False
    with run l r have retry: "retryOnConflict env ?f v = (None, w')"
      by (simp add: cleanupDeletedNodes_def Let_def keepExisting_prune)
    let ?I = "\<lambda>u. sv u ?n = Some st \<or> sv u ?n = Some (prune nodes st)"
    have step: "?I (snd (?f u))" if "?I u" for u
    proof -
      obtain e u' where f: "?f u = (e, u')" by (cases "?f u")
      with that cleanupDeletedAttempt_post[OF con f] show ?thesis by (cases e) auto
    qed
    have "sv w' ?n = Some (prune nodes st)"
    proof (rule retry_success[where I = ?I, OF D(1) retry _ step])
      fix u u' assume "?I u" and "?f u = (None, u')"
      with cleanupDeletedAttempt_post[OF con, of ?n nodes u None u'] show "sv u' ?n = Some (prune nodes st)"
        by auto
    qed (use sv in auto)
    with False show ?thesis by simp
  qed
  with l r show ?thesis unfolding prune_unchanged_iff by blast
qed

lemma cleanupDeletedNodes_own:
  assumes "status_contract env sv" and "cleanupDeletedNodes env rule w = (None, w')"
    and "sv w (ruleName rule) = Some (ruleStatus rule)"
  shows "\<exists>nodes v. listNodes env w = (Inr nodes, v) \<and> sv w' (ruleName rule) = Some (prune nodes (ruleStatus rule))"
proof -
  have "prune nodes st = st" if "\<forall>e \<in> set (nodeEvaluations st). evalNodeName e \<in> nodeName ` set nodes" for nodes st
    by (rule prune_same_length) (use that in \<open>simp add: prune_unchanged_iff\<close>)
  with cleanupDeletedNodes_post[OF assms] show ?thesis by (auto split: if_splits)
qed

subsection \<open>Properties\<close>

text \<open>
  Cleaning up for a deleted rule takes nothing but the rule's taint, and from no other node than those
  the rule applies to; when it returns no error, every such node has lost the taint and kept its others.
\<close>

lemma cleanupTaintsForRule_removes:
  assumes "taints_contract env tv" and "list_contract env tv" and "listNodes env w = (Inr ns, w1)"
    and "cleanupTaintsForRule env rule w = (e, w')"
  shows "(\<forall>k. tv w' k = tv w k \<or> (\<exists>n \<in> set ns. nodeName n = k \<and> ruleAppliesTo env rule n \<and>
        tv w' k = filter (\<lambda>t. taint_id t \<noteq> taint_id (ruleTaint (ruleSpec rule))) (tv w k))) \<and>
    (e = None \<longrightarrow> (\<forall>n \<in> set ns. ruleAppliesTo env rule n \<longrightarrow>
        tv w' (nodeName n) = filter (\<lambda>t. taint_id t \<noteq> taint_id (ruleTaint (ruleSpec rule))) (nodeTaints n)))"
proof -
  have "\<forall>n \<in> set ns. tv w (nodeName n) = nodeTaints n"
    using assms(2,3) by (auto simp: list_contract_def)
  with cleanupTaintsForRule_post[OF assms] show ?thesis
    unfolding sweep_post_def other_taints_def by auto
qed

lemmas cleanup_eval = cleanupTaintsForRule_def cleanupNodesAfterSelectorChange_def cleanupResult_def
  removeTaintBySpec_def dropTaint_def filterTaints_eq hasTaintBySpec_def ruleAppliesTo_def Let_def

lemma cleanupTaintsForRule_removes_witness:
  "\<exists>s'. cleanupTaintsForRule mem_env (net_rule ''continuous'' False)
       (server_of [worker ''w1'' ''False'' [net_taint, disk_taint]] [] []) = (None, s') \<and>
     server_taints s' ''w1'' = [disk_taint]"
proof -
  let ?n = "worker ''w1'' ''False'' [net_taint, disk_taint]" and ?r = "net_rule ''continuous'' False"
  let ?s = "server_of [?n] [] []"
  have list: "listNodes mem_env ?s = (Inr [?n], ?s)" by (simp add: server_of_def worker_def server_defs)
  obtain s' where run: "cleanupTaintsForRule mem_env ?r ?s = (None, s')"
    by (simp add: cleanup_eval sample_defs server_defs)
  have "server_taints s' (nodeName ?n) = filter (\<lambda>t. taint_id t \<noteq> taint_id (ruleTaint (ruleSpec ?r))) (nodeTaints ?n)"
    using cleanupTaintsForRule_removes[OF mem_taints_contract mem_list_contract list run]
    by (simp add: ruleAppliesTo_def sample_defs server_defs Let_def)
  with run show ?thesis by (simp add: sample_defs)
qed

text \<open>
  C19: After a change of the selector, the nodes that the old selector matched and the new one does not
  lose the rule's taint when no error is returned; no other node loses anything, and no node loses
  another taint.
\<close>

theorem selector_change_cleans:
  assumes "taints_contract env tv" and "list_contract env tv" and "listNodes env w = (Inr ns, w1)"
    and "labelSelectorAsSelector env (nodeSelector (ruleSpec oldRule)) = Inr old"
    and "cleanupNodesAfterSelectorChange env oldRule newRule w = (e, w')"
  shows "(\<forall>k. tv w' k = tv w k \<or> (\<exists>n \<in> set ns. nodeName n = k \<and>
        selMatches old (nodeLabels n) \<and> \<not> ruleAppliesTo env newRule n \<and>
        tv w' k = filter (\<lambda>t. taint_id t \<noteq> taint_id (ruleTaint (ruleSpec newRule))) (tv w k))) \<and>
    (e = None \<longrightarrow> (\<forall>n \<in> set ns. selMatches old (nodeLabels n) \<longrightarrow> \<not> ruleAppliesTo env newRule n \<longrightarrow>
        tv w' (nodeName n) = filter (\<lambda>t. taint_id t \<noteq> taint_id (ruleTaint (ruleSpec newRule))) (nodeTaints n)))"
proof -
  have "\<forall>n \<in> set ns. tv w (nodeName n) = nodeTaints n"
    using assms(2,3) by (auto simp: list_contract_def)
  with cleanupNodesAfterSelectorChange_post[OF assms] show ?thesis
    unfolding sweep_post_def other_taints_def left_selector_def by auto
qed

definition moved_rule :: nodeReadinessRule where
  "moved_rule = (net_rule ''continuous'' False)\<lparr>ruleSpec := (net_spec ''continuous'' False)
     \<lparr>nodeSelector := \<lparr>matchLabels = role_labels ''edge'', matchExpressions = []\<rparr>\<rparr>\<rparr>"

theorem selector_change_cleans_witness:
  "\<exists>s'. cleanupNodesAfterSelectorChange mem_env (net_rule ''continuous'' False) moved_rule
       (server_of [worker ''w1'' ''False'' [net_taint, disk_taint]] [] []) = (None, s') \<and>
     server_taints s' ''w1'' = [disk_taint]"
proof -
  let ?n = "worker ''w1'' ''False'' [net_taint, disk_taint]" and ?r = "net_rule ''continuous'' False"
  let ?s = "server_of [?n] [] []"
  have list: "listNodes mem_env ?s = (Inr [?n], ?s)" by (simp add: server_of_def worker_def server_defs)
  obtain s' where run: "cleanupNodesAfterSelectorChange mem_env ?r moved_rule ?s = (None, s')"
    by (simp add: cleanup_eval moved_rule_def sample_defs server_defs)
  obtain old where old: "labelSelectorAsSelector mem_env (nodeSelector (ruleSpec ?r)) = Inr old"
    and m: "selMatches old (nodeLabels ?n)"
    by (simp add: sample_defs server_defs Let_def)
  have "\<not> ruleAppliesTo mem_env moved_rule ?n"
    by (simp add: ruleAppliesTo_def moved_rule_def sample_defs server_defs Let_def)
  with m selector_change_cleans[OF mem_taints_contract mem_list_contract list old run]
  have "server_taints s' (nodeName ?n) = filter (\<lambda>t. taint_id t \<noteq> taint_id (ruleTaint (ruleSpec moved_rule))) (nodeTaints ?n)"
    by simp
  with run show ?thesis by (simp add: moved_rule_def sample_defs)
qed

text \<open>
  C29: Dropping the entries of deleted nodes, without error: when the rule in hand has an evaluation of a
  node that is not listed, the status the server holds - which may have changed since the rule in hand was
  read - keeps exactly its own evaluations of listed nodes, in their order, and is otherwise as it was;
  when it has none, the stored status stays.
\<close>

theorem cleanupDeletedNodes_exact:
  assumes "status_contract env sv" and "cleanupDeletedNodes env rule w = (None, w')"
    and "sv w (ruleName rule) = Some st"
  shows "\<exists>nodes v. listNodes env w = (Inr nodes, v) \<and> sv w' (ruleName rule) = Some
    (if \<forall>e \<in> set (nodeEvaluations (ruleStatus rule)). evalNodeName e \<in> nodeName ` set nodes then st
     else st\<lparr>nodeEvaluations := filter (\<lambda>e. evalNodeName e \<in> nodeName ` set nodes) (nodeEvaluations st)\<rparr>)"
  using cleanupDeletedNodes_post[OF assms] unfolding prune_def .

text \<open>The rule in hand, and the stored one that was evaluated on another node since.\<close>

definition evaluated_rule :: "nodeEvaluation list \<Rightarrow> nodeReadinessRule" where
  "evaluated_rule es = (net_rule ''continuous'' False)\<lparr>ruleStatus := no_status\<lparr>nodeEvaluations := es\<rparr>\<rparr>"

theorem cleanupDeletedNodes_exact_witness:
  "\<exists>s'. cleanupDeletedNodes mem_env (evaluated_rule [mkEvaluation ''gone'' ([], ''Present'', 0)])
       (server_of [worker ''w1'' ''True'' []] [evaluated_rule [mkEvaluation ''gone'' ([], ''Present'', 0),
         mkEvaluation ''w1'' ([], ''Absent'', 0)]] []) = (None, s') \<and>
     map_option (map evalNodeName \<circ> nodeEvaluations) (server_status s' ''net'') = Some [''w1'']"
proof -
  let ?r = "evaluated_rule [mkEvaluation ''gone'' ([], ''Present'', 0)]"
  let ?es = "[mkEvaluation ''gone'' ([], ''Present'', 0), mkEvaluation ''w1'' ([], ''Absent'', 0)]"
  let ?s = "server_of [worker ''w1'' ''True'' []] [evaluated_rule ?es] []"
  have name: "ruleName ?r = ''net''" by (simp add: evaluated_rule_def net_rule_def)
  have list: "listNodes mem_env ?s = (Inr [worker ''w1'' ''True'' []], ?s)"
    by (simp add: server_of_def server_defs)
  obtain s' where run: "cleanupDeletedNodes mem_env ?r ?s = (None, s')"
    by (simp add: cleanupDeletedNodes_def cleanupDeletedAttempt_def keepExisting_def nodeExists_def existingNodes_def
        evaluated_rule_def mkEvaluation_def sample_defs server_defs Let_def)
  have st: "server_status ?s (ruleName ?r) = Some (ruleStatus (evaluated_rule ?es))"
    unfolding name by (simp add: server_status_def server_of_def evaluated_rule_def net_rule_def)
  have evals: "nodeEvaluations (ruleStatus (evaluated_rule es)) = es" for es by (simp add: evaluated_rule_def)
  from cleanupDeletedNodes_exact[OF mem_status_contract, OF run st] obtain nodes v where
      n: "listNodes mem_env ?s = (Inr nodes, v)"
      "server_status s' ''net'' = Some (if \<forall>e \<in> set (nodeEvaluations (ruleStatus ?r)). evalNodeName e \<in> nodeName ` set nodes
         then ruleStatus (evaluated_rule ?es) else (ruleStatus (evaluated_rule ?es))\<lparr>nodeEvaluations :=
           filter (\<lambda>e. evalNodeName e \<in> nodeName ` set nodes) (nodeEvaluations (ruleStatus (evaluated_rule ?es)))\<rparr>)"
    unfolding name by blast
  from n(1) list have "nodes = [worker ''w1'' ''True'' []]" by simp
  with n(2) have "map_option (map evalNodeName \<circ> nodeEvaluations) (server_status s' ''net'') = Some [''w1'']"
    by (simp add: evals mkEvaluation_def worker_def)
  with run show ?thesis by blast
qed

end
