(* ===== verification/Change_Detection.thy ===== *)
theory Change_Detection
  imports Samples "HOL-Library.Sublist"
begin

text \<open>
  The comparisons that decide whether a change is worth a reconcile: \<open>conditionsEqual\<close>,
  \<open>taintsEqual\<close>, \<open>labelsEqual\<close> and the event predicates of \<open>NodeReconciler.SetupWithManager\<close>
  (\<open>internal/controller/node_controller.go\<close>), \<open>nodeSelectorChanged\<close> and \<open>stringMapEqual\<close>
  (\<open>internal/controller/nodereadinessrule_controller.go\<close>). Each comparison is an instance of the
  interface \<open>change_detector\<close>: on well-formed values it decides equality of a view, and the update
  predicate fires exactly when one of three views differs. Outside the well-formed values the
  comparisons miss changes; the last section says which.
\<close>

subsection \<open>The comparisons\<close>

fun conditionsMatch :: "(string, string) fmap \<Rightarrow> nodeCondition list \<Rightarrow> bool" where
  "conditionsMatch aMap [] = True"
| "conditionsMatch aMap (c # cs) = (case fmlookup aMap (condType c) of
     None \<Rightarrow> False
   | Some st \<Rightarrow> if st \<noteq> condStatus c then False else conditionsMatch aMap cs)"

definition conditionsEqual :: "nodeCondition list \<Rightarrow> nodeCondition list \<Rightarrow> bool" where
  "conditionsEqual a b = (if length a \<noteq> length b then False
     else conditionsMatch (fill_map condType condStatus a fmempty) b)"

definition taint_map_key :: "taint \<Rightarrow> string" where
  "taint_map_key t = taintKey t @ taintEffect t"

fun taintsMatch :: "(string, taint) fmap \<Rightarrow> taint list \<Rightarrow> bool" where
  "taintsMatch aMap [] = True"
| "taintsMatch aMap (t # ts) = (case fmlookup aMap (taint_map_key t) of
     None \<Rightarrow> False
   | Some old \<Rightarrow> if taintValue old \<noteq> taintValue t then False else taintsMatch aMap ts)"

definition taintsEqual :: "taint list \<Rightarrow> taint list \<Rightarrow> bool" where
  "taintsEqual a b = (if length a \<noteq> length b then False
     else taintsMatch (fill_map taint_map_key (\<lambda>t. t) a fmempty) b)"

text \<open>A range loop over a map that returns false at the first mismatch, in whatever order.\<close>

definition labelsEqual :: "string_map \<Rightarrow> string_map \<Rightarrow> bool" where
  "labelsEqual a b = (if go_len a \<noteq> go_len b then False else fmpred (\<lambda>k v. go_index b k = v) a)"

definition stringMapEqual :: "string_map \<Rightarrow> string_map \<Rightarrow> bool" where
  "stringMapEqual a b = (if go_len a \<noteq> go_len b then False else fmpred (\<lambda>k v. go_index b k = v) a)"

text \<open>\<open>fmt.Sprintf("%s-%s-%v", expr.Key, expr.Operator, expr.Values)\<close>.\<close>

definition exprKey :: "labelSelectorRequirement \<Rightarrow> string" where
  "exprKey e = lsrKey e @ ''-'' @ lsrOperator e @ ''-'' @ sprint_strings (lsrValues e)"

definition nodeSelectorChanged :: "labelSelector \<Rightarrow> labelSelector \<Rightarrow> bool" where
  "nodeSelectorChanged current previous =
     (if \<not> stringMapEqual (matchLabels current) (matchLabels previous) then True
      else if length (matchExpressions current) \<noteq> length (matchExpressions previous) then True
      else let currentExprs = fill_map exprKey (\<lambda>e. e) (matchExpressions current) fmempty;
               previousExprs = fill_map exprKey (\<lambda>e. e) (matchExpressions previous) fmempty
           in fBex (fmdom currentExprs) (\<lambda>key. fmlookup previousExprs key = None))"

subsection \<open>Event predicates of the node controller\<close>

text \<open>The object of a create event is a node or something else (the failed type assertion).\<close>

datatype eventObject = NodeObject node | OtherObject

fun nodeCreateFunc :: "eventObject \<Rightarrow> bool" where
  "nodeCreateFunc (NodeObject n) = True"
| "nodeCreateFunc OtherObject = False"

definition nodeUpdateFunc :: "node \<Rightarrow> node \<Rightarrow> bool" where
  "nodeUpdateFunc oldNode newNode =
     (let conditionsChanged = \<not> conditionsEqual (nodeConditions oldNode) (nodeConditions newNode);
          taintsChanged = \<not> taintsEqual (nodeTaints oldNode) (nodeTaints newNode);
          labelsChanged = \<not> labelsEqual (nodeLabels oldNode) (nodeLabels newNode)
      in conditionsChanged \<or> taintsChanged \<or> labelsChanged)"

subsection \<open>The interface: deciding equality of a view\<close>

locale change_filter =
  fixes same :: "'a \<Rightarrow> 'a \<Rightarrow> bool"
    and view :: "'a \<Rightarrow> 'v"
    and wf :: "'a \<Rightarrow> bool"
  assumes quiet: "wf a \<Longrightarrow> wf b \<Longrightarrow> view a = view b \<Longrightarrow> same a b"
begin

lemma same_refl: "wf a \<Longrightarrow> same a a"
  by (simp add: quiet)

end

locale change_detector = change_filter +
  assumes detects: "wf a \<Longrightarrow> wf b \<Longrightarrow> same a b \<Longrightarrow> view a = view b"
begin

lemma same_iff: "wf a \<Longrightarrow> wf b \<Longrightarrow> same a b \<longleftrightarrow> view a = view b"
  using quiet detects by blast

lemma same_sym: "wf a \<Longrightarrow> wf b \<Longrightarrow> same a b \<Longrightarrow> same b a"
  by (simp add: same_iff)

lemma same_trans: "wf a \<Longrightarrow> wf b \<Longrightarrow> wf c \<Longrightarrow> same a b \<Longrightarrow> same b c \<Longrightarrow> same a c"
  by (simp add: same_iff)

end

text \<open>An event predicate built from three detectors fires exactly when one of the views differs.\<close>

locale triple_detector =
  one: change_detector same1 view1 wf1 +
  two: change_detector same2 view2 wf2 +
  three: change_detector same3 view3 wf3
  for same1 :: "'a \<Rightarrow> 'a \<Rightarrow> bool" and view1 :: "'a \<Rightarrow> 'u" and wf1 :: "'a \<Rightarrow> bool"
    and same2 :: "'b \<Rightarrow> 'b \<Rightarrow> bool" and view2 :: "'b \<Rightarrow> 'v" and wf2 :: "'b \<Rightarrow> bool"
    and same3 :: "'c \<Rightarrow> 'c \<Rightarrow> bool" and view3 :: "'c \<Rightarrow> 'w" and wf3 :: "'c \<Rightarrow> bool"
begin

lemma fires_iff:
  assumes "wf1 a" "wf1 a'" "wf2 b" "wf2 b'" "wf3 c" "wf3 c'"
  shows "\<not> same1 a a' \<or> \<not> same2 b b' \<or> \<not> same3 c c' \<longleftrightarrow> (view1 a, view2 b, view3 c) \<noteq> (view1 a', view2 b', view3 c')"
proof -
  have 1: "same1 a a' \<longleftrightarrow> view1 a = view1 a'" by (rule one.same_iff[OF assms(1,2)])
  have 2: "same2 b b' \<longleftrightarrow> view2 b = view2 b'" by (rule two.same_iff[OF assms(3,4)])
  have 3: "same3 c c' \<longleftrightarrow> view3 c = view3 c'" by (rule three.same_iff[OF assms(5,6)])
  show ?thesis unfolding 1 2 3 by auto
qed

end

subsection \<open>Conditions\<close>

definition condition_view :: "nodeCondition list \<Rightarrow> string \<Rightarrow> string option" where
  "condition_view cs ty = map_option condStatus (find_key condType ty cs)"

definition wf_conditions :: "nodeCondition list \<Rightarrow> bool" where
  "wf_conditions cs \<longleftrightarrow> distinct (map condType cs)"

text \<open>
  A keyed list seen through a finite map: two lists of equal length without duplicate keys have
  the same view when every entry of the second is in the first.
\<close>

lemma keyed_lists_eq:
  assumes "distinct (map key xs)" and "distinct (map key ys)" and "length xs = length ys"
    and "\<forall>y \<in> set ys. \<exists>x \<in> set xs. key x = key y \<and> val x = val y"
  shows "map_option val (find_key key k xs) = map_option val (find_key key k ys)"
proof -
  have "key ` set ys \<subseteq> key ` set xs"
  proof
    fix k assume "k \<in> key ` set ys"
    then obtain y where "y \<in> set ys" "k = key y" by blast
    with assms(4) obtain x where "x \<in> set xs" "key x = k" by blast
    then show "k \<in> key ` set xs" by blast
  qed
  moreover have "card (key ` set ys) = card (key ` set xs)"
    using assms(1-3) by (metis distinct_card length_map set_map)
  ultimately have keys: "key ` set ys = key ` set xs" by (simp add: card_subset_eq)
  show ?thesis
  proof (cases "find_key key k ys")
    case None
    with keys have "find_key key k xs = None" by (simp add: find_key_None_iff)
    with None show ?thesis by simp
  next
    case (Some y)
    then have "y \<in> set ys" "key y = k" by (auto dest: find_key_SomeD)
    with assms(4) obtain x where x: "x \<in> set xs" "key x = k" "val x = val y" by metis
    with find_key_distinct[OF assms(1) x(1)] Some show ?thesis by simp
  qed
qed

lemma keyed_view_len:
  assumes "distinct (map key xs)" and "distinct (map key ys)"
    and "\<And>k. map_option val (find_key key k xs) = map_option val (find_key key k ys)"
  shows "length xs = length ys"
proof -
  have "key ` set xs = key ` set ys"
    using assms(3) by (auto) (metis find_key_None_iff image_eqI option.map_disc_iff)+
  then show ?thesis using assms(1,2) by (metis distinct_card length_map set_map)
qed

lemma keyed_view_mem:
  assumes "distinct (map key xs)" and "distinct (map key ys)"
    and "\<And>k. map_option val (find_key key k xs) = map_option val (find_key key k ys)"
    and "y \<in> set ys"
  shows "\<exists>x \<in> set xs. key x = key y \<and> val x = val y"
proof -
  have "map_option val (find_key key (key y) xs) = Some (val y)"
    using find_key_distinct[OF assms(2,4)] assms(3) by simp
  then show ?thesis by (auto dest: find_key_SomeD)
qed

lemma conditionsMatch_iff:
  "conditionsMatch m cs \<longleftrightarrow> (\<forall>c \<in> set cs. fmlookup m (condType c) = Some (condStatus c))"
  by (induction cs) (auto split: option.splits)

lemma conditionsEqual_iff_entries:
  assumes "wf_conditions a"
  shows "conditionsEqual a b \<longleftrightarrow> length a = length b \<and>
    (\<forall>c \<in> set b. \<exists>d \<in> set a. condType d = condType c \<and> condStatus d = condStatus c)"
  using assms
  by (simp add: conditionsEqual_def conditionsMatch_iff wf_conditions_def fill_map_empty_Some_iff)

interpretation conds: change_detector conditionsEqual condition_view wf_conditions
proof unfold_locales
  fix a b
  assume wf: "wf_conditions a" "wf_conditions b"
  note d = wf[unfolded wf_conditions_def]
  {
    assume "condition_view a = condition_view b"
    then have v: "\<And>k. map_option condStatus (find_key condType k a) = map_option condStatus (find_key condType k b)"
      by (metis condition_view_def)
    show "conditionsEqual a b"
      using keyed_view_len[OF d v] keyed_view_mem[OF d v] by (simp add: conditionsEqual_iff_entries wf)
  }
  {
    assume "conditionsEqual a b"
    with wf keyed_lists_eq[OF d, of condStatus] show "condition_view a = condition_view b"
      by (auto simp: conditionsEqual_iff_entries condition_view_def fun_eq_iff)
  }
qed

subsection \<open>Taints\<close>

definition taint_view :: "taint list \<Rightarrow> string \<times> string \<Rightarrow> string option" where
  "taint_view ts i = map_option taintValue (find_key taint_id i ts)"

definition taint_effects :: "string list" where
  "taint_effects = [''NoSchedule'', ''PreferNoSchedule'', ''NoExecute'']"

text \<open>
  A taint list that \<open>taintsEqual\<close> can tell from another: at most one taint per key and effect and one of
  the three effects, which the API server sees to, and no key that ends in \<open>Prefer\<close>, which it does not: for
  such a key the concatenation of key and effect that \<open>taintsEqual\<close> uses as a map key is ambiguous.
\<close>

definition wf_taints :: "taint list \<Rightarrow> bool" where
  "wf_taints ts \<longleftrightarrow> distinct (map taint_id ts) \<and>
     (\<forall>t \<in> set ts. taintEffect t \<in> set taint_effects \<and> \<not> suffix ''Prefer'' (taintKey t))"

lemma append_Prefer: "k @ ''PreferNoSchedule'' = (k @ ''Prefer'') @ ''NoSchedule''"
  by simp

lemma effect_key_inject:
  assumes "e1 \<in> set taint_effects" and "e2 \<in> set taint_effects"
    and "\<not> suffix ''Prefer'' k1" and "\<not> suffix ''Prefer'' k2"
    and "k1 @ e1 = k2 @ e2"
  shows "k1 = k2 \<and> e1 = e2"
proof -
  have r: "rev e1 @ rev k1 = rev e2 @ rev k2" using arg_cong[OF assms(5), of rev] by simp
  consider (same) "e1 = e2"
    | (short_long) "e1 = ''NoSchedule''" "e2 = ''PreferNoSchedule''"
    | (long_short) "e1 = ''PreferNoSchedule''" "e2 = ''NoSchedule''"
    using assms(1,2) r by (auto simp: taint_effects_def)
  then show ?thesis
  proof cases
    case same
    with assms(5) show ?thesis by simp
  next
    case short_long
    with assms(5) have "k1 = k2 @ ''Prefer''" by (metis append_Prefer append_same_eq)
    with assms(3) show ?thesis by (simp add: suffix_def)
  next
    case long_short
    with assms(5) have "k2 = k1 @ ''Prefer''" by (metis append_Prefer append_same_eq)
    with assms(4) show ?thesis by (simp add: suffix_def)
  qed
qed

lemma taint_map_key_eq_iff:
  assumes "taintEffect s \<in> set taint_effects" "taintEffect t \<in> set taint_effects"
    and "\<not> suffix ''Prefer'' (taintKey s)" "\<not> suffix ''Prefer'' (taintKey t)"
  shows "taint_map_key s = taint_map_key t \<longleftrightarrow> taint_id s = taint_id t"
  using effect_key_inject[OF assms] by (auto simp: taint_map_key_def)

lemma taintsMatch_iff:
  "taintsMatch m ts \<longleftrightarrow> (\<forall>t \<in> set ts. \<exists>old. fmlookup m (taint_map_key t) = Some old \<and> taintValue old = taintValue t)"
  by (induction ts) (auto split: option.splits)

lemma wf_taints_distinct_keys:
  assumes "wf_taints ts"
  shows "distinct (map taint_map_key ts)"
proof -
  have d: "distinct ts" "inj_on taint_id (set ts)" using assms by (simp_all add: wf_taints_def distinct_map)
  have "inj_on taint_map_key (set ts)"
  proof (rule inj_onI)
    fix s t
    assume st: "s \<in> set ts" "t \<in> set ts" "taint_map_key s = taint_map_key t"
    then have "taint_id s = taint_id t"
      using assms taint_map_key_eq_iff[of s t] by (simp add: wf_taints_def)
    then show "s = t" by (rule inj_onD[OF d(2) _ st(1,2)])
  qed
  with d(1) show ?thesis by (simp add: distinct_map)
qed

lemma taintsEqual_iff_entries:
  assumes "wf_taints a" and "wf_taints b"
  shows "taintsEqual a b \<longleftrightarrow> length a = length b \<and>
    (\<forall>t \<in> set b. \<exists>s \<in> set a. taint_id s = taint_id t \<and> taintValue s = taintValue t)"
proof -
  have key: "taint_map_key s = taint_map_key t \<longleftrightarrow> taint_id s = taint_id t" if "s \<in> set a" "t \<in> set b" for s t
    using that assms by (intro taint_map_key_eq_iff) (auto simp: wf_taints_def)
  show ?thesis
    using wf_taints_distinct_keys[OF assms(1)] key
    by (auto simp: taintsEqual_def taintsMatch_iff fill_map_empty_Some_iff)
qed

interpretation taints: change_detector taintsEqual taint_view wf_taints
proof unfold_locales
  fix a b
  assume wf: "wf_taints a" "wf_taints b"
  have d: "distinct (map taint_id a)" "distinct (map taint_id b)" using wf by (simp_all add: wf_taints_def)
  {
    assume "taint_view a = taint_view b"
    then have v: "\<And>k. map_option taintValue (find_key taint_id k a) = map_option taintValue (find_key taint_id k b)"
      by (metis taint_view_def)
    show "taintsEqual a b"
      using keyed_view_len[OF d v] keyed_view_mem[OF d v] by (simp add: taintsEqual_iff_entries wf)
  }
  {
    assume "taintsEqual a b"
    with wf keyed_lists_eq[OF d, of taintValue] show "taint_view a = taint_view b"
      by (auto simp: taintsEqual_iff_entries taint_view_def fun_eq_iff)
  }
qed

subsection \<open>Labels\<close>

text \<open>
  Labels that \<open>labelsEqual\<close> and \<open>stringMapEqual\<close> can tell from others: without empty values. The API server
  admits empty values too; what is missed with them is shown below.
\<close>

definition wf_labels :: "string_map \<Rightarrow> bool" where
  "wf_labels m \<longleftrightarrow> fmpred (\<lambda>k v. v \<noteq> []) m"

lemma string_maps_agree:
  assumes "wf_labels a" and "go_len a = go_len b" and "fmpred (\<lambda>k v. go_index b k = v) a"
  shows "a = b"
proof -
  have sub: "fmlookup b k = Some v" if "fmlookup a k = Some v" for k v
  proof -
    have "v \<noteq> []" "go_index b k = v" using that assms(1,3) by (simp_all add: wf_labels_def fmpred_iff)
    then show ?thesis by (cases "fmlookup b k") simp_all
  qed
  then have "fset (fmdom a) \<subseteq> fset (fmdom b)"
    by (metis fmlookup_dom_iff subsetI)
  with assms(2) have dom: "fset (fmdom a) = fset (fmdom b)"
    by (metis card_subset_eq finite_fset go_len_card)
  show ?thesis
  proof (rule fmap_ext)
    fix k
    show "fmlookup a k = fmlookup b k"
    proof (cases "fmlookup a k")
      case None
      then have "k \<notin> fset (fmdom b)" using dom by (metis fmlookup_dom_iff option.distinct(1))
      with None show ?thesis by (metis fmlookup_dom_iff option.exhaust)
    next
      case (Some v)
      with sub show ?thesis by metis
    qed
  qed
qed

lemma fmpred_go_index_refl: "fmpred (\<lambda>k v. go_index a k = v) a"
  by (simp add: fmpred_iff)

interpretation labels: change_detector labelsEqual "\<lambda>m. m" wf_labels
  by unfold_locales
    (auto simp: labelsEqual_def fmpred_go_index_refl split: if_splits intro: string_maps_agree)

interpretation selector_labels: change_detector stringMapEqual "\<lambda>m. m" wf_labels
  by unfold_locales
    (auto simp: stringMapEqual_def fmpred_go_index_refl split: if_splits intro: string_maps_agree)

subsection \<open>Node events\<close>

text \<open>
  A node the update predicate can tell from another: one condition per type, and taints and labels as above.
  It is narrower than what the API server admits, by the two restrictions on taint keys and label values.
\<close>

definition wf_node :: "node \<Rightarrow> bool" where
  "wf_node n \<longleftrightarrow> wf_conditions (nodeConditions n) \<and> wf_taints (nodeTaints n) \<and> wf_labels (nodeLabels n)"

text \<open>What a rule evaluation can read of a node: statuses, taints and labels.\<close>

definition node_view :: "node \<Rightarrow> (string \<Rightarrow> string option) \<times> (string \<times> string \<Rightarrow> string option) \<times> string_map" where
  "node_view n = (condition_view (nodeConditions n), taint_view (nodeTaints n), nodeLabels n)"

interpretation node_events: triple_detector conditionsEqual condition_view wf_conditions
  taintsEqual taint_view wf_taints labelsEqual "\<lambda>m. m" wf_labels
  by unfold_locales

lemma nodeUpdateFunc_iff:
  assumes "wf_node old" and "wf_node new"
  shows "nodeUpdateFunc old new \<longleftrightarrow> node_view old \<noteq> node_view new"
  using assms
    node_events.fires_iff[of "nodeConditions old" "nodeConditions new"
      "nodeTaints old" "nodeTaints new" "nodeLabels old" "nodeLabels new"]
  by (simp add: nodeUpdateFunc_def wf_node_def node_view_def)

subsection \<open>Node selectors\<close>

text \<open>
  A requirement whose text \<open>exprKey\<close> tells it from others: \<open>In\<close> and \<open>NotIn\<close> have values, \<open>Exists\<close> and
  \<open>DoesNotExist\<close> have none; a key holds no bracket, a value no blank. A selector that
  \<open>nodeSelectorChanged\<close> can tell from another has such requirements, none of them twice, and no empty label
  value; the API server also admits repeated requirements and empty values, with which changes are missed.
\<close>

definition wf_requirement :: "labelSelectorRequirement \<Rightarrow> bool" where
  "wf_requirement e \<longleftrightarrow>
     (lsrOperator e \<in> {''In'', ''NotIn''} \<and> lsrValues e \<noteq> [] \<or>
      lsrOperator e \<in> {''Exists'', ''DoesNotExist''} \<and> lsrValues e = []) \<and>
     CHR ''['' \<notin> set (lsrKey e) \<and> (\<forall>v \<in> set (lsrValues e). CHR '' '' \<notin> set v)"

definition wf_selector :: "labelSelector \<Rightarrow> bool" where
  "wf_selector s \<longleftrightarrow> wf_labels (matchLabels s) \<and> distinct (matchExpressions s) \<and>
     (\<forall>e \<in> set (matchExpressions s). wf_requirement e)"

definition selector_view :: "labelSelector \<Rightarrow> string_map \<times> labelSelectorRequirement set" where
  "selector_view s = (matchLabels s, set (matchExpressions s))"

lemma exprKey_inject:
  assumes "wf_requirement e" and "wf_requirement e'" and "exprKey e = exprKey e'"
  shows "e = e'"
proof -
  let ?p = "\<lambda>e. lsrKey e @ ''-'' @ lsrOperator e @ ''-''" and ?v = "\<lambda>e. strings_Join (lsrValues e) '' ''"
  have split: "exprKey e = ?p e @ CHR ''['' # (?v e @ '']'')" for e
    by (simp add: exprKey_def sprint_strings_def)
  have nb: "CHR ''['' \<notin> set (?p e)" if "wf_requirement e" for e
    using that by (auto simp: wf_requirement_def)
  have nd: "CHR ''-'' \<notin> set (rev (lsrOperator e))" if "wf_requirement e" for e
    using that by (auto simp: wf_requirement_def)
  have "?p e @ CHR ''['' # (?v e @ '']'') = ?p e' @ CHR ''['' # (?v e' @ '']'')"
    using assms(3) unfolding split .
  from append_sep_inject[OF nb[OF assms(1)] nb[OF assms(2)] this]
  have p: "?p e = ?p e'" and v: "?v e = ?v e'" by simp_all
  from p have "rev (lsrOperator e) @ CHR ''-'' # rev (lsrKey e) = rev (lsrOperator e') @ CHR ''-'' # rev (lsrKey e')"
    using arg_cong[of "?p e" "?p e'" rev] by simp
  with append_sep_inject[OF nd[OF assms(1)] nd[OF assms(2)]]
  have ko: "lsrOperator e = lsrOperator e'" "lsrKey e = lsrKey e'" by auto
  have "lsrValues e = lsrValues e'"
  proof (cases "lsrValues e = []")
    case True
    with ko(1) assms(1,2) show ?thesis by (auto simp: wf_requirement_def)
  next
    case False
    with ko(1) assms(1,2) have "lsrValues e' \<noteq> []" by (auto simp: wf_requirement_def)
    moreover have "\<forall>x \<in> set (lsrValues e) \<union> set (lsrValues e'). CHR '' '' \<notin> set x"
      using assms(1,2) by (auto simp: wf_requirement_def)
    ultimately show ?thesis using False v by (intro strings_Join_sep_inject)
  qed
  with ko show ?thesis by simp
qed

lemma early_return: "(if \<not> A then True else if B then True else C) \<longleftrightarrow> \<not> A \<or> B \<or> C"
  by simp

lemma nodeSelectorChanged_eq:
  "nodeSelectorChanged c p \<longleftrightarrow> \<not> stringMapEqual (matchLabels c) (matchLabels p) \<or>
     length (matchExpressions c) \<noteq> length (matchExpressions p) \<or>
     \<not> exprKey ` set (matchExpressions c) \<subseteq> exprKey ` set (matchExpressions p)"
proof -
  let ?M = "\<lambda>es. fill_map exprKey (\<lambda>e. e) es fmempty"
  have dom: "fmlookup (?M es) k = None \<longleftrightarrow> k \<notin> exprKey ` set es" for es k
    using fill_map_dom[of exprKey "\<lambda>e. e" es fmempty k] by auto
  then have mem: "k |\<in>| fmdom (?M es) \<longleftrightarrow> k \<in> exprKey ` set es" for es k
    by (metis fmdom_notD fmdom_notI)
  have *: "fBex (fmdom (?M cs)) (\<lambda>k. fmlookup (?M ps) k = None) \<longleftrightarrow> \<not> exprKey ` set cs \<subseteq> exprKey ` set ps" for cs ps
    unfolding dom subset_eq using mem[of _ cs] by (blast intro: fBexI elim: fBexE)
  show ?thesis unfolding nodeSelectorChanged_def Let_def * by (rule early_return)
qed

interpretation selectors: change_detector "\<lambda>c p. \<not> nodeSelectorChanged c p" selector_view wf_selector
proof unfold_locales
  fix c p
  assume wf: "wf_selector c" "wf_selector p"
  let ?C = "set (matchExpressions c)" and ?P = "set (matchExpressions p)"
  have inj: "inj_on exprKey (?C \<union> ?P)"
    using wf by (intro inj_onI) (auto simp: wf_selector_def intro: exprKey_inject)
  have len: "length (matchExpressions c) = card ?C" "length (matchExpressions p) = card ?P"
    using wf by (simp_all add: wf_selector_def distinct_card)
  have lab: "stringMapEqual (matchLabels c) (matchLabels p) \<longleftrightarrow> matchLabels c = matchLabels p"
    using wf by (simp add: selector_labels.same_iff wf_selector_def)
  {
    assume "selector_view c = selector_view p"
    then have eq: "matchLabels c = matchLabels p" "?C = ?P" by (simp_all add: selector_view_def)
    with lab have "stringMapEqual (matchLabels c) (matchLabels p)" by simp
    with eq(2) len show "\<not> nodeSelectorChanged c p" by (simp add: nodeSelectorChanged_eq)
  }
  {
    assume "\<not> nodeSelectorChanged c p"
    then have "matchLabels c = matchLabels p" "card ?C = card ?P" "exprKey ` ?C \<subseteq> exprKey ` ?P"
      by (simp_all add: nodeSelectorChanged_eq lab len)
    moreover have "?C \<subseteq> ?P"
    proof
      fix x assume "x \<in> ?C"
      with \<open>exprKey ` ?C \<subseteq> exprKey ` ?P\<close> obtain y where "y \<in> ?P" "exprKey x = exprKey y" by auto
      with inj \<open>x \<in> ?C\<close> show "x \<in> ?P" by (metis UnI1 UnI2 inj_on_contraD)
    qed
    ultimately show "selector_view c = selector_view p"
      by (simp add: selector_view_def card_subset_eq)
  }
qed

subsection \<open>Properties\<close>

text \<open>
  C21: Between nodes with one condition per type, one taint per key and effect, no empty label value and no
  taint key that ends in \<open>Prefer\<close>, the update predicate lets an event through exactly when the status of
  some condition type, the value of some taint or a label differs: heartbeats, transition times, reasons,
  messages, annotations and resource versions then never trigger a reconcile. With an empty label value or
  such a taint key changes can be missed, as the lemmas after the properties show.
\<close>

theorem nodeUpdateFunc_exact:
  assumes "wf_node old" and "wf_node new"
  shows "nodeUpdateFunc old new \<longleftrightarrow>
    (\<exists>ty. map_option condStatus (find_key condType ty (nodeConditions old)) \<noteq>
       map_option condStatus (find_key condType ty (nodeConditions new))) \<or>
    (\<exists>i. map_option taintValue (find_key taint_id i (nodeTaints old)) \<noteq>
       map_option taintValue (find_key taint_id i (nodeTaints new))) \<or>
    nodeLabels old \<noteq> nodeLabels new"
  by (simp add: nodeUpdateFunc_iff[OF assms] node_view_def condition_view_def taint_view_def fun_eq_iff)

lemmas wf_node_defs = wf_node_def wf_conditions_def wf_taints_def wf_labels_def taint_effects_def

theorem nodeUpdateFunc_exact_witness:
  "nodeUpdateFunc (worker ''w1'' ''False'' [disk_taint]) (worker ''w1'' ''True'' [disk_taint])"
proof -
  let ?a = "worker ''w1'' ''False'' [disk_taint]" and ?b = "worker ''w1'' ''True'' [disk_taint]"
  have "wf_node ?a" "wf_node ?b"
    by (auto simp: wf_node_defs sample_defs suffix_def fmpred_iff split: if_splits)
  note iff = nodeUpdateFunc_exact[OF this]
  have "map_option condStatus (find_key condType ''CalicoReady'' (nodeConditions ?a)) \<noteq>
      map_option condStatus (find_key condType ''CalicoReady'' (nodeConditions ?b))"
    by (simp add: sample_defs)
  then show ?thesis unfolding iff by blast
qed

text \<open>
  C22: Between selectors without empty label values, in which no expression occurs twice and each has values
  as its operator asks for, with no bracket in a key and no blank in a value, a rule counts as having a
  changed selector exactly when its labels or its set of expressions changed; reordering the expressions is
  then not a change. With an empty value or a repeated expression changes can be missed, as shown below.
\<close>

theorem nodeSelectorChanged_exact:
  assumes "wf_selector current" and "wf_selector previous"
  shows "nodeSelectorChanged current previous \<longleftrightarrow>
    matchLabels current \<noteq> matchLabels previous \<or>
    set (matchExpressions current) \<noteq> set (matchExpressions previous)"
  using selectors.same_iff[OF assms] by (auto simp: selector_view_def)

theorem nodeSelectorChanged_exact_witness:
  "\<not> nodeSelectorChanged
     \<lparr>matchLabels = fmempty, matchExpressions = [\<lparr>lsrKey = ''a'', lsrOperator = ''Exists'', lsrValues = []\<rparr>,
        \<lparr>lsrKey = ''b'', lsrOperator = ''In'', lsrValues = [''x'', ''y'']\<rparr>]\<rparr>
     \<lparr>matchLabels = fmempty, matchExpressions = [\<lparr>lsrKey = ''b'', lsrOperator = ''In'', lsrValues = [''x'', ''y'']\<rparr>,
        \<lparr>lsrKey = ''a'', lsrOperator = ''Exists'', lsrValues = []\<rparr>]\<rparr>"
  (is "\<not> nodeSelectorChanged ?c ?p")
proof -
  have "wf_selector ?c" "wf_selector ?p" by (auto simp: wf_selector_def wf_requirement_def wf_labels_def)
  from nodeSelectorChanged_exact[OF this] show ?thesis by auto
qed

text \<open>
  Replacing a label that has an empty value by another label with an empty value is not noticed: the
  lookup of the missing key answers the empty string, as for the label that is there.
\<close>

lemma empty_label_swap_missed:
  assumes "wf_conditions (nodeConditions n)" and "wf_taints (nodeTaints n)"
    and "fmlookup m k = None" and "fmlookup m k' = None"
  shows "\<not> nodeUpdateFunc (n\<lparr>nodeLabels := fmupd k [] m\<rparr>) (n\<lparr>nodeLabels := fmupd k' [] m\<rparr>)"
proof -
  have "labelsEqual (fmupd k [] m) (fmupd k' [] m)"
    using assms(3,4) by (auto simp: labelsEqual_def fmpred_iff go_index_def split: option.split)
  then show ?thesis
    using conds.same_refl[OF assms(1)] taints.same_refl[OF assms(2)] by (simp add: nodeUpdateFunc_def)
qed

lemma empty_label_swap_missed_witness:
  "\<not> nodeUpdateFunc ((worker ''w1'' ''True'' [])\<lparr>nodeLabels := fmupd ''gpu'' [] fmempty\<rparr>)
     ((worker ''w1'' ''True'' [])\<lparr>nodeLabels := fmupd ''edge'' [] fmempty\<rparr>)"
  by (rule empty_label_swap_missed) (simp_all add: wf_node_defs sample_defs)

text \<open>
  A taint whose key lacks a final \<open>Prefer\<close> with the effect \<open>PreferNoSchedule\<close> and the taint
  with that longer key and the effect \<open>NoSchedule\<close> have the same map key, so replacing one by the
  other is not noticed.
\<close>

lemma taint_swap_missed:
  "taintsEqual [\<lparr>taintKey = k, taintValue = v, taintEffect = ''PreferNoSchedule'', timeAdded = t\<rparr>]
     [\<lparr>taintKey = k @ ''Prefer'', taintValue = v, taintEffect = ''NoSchedule'', timeAdded = t'\<rparr>]"
  by (simp add: taintsEqual_def taint_map_key_def)

text \<open>
  The expressions are compared in one direction only, so a selector in which one expression is
  repeated in the place of another one that was dropped counts as unchanged, although it matches more
  nodes than before.
\<close>

lemma dropped_expression_missed:
  "\<not> nodeSelectorChanged \<lparr>matchLabels = m, matchExpressions = [a, a]\<rparr>
     \<lparr>matchLabels = m, matchExpressions = [a, b]\<rparr>"
  by (simp add: nodeSelectorChanged_eq stringMapEqual_def fmpred_go_index_refl)

end
