(* ===== verification/Rule_Reconciler.thy ===== *)
theory Rule_Reconciler
  imports Cleanup Change_Detection
begin

text \<open>
  \<open>RuleReconciler.Reconcile\<close> and the two functions only it calls, \<open>processAllNodesForRule\<close> and
  \<open>updateRuleStatus\<close> (\<open>internal/controller/nodereadinessrule_controller.go\<close>). The handler is split
  into its sections in the order of the source: fetch, deletion, finalizer, selector change, and the
  processing that follows the cache update. Every section returns what the handler would return, the
  controller state and the world.
\<close>

subsection \<open>processAllNodesForRule\<close>

text \<open>
  An evaluation whose error is recorded as a failure of the node; both reconcilers go on with the
  next node or rule after it.
\<close>

definition evaluateOrRecord :: "'w env \<Rightarrow> nodeReadinessRule \<Rightarrow> node \<Rightarrow> 'w \<Rightarrow> nodeReadinessRule \<times> node \<times> 'w" where
  "evaluateOrRecord env rule n w =
     (case evaluateRuleForNode env rule n w of
        (None, rule', n', w') \<Rightarrow> (rule', n', w')
      | (Some e, rule', n', w') \<Rightarrow>
          (case recordNodeFailure env rule' (nodeName n') ''EvaluationError'' (errorString e) w' of
             (rule'', w'') \<Rightarrow> (rule'', n', w'')))"

fun processAllNodesLoop :: "'w env \<Rightarrow> nodeReadinessRule \<Rightarrow> node list \<Rightarrow> string list \<Rightarrow> 'w \<Rightarrow>
    nodeReadinessRule \<times> string list \<times> 'w" where
  "processAllNodesLoop env rule [] applied w = (rule, applied, w)"
| "processAllNodesLoop env rule (n # ns) applied w =
     (if ruleAppliesTo env rule n then
        (let applied' = applied @ [nodeName n]
         in case evaluateOrRecord env rule n w of
              (rule', n', w') \<Rightarrow> processAllNodesLoop env rule' ns applied' w')
      else processAllNodesLoop env rule ns applied w)"

definition clearDryRun :: "nodeReadinessRule \<Rightarrow> nodeReadinessRule" where
  "clearDryRun rule = rule\<lparr>ruleStatus := (ruleStatus rule)\<lparr>dryRunOutcome := emptyDryRunResults\<rparr>\<rparr>"

definition processAllNodesForRule :: "'w env \<Rightarrow> nodeReadinessRule \<Rightarrow> 'w \<Rightarrow>
    goError option \<times> nodeReadinessRule \<times> 'w" where
  "processAllNodesForRule env rule w =
     (case listNodes env w of
        (Inl e, w') \<Rightarrow> (Some e, rule, w')
      | (Inr nodes, w') \<Rightarrow>
          (case processAllNodesLoop env rule nodes [] w' of (rule1, applied, w1) \<Rightarrow>
             let rule2 = rule1\<lparr>ruleStatus := (ruleStatus rule1)
                   \<lparr>observedGeneration := generation rule1, appliedNodes := applied\<rparr>\<rparr>;
                 rule3 = (if \<not> dryRun (ruleSpec rule2) then clearDryRun rule2 else rule2)
             in (None, rule3, w1)))"

subsection \<open>updateRuleStatus\<close>

definition updateStatusAttempt :: "'w env \<Rightarrow> nodeReadinessRule \<Rightarrow> 'w \<Rightarrow> goError option \<times> 'w" where
  "updateStatusAttempt env rule w =
     (case getRule env (ruleName rule) w of
        (Inl e, w') \<Rightarrow> (Some e, w')
      | (Inr latest, w') \<Rightarrow>
          statusUpdate env (latest\<lparr>ruleStatus := (ruleStatus latest)
            \<lparr>nodeEvaluations := nodeEvaluations (ruleStatus rule),
             appliedNodes := appliedNodes (ruleStatus rule),
             failedNodes := failedNodes (ruleStatus rule),
             observedGeneration := observedGeneration (ruleStatus rule),
             dryRunOutcome := dryRunOutcome (ruleStatus rule)\<rparr>\<rparr>) w')"

definition updateRuleStatus :: "'w env \<Rightarrow> nodeReadinessRule \<Rightarrow> 'w \<Rightarrow> goError option \<times> 'w" where
  "updateRuleStatus env rule w = retryOnConflict env (updateStatusAttempt env rule) w"

subsection \<open>Reconcile\<close>

type_synonym 'w outcome = "(ctrlResult \<times> goError option) \<times> controller \<times> 'w"

text \<open>Lines 96 to 117: a rule that is being deleted.\<close>

definition reconcileDeletion :: "'w env \<Rightarrow> controller \<Rightarrow> nodeReadinessRule \<Rightarrow> 'w \<Rightarrow> 'w outcome" where
  "reconcileDeletion env c rule w =
     (if containsFinalizer rule finalizerName then
        (case cleanupTaintsForRule env rule w of
           (Some e, w1) \<Rightarrow> ((requeueAfterMinute, Some e), c, w1)
         | (None, w1) \<Rightarrow>
             (case updateRule env (removeFinalizer rule finalizerName) w1 of
                (Inl e, w2) \<Rightarrow> ((emptyResult, Some e), c, w2)
              | (Inr rule', w2) \<Rightarrow> ((emptyResult, None), removeRuleFromCache c (ruleName rule'), w2)))
      else ((emptyResult, None), c, w))"

text \<open>Lines 119 to 133: the finalizer is added and the rule fetched again.\<close>

definition ensureFinalizer :: "'w env \<Rightarrow> string \<Rightarrow> nodeReadinessRule \<Rightarrow> 'w \<Rightarrow> (goError + nodeReadinessRule) \<times> 'w" where
  "ensureFinalizer env name rule w =
     (if \<not> containsFinalizer rule finalizerName then
        (case updateRule env (addFinalizer rule finalizerName) w of
           (Inl e, w1) \<Rightarrow> (Inl e, w1)
         | (Inr rule', w1) \<Rightarrow> getRule env name w1)
      else (Inr rule, w))"

text \<open>Lines 135 to 143: taints of nodes that only the cached selector matched.\<close>

definition reconcileSelectorChange :: "'w env \<Rightarrow> controller \<Rightarrow> nodeReadinessRule \<Rightarrow> 'w \<Rightarrow> goError option \<times> 'w" where
  "reconcileSelectorChange env c rule w =
     (case getCachedRule c (ruleName rule) of
        None \<Rightarrow> (None, w)
      | Some cachedRule \<Rightarrow>
          if nodeSelectorChanged (nodeSelector (ruleSpec rule)) (nodeSelector (ruleSpec cachedRule))
          then cleanupNodesAfterSelectorChange env cachedRule rule w else (None, w))"

text \<open>Lines 152 to 181: dry run or processing, then the status.\<close>

definition processRule :: "'w env \<Rightarrow> nodeReadinessRule \<Rightarrow> 'w \<Rightarrow> goError option \<times> nodeReadinessRule \<times> 'w" where
  "processRule env rule w =
     (if dryRun (ruleSpec rule) then processDryRun env rule w
      else processAllNodesForRule env (clearDryRun rule) w)"

definition reconcileProcessing :: "'w env \<Rightarrow> nodeReadinessRule \<Rightarrow> 'w \<Rightarrow> (ctrlResult \<times> goError option) \<times> 'w" where
  "reconcileProcessing env rule w =
     (case processRule env rule w of
        (Some e, rule1, w1) \<Rightarrow> ((requeueAfterMinute, Some e), w1)
      | (None, rule1, w1) \<Rightarrow>
          (case updateRuleStatus env rule1 w1 of
             (Some e, w2) \<Rightarrow> ((requeueAfterMinute, Some e), w2)
           | (None, w2) \<Rightarrow>
               (case cleanupDeletedNodes env rule1 w2 of
                  (Some e, w3) \<Rightarrow> ((requeueAfterMinute, Some e), w3)
                | (None, w3) \<Rightarrow> ((emptyResult, None), w3))))"

definition ruleReconcile :: "'w env \<Rightarrow> controller \<Rightarrow> string \<Rightarrow> 'w \<Rightarrow> 'w outcome" where
  "ruleReconcile env c name w =
     (case getRule env name w of
        (Inl e, w1) \<Rightarrow>
          if errorReason e = NotFound then ((emptyResult, None), removeRuleFromCache c name, w1)
          else ((emptyResult, Some e), c, w1)
      | (Inr rule0, w1) \<Rightarrow>
          if deletionTimestamp rule0 \<noteq> None then reconcileDeletion env c rule0 w1
          else (case ensureFinalizer env name rule0 w1 of
                  (Inl e, w2) \<Rightarrow> ((emptyResult, Some e), c, w2)
                | (Inr rule, w2) \<Rightarrow>
                    (case reconcileSelectorChange env c rule w2 of
                       (Some e, w3) \<Rightarrow> ((requeueAfterMinute, Some e), c, w3)
                     | (None, w3) \<Rightarrow>
                         (case reconcileProcessing env rule w3 of
                            (res, w4) \<Rightarrow> (res, updateRuleCache c rule, w4)))))"

subsection \<open>One node\<close>

text \<open>
  What processing a node comes to, under the taint contract: either the server's taints become the
  steered ones and the evaluation is recorded, or they stay and the failure is recorded.
\<close>

lemma evaluateOrRecord_same_rule:
  assumes "evaluateOrRecord env rule n w = (rule', n', w')"
  shows "same_rule rule rule'"
proof (cases "evaluateRuleForNode env rule n w")
  case (fields e r1 n1 w1)
  note s = evaluateRuleForNode_same_rule[OF fields]
  have "same_rule rule (r1\<lparr>ruleStatus := st\<rparr>)" for st using s by (simp add: same_rule_def)
  with assms s fields show ?thesis
    by (auto simp: evaluateOrRecord_def recordNodeFailure_eq split: option.splits)
qed

lemma evaluateOrRecord_wf:
  assumes "evaluateOrRecord env rule n w = (rule', n', w')" and "wf_status (ruleStatus rule)"
  shows "wf_status (ruleStatus rule')"
proof (cases "evaluateRuleForNode env rule n w")
  case (fields e r1 n1 w1)
  note wf = evaluateRuleForNode_wf[OF fields assms(2)]
  have "wf_status (ruleStatus (fst (recordNodeFailure env r1 nm rs msg v)))" for nm rs msg v
    by (rule recordNodeFailure_wf[OF wf])
  with assms(1) wf fields show ?thesis
    by (auto simp: evaluateOrRecord_def split: option.splits prod.splits) (metis fst_conv)
qed

definition settled :: "(string \<Rightarrow> taint list) \<Rightarrow> nodeReadinessRule \<Rightarrow> node \<Rightarrow> bool" where
  "settled after rule n \<longleftrightarrow>
     after (nodeName n) = nodeTaints (steered rule n) \<and>
     (\<exists>t. find_key evalNodeName (nodeName n) (nodeEvaluations (ruleStatus rule)) =
        Some (mkEvaluation (nodeName n) (map (conditionResult n) (conditions (ruleSpec rule)),
          (if wants_taint rule n then TaintStatusPresent else TaintStatusAbsent), t)))"

definition failed :: "(string \<Rightarrow> taint list) \<Rightarrow> nodeReadinessRule \<Rightarrow> node \<Rightarrow> bool" where
  "failed after rule n \<longleftrightarrow>
     after (nodeName n) = nodeTaints n \<and>
     (\<exists>f. find_key failNodeName (nodeName n) (failedNodes (ruleStatus rule)) = Some f \<and>
        failReason f = ''EvaluationError'')"

lemma steered_spec: "ruleSpec r = ruleSpec r' \<Longrightarrow> steered r n = steered r' n"
  by (simp add: steered_def wants_taint_def ready_def)

lemma wants_taint_spec: "ruleSpec r = ruleSpec r' \<Longrightarrow> wants_taint r n = wants_taint r' n"
  by (simp add: wants_taint_def ready_def)

lemma evaluateOrRecord_contract:
  assumes con: "taints_contract env tv" and run: "evaluateOrRecord env rule n w = (rule', n', w')"
    and cur: "tv w (nodeName n) = nodeTaints n"
  shows "settled (tv w') rule' n \<or> failed (tv w') rule' n"
    and "\<And>k. k \<noteq> nodeName n \<Longrightarrow> tv w' k = tv w k"
    and "\<And>k. k \<noteq> nodeName n \<Longrightarrow> find_key evalNodeName k (nodeEvaluations (ruleStatus rule')) =
           find_key evalNodeName k (nodeEvaluations (ruleStatus rule)) \<and>
         find_key failNodeName k (failedNodes (ruleStatus rule')) =
           find_key failNodeName k (failedNodes (ruleStatus rule))"
    and "nodeName n' = nodeName n" "nodeTaints n' = nodeTaints (steered rule n)"
proof -
  obtain e r1 n1 w1 where ev: "evaluateRuleForNode env rule n w = (e, r1, n1, w1)"
    by (cases "evaluateRuleForNode env rule n w")
  note c = evaluateRuleForNode_contract[OF con ev cur]
  have "(settled (tv w') rule' n \<or> failed (tv w') rule' n) \<and> (\<forall>k. k \<noteq> nodeName n \<longrightarrow> tv w' k = tv w k \<and>
     find_key evalNodeName k (nodeEvaluations (ruleStatus rule')) = find_key evalNodeName k (nodeEvaluations (ruleStatus rule)) \<and>
     find_key failNodeName k (failedNodes (ruleStatus rule')) = find_key failNodeName k (failedNodes (ruleStatus rule))) \<and>
     n' = n1"
  proof (cases e)
    case None
    with run ev have r: "rule' = r1" "w' = w1" "n' = n1" by (auto simp: evaluateOrRecord_def)
    from c(5)[OF None] obtain t where t: "rule' = evaluated rule n t" using r by auto
    have spec: "ruleSpec rule' = ruleSpec rule" by (simp add: t evaluated_def)
    have fail: "failedNodes (ruleStatus rule') = failedNodes (ruleStatus rule)" by (simp add: t evaluated_def)
    have "settled (tv w') rule' n"
      unfolding settled_def steered_spec[OF spec] wants_taint_spec[OF spec] spec
      unfolding t evaluated_find using c(3)[OF None] r by simp blast
    moreover have "find_key evalNodeName k (nodeEvaluations (ruleStatus rule')) =
      find_key evalNodeName k (nodeEvaluations (ruleStatus rule))" if "k \<noteq> nodeName n" for k
      using that by (simp add: t evaluated_find)
    ultimately show ?thesis using c(3)[OF None] r fail by simp
  next
    case (Some x)
    from evaluateRuleForNode_error[OF ev[unfolded Some]] have e: "r1 = rule" "n1 = steered rule n" by simp_all
    let ?f = "recordNodeFailure env rule (nodeName n) ''EvaluationError'' (errorString x) w1"
    from run ev Some e have r: "rule' = fst ?f" "w' = snd ?f" "n' = n1"
      by (simp_all add: evaluateOrRecord_def split: prod.splits)
    have tv: "tv w' = tv w" using c(4) Some r(2) clock_keeps[OF con] by (simp add: recordNodeFailure_eq)
    have "failed (tv w') rule' n"
      unfolding failed_def tv using cur
      by (simp add: r(1) recordNodeFailure_find mkFailure_def)
    moreover have "find_key failNodeName k (failedNodes (ruleStatus rule')) =
      find_key failNodeName k (failedNodes (ruleStatus rule))" if "k \<noteq> nodeName n" for k
      using that by (simp add: r(1) recordNodeFailure_find)
    moreover have "nodeEvaluations (ruleStatus rule') = nodeEvaluations (ruleStatus rule)"
      by (simp add: r(1) recordNodeFailure_eq)
    ultimately show ?thesis using tv r(3) by simp
  qed
  then show "settled (tv w') rule' n \<or> failed (tv w') rule' n"
    and "\<And>k. k \<noteq> nodeName n \<Longrightarrow> tv w' k = tv w k"
    and "\<And>k. k \<noteq> nodeName n \<Longrightarrow> find_key evalNodeName k (nodeEvaluations (ruleStatus rule')) =
           find_key evalNodeName k (nodeEvaluations (ruleStatus rule)) \<and>
         find_key failNodeName k (failedNodes (ruleStatus rule')) =
           find_key failNodeName k (failedNodes (ruleStatus rule))"
    and "nodeName n' = nodeName n" "nodeTaints n' = nodeTaints (steered rule n)"
    using c(1,2) by blast+
qed

subsection \<open>All nodes\<close>

lemma ruleAppliesTo_spec: "ruleSpec r = ruleSpec r' \<Longrightarrow> ruleAppliesTo env r = ruleAppliesTo env r'"
  by (simp add: fun_eq_iff ruleAppliesTo_def)

lemma processAllNodesLoop_same_rule:
  "processAllNodesLoop env rule ns applied w = (rule', applied', w') \<Longrightarrow> same_rule rule rule'"
  by (induction ns arbitrary: rule applied w)
    (auto simp: Let_def split: if_splits prod.splits dest!: evaluateOrRecord_same_rule intro: same_rule_trans)

lemma processAllNodesLoop_wf:
  "processAllNodesLoop env rule ns applied w = (rule', applied', w') \<Longrightarrow> wf_status (ruleStatus rule) \<Longrightarrow>
   wf_status (ruleStatus rule')"
  by (induction ns arbitrary: rule applied w)
    (auto simp: Let_def split: if_splits prod.splits dest: evaluateOrRecord_wf)

lemma processAllNodesLoop_applied:
  "processAllNodesLoop env rule ns applied w = (rule', applied', w') \<Longrightarrow>
   applied' = applied @ map nodeName (filter (ruleAppliesTo env rule) ns)"
proof (induction ns arbitrary: rule applied w)
  case Nil
  then show ?case by simp
next
  case (Cons n ns)
  obtain r1 n1 w1 where ev: "evaluateOrRecord env rule n w = (r1, n1, w1)"
    by (cases "evaluateOrRecord env rule n w")
  have app: "ruleAppliesTo env r1 = ruleAppliesTo env rule"
    using evaluateOrRecord_same_rule[OF ev] by (intro ruleAppliesTo_spec) (simp add: same_rule_def)
  show ?case
  proof (cases "ruleAppliesTo env rule n")
    case False
    with Cons show ?thesis by simp
  next
    case True
    with Cons.prems ev have "processAllNodesLoop env r1 ns (applied @ [nodeName n]) w1 = (rule', applied', w')"
      by (simp add: Let_def)
    from Cons.IH[OF this] True app show ?thesis by simp
  qed
qed

text \<open>The two outcomes of a node only look at what is stored under its name.\<close>

definition outcome :: "(string \<Rightarrow> taint list) \<Rightarrow> nodeReadinessRule \<Rightarrow> node \<Rightarrow> bool" where
  "outcome after rule n \<longleftrightarrow> settled after rule n \<or> failed after rule n"

definition same_entries :: "string \<Rightarrow> nodeReadinessRule \<Rightarrow> nodeReadinessRule \<Rightarrow> bool" where
  "same_entries k r r' \<longleftrightarrow>
     find_key evalNodeName k (nodeEvaluations (ruleStatus r')) = find_key evalNodeName k (nodeEvaluations (ruleStatus r)) \<and>
     find_key failNodeName k (failedNodes (ruleStatus r')) = find_key failNodeName k (failedNodes (ruleStatus r))"

lemma outcome_frame:
  assumes "ruleSpec r' = ruleSpec r" and "same_entries (nodeName n) r r'"
    and "after' (nodeName n) = after (nodeName n)"
  shows "outcome after' r' n = outcome after r n"
  unfolding outcome_def settled_def failed_def assms(1,3) steered_spec[OF assms(1)] wants_taint_spec[OF assms(1)]
  using assms(2) by (simp add: same_entries_def)

lemma processAllNodesLoop_contract:
  assumes "taints_contract env tv" and "processAllNodesLoop env rule ns applied w = (rule', applied', w')"
    and "distinct (map nodeName ns)" and "\<forall>n \<in> set ns. tv w (nodeName n) = nodeTaints n"
  shows "(\<forall>n \<in> set ns. ruleAppliesTo env rule n \<longrightarrow> outcome (tv w') rule' n) \<and>
    (\<forall>k. k \<notin> nodeName ` {n \<in> set ns. ruleAppliesTo env rule n} \<longrightarrow> tv w' k = tv w k \<and> same_entries k rule rule')"
  using assms(2-4)
proof (induction ns arbitrary: rule applied w)
  case Nil
  then show ?case by (simp add: same_entries_def)
next
  case (Cons n ns)
  have fresh: "nodeName n \<notin> nodeName ` set ns" "distinct (map nodeName ns)" using Cons.prems(2) by simp_all
  have cur: "tv w (nodeName n) = nodeTaints n" "\<forall>m \<in> set ns. tv w (nodeName m) = nodeTaints m"
    using Cons.prems(3) by simp_all
  show ?case
  proof (cases "ruleAppliesTo env rule n")
    case False
    with Cons.prems(1) have "processAllNodesLoop env rule ns applied w = (rule', applied', w')" by simp
    from Cons.IH[OF this fresh(2) cur(2)] False show ?thesis by auto
  next
    case True
    obtain r1 n1 w1 where ev: "evaluateOrRecord env rule n w = (r1, n1, w1)"
      by (cases "evaluateOrRecord env rule n w")
    note one = evaluateOrRecord_contract[OF assms(1) ev cur(1)]
    have spec: "ruleSpec r1 = ruleSpec rule" using evaluateOrRecord_same_rule[OF ev] by (simp add: same_rule_def)
    note app = ruleAppliesTo_spec[OF spec]
    have run: "processAllNodesLoop env r1 ns (applied @ [nodeName n]) w1 = (rule', applied', w')"
      using Cons.prems(1) True ev by (simp add: Let_def)
    have cur1: "\<forall>m \<in> set ns. tv w1 (nodeName m) = nodeTaints m"
    proof
      fix m assume m: "m \<in> set ns"
      with fresh(1) have "nodeName m \<noteq> nodeName n" by (metis image_eqI)
      with one(2) cur(2) m show "tv w1 (nodeName m) = nodeTaints m" by simp
    qed
    note IH = Cons.IH[OF run fresh(2) cur1, unfolded app]
    have spec': "ruleSpec rule' = ruleSpec r1"
      using processAllNodesLoop_same_rule[OF run] by (simp add: same_rule_def)
    have "nodeName n \<notin> nodeName ` {m \<in> set ns. ruleAppliesTo env rule m}" using fresh(1) by blast
    with IH have "tv w' (nodeName n) = tv w1 (nodeName n)" "same_entries (nodeName n) r1 rule'" by blast+
    with one(1) outcome_frame[OF spec', of n "tv w'" "tv w1"] have "outcome (tv w') rule' n"
      by (simp add: outcome_def)
    moreover have "tv w' k = tv w k \<and> same_entries k rule rule'"
      if "k \<notin> nodeName ` {m \<in> set (n # ns). ruleAppliesTo env rule m}" for k
    proof -
      from that True have "k \<noteq> nodeName n" "k \<notin> nodeName ` {m \<in> set ns. ruleAppliesTo env rule m}" by auto
      with IH one(2,3)[of k] show ?thesis by (auto simp: same_entries_def)
    qed
    ultimately show ?thesis using IH by auto
  qed
qed

subsection \<open>Nodes that need nothing\<close>

lemma evaluateOrRecord_idle:
  assumes "\<not> needs_action rule n"
  shows "evaluateOrRecord env rule n w = (evaluated rule n (fst (clockNow env w)), n, snd (clockNow env w))"
  unfolding evaluateOrRecord_def evaluateRuleForNode_idle[OF assms] by simp

lemma evaluated_spec [simp]: "ruleSpec (evaluated rule n t) = ruleSpec rule"
  by (simp add: evaluated_def)

lemma needs_action_spec: "ruleSpec r = ruleSpec r' \<Longrightarrow> needs_action r n = needs_action r' n"
  by (simp add: needs_action_def wants_taint_def ready_def)

lemma processAllNodesLoop_quiet:
  assumes "read_only env I" and "I w" and "\<forall>n \<in> set ns. ruleAppliesTo env rule n \<longrightarrow> \<not> needs_action rule n"
    and "processAllNodesLoop env rule ns applied w = (rule', applied', w')"
  shows "I w'"
  using assms(2-4)
proof (induction ns arbitrary: rule applied w)
  case Nil
  then show ?case by simp
next
  case (Cons n ns)
  show ?case
  proof (cases "ruleAppliesTo env rule n")
    case False
    with Cons show ?thesis by simp
  next
    case True
    let ?r = "evaluated rule n (fst (clockNow env w))" and ?w = "snd (clockNow env w)"
    have spec: "ruleSpec ?r = ruleSpec rule" by simp
    from Cons.prems(2) True have idle: "\<not> needs_action rule n" by simp
    with Cons.prems(3) True have run: "processAllNodesLoop env ?r ns (applied @ [nodeName n]) ?w = (rule', applied', w')"
      by (simp add: evaluateOrRecord_idle Let_def)
    have "I ?w" by (rule read_onlyD(5)[OF assms(1) Cons.prems(1)]) (rule surjective_pairing)
    moreover have "\<forall>m \<in> set ns. ruleAppliesTo env ?r m \<longrightarrow> \<not> needs_action ?r m"
      using Cons.prems(2) unfolding ruleAppliesTo_spec[OF spec] needs_action_spec[OF spec] by simp
    ultimately show ?thesis using run by (rule Cons.IH)
  qed
qed

subsection \<open>The outcome of processing\<close>

lemma processAllNodesForRule_run:
  assumes "processAllNodesForRule env rule w = (e, rule', w')" and "listNodes env w = (Inr ns, w1)"
  obtains rule1 applied where "processAllNodesLoop env rule ns [] w1 = (rule1, applied, w')" and "e = None"
    and "ruleStatus rule' = (ruleStatus rule1)\<lparr>observedGeneration := generation rule1, appliedNodes := applied,
      dryRunOutcome := (if dryRun (ruleSpec rule1) then dryRunOutcome (ruleStatus rule1) else emptyDryRunResults)\<rparr>"
    and "same_rule rule1 rule'"
proof -
  obtain rule1 applied v where run: "processAllNodesLoop env rule ns [] w1 = (rule1, applied, v)"
    by (cases "processAllNodesLoop env rule ns [] w1")
  with assms show ?thesis
    by (intro that[of rule1 applied])
      (auto simp: processAllNodesForRule_def Let_def clearDryRun_def same_rule_def split: if_splits)
qed

lemma processAllNodesForRule_failed_list:
  "listNodes env w = (Inl x, w1) \<Longrightarrow> processAllNodesForRule env rule w = (Some x, rule, w1)"
  by (simp add: processAllNodesForRule_def)

lemma processAllNodesForRule_same_rule:
  assumes "processAllNodesForRule env rule w = (e, rule', w')"
  shows "same_rule rule rule'"
proof (cases "fst (listNodes env w)")
  case (Inl x)
  with assms processAllNodesForRule_failed_list[of env w x] show ?thesis
    by (metis old.prod.inject prod.collapse same_rule_refl)
next
  case (Inr ns)
  then have l: "listNodes env w = (Inr ns, snd (listNodes env w))" by (simp add: prod_eq_iff)
  show ?thesis
    by (rule processAllNodesForRule_run[OF assms l]) (metis processAllNodesLoop_same_rule same_rule_trans)
qed

lemma processAllNodesForRule_wf:
  assumes "processAllNodesForRule env rule w = (e, rule', w')" and "wf_status (ruleStatus rule)"
  shows "wf_status (ruleStatus rule')"
proof (cases "fst (listNodes env w)")
  case (Inl x)
  with assms processAllNodesForRule_failed_list[of env w x] show ?thesis
    by (metis old.prod.inject prod.collapse)
next
  case (Inr ns)
  then have l: "listNodes env w = (Inr ns, snd (listNodes env w))" by (simp add: prod_eq_iff)
  show ?thesis
  proof (rule processAllNodesForRule_run[OF assms(1) l])
    fix rule1 applied
    assume "processAllNodesLoop env rule ns [] (snd (listNodes env w)) = (rule1, applied, w')"
    from processAllNodesLoop_wf[OF this assms(2)] have "wf_status (ruleStatus rule1)" .
    moreover assume "ruleStatus rule' = (ruleStatus rule1)\<lparr>observedGeneration := generation rule1, appliedNodes := applied,
      dryRunOutcome := (if dryRun (ruleSpec rule1) then dryRunOutcome (ruleStatus rule1) else emptyDryRunResults)\<rparr>"
    ultimately show ?thesis by (simp add: wf_status_def)
  qed
qed

lemma processAllNodesForRule_contract:
  assumes "taints_contract env tv" and "list_contract env tv" and "listNodes env w = (Inr ns, w1)"
    and "processAllNodesForRule env rule w = (e, rule', w')"
  shows "e = None" and "observedGeneration (ruleStatus rule') = generation rule"
    and "appliedNodes (ruleStatus rule') = map nodeName (filter (ruleAppliesTo env rule) ns)"
    and "n \<in> set ns \<Longrightarrow> ruleAppliesTo env rule n \<Longrightarrow> outcome (tv w') rule' n"
    and "k \<notin> nodeName ` {n \<in> set ns. ruleAppliesTo env rule n} \<Longrightarrow> tv w' k = tv w k"
    and "ruleSpec rule' = ruleSpec rule" and "\<forall>n \<in> set ns. tv w (nodeName n) = nodeTaints n"
    and "distinct (map nodeName ns)"
proof -
  obtain rule1 applied where run: "processAllNodesLoop env rule ns [] w1 = (rule1, applied, w')" and e: "e = None"
    and st: "ruleStatus rule' = (ruleStatus rule1)\<lparr>observedGeneration := generation rule1, appliedNodes := applied,
      dryRunOutcome := (if dryRun (ruleSpec rule1) then dryRunOutcome (ruleStatus rule1) else emptyDryRunResults)\<rparr>"
    and r1: "same_rule rule1 rule'"
    using processAllNodesForRule_run[OF assms(4,3)] by blast
  have same: "tv w1 = tv w" by (rule keepsD[OF taints_contractD(8)[OF assms(1)] assms(3)])
  have l: "distinct (map nodeName ns)" "\<forall>n \<in> set ns. tv w (nodeName n) = nodeTaints n"
    using assms(2,3) by (auto simp: list_contract_def)
  note loop = processAllNodesLoop_contract[OF assms(1) run l(1), unfolded same, OF l(2)]
  note s = processAllNodesLoop_same_rule[OF run]
  have "ruleSpec rule1 = ruleSpec rule'" using r1 by (simp add: same_rule_def)
  then have out: "outcome (tv w') rule' m = outcome (tv w') rule1 m" for m
    by (intro outcome_frame) (simp_all add: same_entries_def st)
  show "e = None" by (rule e)
  show "observedGeneration (ruleStatus rule') = generation rule" using s st by (simp add: same_rule_def)
  show "appliedNodes (ruleStatus rule') = map nodeName (filter (ruleAppliesTo env rule) ns)"
    using processAllNodesLoop_applied[OF run] st by simp
  show "n \<in> set ns \<Longrightarrow> ruleAppliesTo env rule n \<Longrightarrow> outcome (tv w') rule' n" using loop out by blast
  show "k \<notin> nodeName ` {n \<in> set ns. ruleAppliesTo env rule n} \<Longrightarrow> tv w' k = tv w k" using loop by blast
  show "ruleSpec rule' = ruleSpec rule" using r1 s by (simp add: same_rule_def)
  show "\<forall>n \<in> set ns. tv w (nodeName n) = nodeTaints n" by (rule l(2))
  show "distinct (map nodeName ns)" by (rule l(1))
qed

subsection \<open>What is published\<close>

lemma updateStatusAttempt_stores:
  assumes "status_contract env sv" and "updateStatusAttempt env rule w = (None, w')"
  shows "sv w' (ruleName rule) = Some (ruleStatus rule)"
proof -
  obtain r v where g: "getRule env (ruleName rule) w = (r, v)" by (cases "getRule env (ruleName rule) w")
  with assms(2) obtain latest where r: "r = Inr latest" by (cases r) (auto simp: updateStatusAttempt_def)
  with g status_contractD(2)[OF assms(1)] have name: "ruleName latest = ruleName rule" by blast
  have whole: "st\<lparr>nodeEvaluations := nodeEvaluations st', appliedNodes := appliedNodes st', failedNodes := failedNodes st',
      observedGeneration := observedGeneration st', dryRunOutcome := dryRunOutcome st'\<rparr> = st'"
    for st st' :: nodeReadinessRuleStatus
    by (rule nodeReadinessRuleStatus.equality) simp_all
  from assms(2) g r have "statusUpdate env (latest\<lparr>ruleStatus := ruleStatus rule\<rparr>) v = (None, w')"
    by (simp add: updateStatusAttempt_def whole)
  from status_contractD(3)[OF assms(1) this] name show ?thesis by simp
qed

lemma updateRuleStatus_stores:
  assumes "status_contract env sv" and "updateRuleStatus env rule w = (None, w')"
  shows "sv w' (ruleName rule) = Some (ruleStatus rule)"
  by (rule retry_success[where I = "\<lambda>_. True", OF status_contractD(1)[OF assms(1)]
        assms(2)[unfolded updateRuleStatus_def]])
    (use updateStatusAttempt_stores[OF assms(1)] in auto)

lemma processRule_same_rule: "processRule env rule w = (e, rule', w') \<Longrightarrow> same_rule rule rule'"
  by (auto simp: processRule_def clearDryRun_def split: if_splits
      dest: processDryRun_same_rule processAllNodesForRule_same_rule intro: same_rule_trans[OF same_rule_status])

lemma reconcileProcessing_publishes:
  assumes con: "status_contract env sv" and run: "reconcileProcessing env rule w = ((res, None), w')"
  shows "\<exists>rule1 w1 w2 nodes w3. processRule env rule w = (None, rule1, w1) \<and> updateRuleStatus env rule1 w1 = (None, w2) \<and>
    listNodes env w2 = (Inr nodes, w3) \<and> res = emptyResult \<and>
    sv w' (ruleName rule) = Some (prune nodes (ruleStatus rule1))"
proof -
  obtain rule1 w1 w2 where proc: "processRule env rule w = (None, rule1, w1)"
    and upd: "updateRuleStatus env rule1 w1 = (None, w2)"
    and del: "cleanupDeletedNodes env rule1 w2 = (None, w')" and res: "res = emptyResult"
    using run by (auto simp: reconcileProcessing_def split: prod.splits option.splits)
  have name: "ruleName rule1 = ruleName rule"
    using processRule_same_rule[OF proc] by (simp add: same_rule_def)
  from cleanupDeletedNodes_own[OF con del updateRuleStatus_stores[OF con upd]] proc upd res
  show ?thesis unfolding name by blast
qed

subsection \<open>Sections of Reconcile\<close>

text \<open>A rule that is not being deleted, carries the finalizer and is not in the cache goes straight to processing.\<close>

lemma ruleReconcile_fresh:
  assumes "getRule env name w = (Inr rule, w1)" and "deletionTimestamp rule = None"
    and "containsFinalizer rule finalizerName" and "getCachedRule c (ruleName rule) = None"
  shows "ruleReconcile env c name w =
    (fst (reconcileProcessing env rule w1), updateRuleCache c rule, snd (reconcileProcessing env rule w1))"
  using assms by (simp add: ruleReconcile_def ensureFinalizer_def reconcileSelectorChange_def split: prod.split)

lemma ensureFinalizer_got:
  assumes "ensureFinalizer env name rule w = (Inr rule', w')" and "getRule env name v = (Inr rule, v')"
  shows "\<exists>u u'. getRule env name u = (Inr rule', u')"
  using assms by (auto simp: ensureFinalizer_def split: if_splits prod.splits sum.splits)

lemma ruleReconcile_deleting:
  assumes "getRule env name w = (Inr rule, w1)" and "deletionTimestamp rule \<noteq> None"
  shows "ruleReconcile env c name w = reconcileDeletion env c rule w1"
  using assms by (simp add: ruleReconcile_def)

lemma reconcileDeletion_ok:
  assumes "reconcileDeletion env c rule w = ((res, None), c', w')" and "containsFinalizer rule finalizerName"
  obtains w1 rule' where "cleanupTaintsForRule env rule w = (None, w1)"
    and "updateRule env (removeFinalizer rule finalizerName) w1 = (Inr rule', w')"
    and "c' = removeRuleFromCache c (ruleName rule')" and "res = emptyResult"
  using assms by (auto simp: reconcileDeletion_def split: prod.splits option.splits sum.splits)

subsection \<open>Properties\<close>

text \<open>
  C2: Processing a rule reaches every listed node it applies to: its taint is on the server's node exactly
  when some condition is not met, the node's other taints are kept, and the results are recorded; or the
  node is unchanged and recorded as failed. No other node changes, one failure does not stop the others,
  and the status names the nodes and the generation that were processed.
\<close>

theorem processAllNodesForRule_converges:
  assumes "taints_contract env tv" and "list_contract env tv" and "listNodes env w = (Inr ns, w1)"
    and "processAllNodesForRule env rule w = (e, rule', w')"
  shows "e = None \<and> observedGeneration (ruleStatus rule') = generation rule \<and>
    appliedNodes (ruleStatus rule') = map nodeName (filter (ruleAppliesTo env rule) ns) \<and>
    (\<forall>n \<in> set ns. ruleAppliesTo env rule n \<longrightarrow>
       ((hasTaintIn (tv w' (nodeName n)) (taint_of rule) \<longleftrightarrow>
          \<not> list_all (\<lambda>c. getConditionStatus n (reqType c) = requiredStatus c) (conditions (ruleSpec rule))) \<and>
        other_taints (taint_of rule) (tv w' (nodeName n)) = other_taints (taint_of rule) (nodeTaints n) \<and>
        (\<exists>ev. find_key evalNodeName (nodeName n) (nodeEvaluations (ruleStatus rule')) = Some ev \<and>
          conditionResults ev = map (conditionResult n) (conditions (ruleSpec rule)) \<and>
          taintStatus ev = (if hasTaintIn (tv w' (nodeName n)) (taint_of rule) then ''Present'' else ''Absent''))) \<or>
       (tv w' (nodeName n) = nodeTaints n \<and>
        (\<exists>f. find_key failNodeName (nodeName n) (failedNodes (ruleStatus rule')) = Some f \<and>
          failReason f = ''EvaluationError''))) \<and>
    (\<forall>k. k \<notin> nodeName ` {n \<in> set ns. ruleAppliesTo env rule n} \<longrightarrow> tv w' k = tv w k)"
proof -
  note c = processAllNodesForRule_contract[OF assms]
  have "(hasTaintIn (tv w' (nodeName n)) (taint_of rule) \<longleftrightarrow>
        \<not> list_all (\<lambda>c. getConditionStatus n (reqType c) = requiredStatus c) (conditions (ruleSpec rule))) \<and>
      other_taints (taint_of rule) (tv w' (nodeName n)) = other_taints (taint_of rule) (nodeTaints n) \<and>
      (\<exists>ev. find_key evalNodeName (nodeName n) (nodeEvaluations (ruleStatus rule')) = Some ev \<and>
        conditionResults ev = map (conditionResult n) (conditions (ruleSpec rule)) \<and>
        taintStatus ev = (if hasTaintIn (tv w' (nodeName n)) (taint_of rule) then ''Present'' else ''Absent''))"
    if s: "settled (tv w') rule' n" for n
  proof -
    have t: "tv w' (nodeName n) = nodeTaints (steered rule n)" using s steered_spec[OF c(6)] by (simp add: settled_def)
    then have has: "hasTaintIn (tv w' (nodeName n)) (taint_of rule) \<longleftrightarrow> wants_taint rule n"
      using steered_has[of rule n] by (simp add: hasTaintBySpec_def)
    show ?thesis
      using s has t wants_taint_spec[OF c(6)] steered_others[of rule n]
      by (auto simp: settled_def c(6) mkEvaluation_def mode_defs wants_taint_def ready_def satisfiedBy_def[abs_def])
  qed
  note good = this
  show ?thesis
  proof (intro conjI ballI allI impI)
    fix n assume "n \<in> set ns" "ruleAppliesTo env rule n"
    then consider "settled (tv w') rule' n" | "failed (tv w') rule' n"
      using c(4) unfolding outcome_def by blast
    then show "((hasTaintIn (tv w' (nodeName n)) (taint_of rule) \<longleftrightarrow>
          \<not> list_all (\<lambda>c. getConditionStatus n (reqType c) = requiredStatus c) (conditions (ruleSpec rule))) \<and>
        other_taints (taint_of rule) (tv w' (nodeName n)) = other_taints (taint_of rule) (nodeTaints n) \<and>
        (\<exists>ev. find_key evalNodeName (nodeName n) (nodeEvaluations (ruleStatus rule')) = Some ev \<and>
          conditionResults ev = map (conditionResult n) (conditions (ruleSpec rule)) \<and>
          taintStatus ev = (if hasTaintIn (tv w' (nodeName n)) (taint_of rule) then ''Present'' else ''Absent''))) \<or>
       (tv w' (nodeName n) = nodeTaints n \<and>
        (\<exists>f. find_key failNodeName (nodeName n) (failedNodes (ruleStatus rule')) = Some f \<and>
          failReason f = ''EvaluationError''))"
    proof cases
      case 1
      then show ?thesis by (intro disjI1 good)
    next
      case 2
      then show ?thesis unfolding failed_def by (rule disjI2)
    qed
  qed (use c in blast)+
qed

lemmas processing_eval = processAllNodesForRule_def evaluateOrRecord_def ruleAppliesTo_def clearDryRun_def

theorem processAllNodesForRule_converges_witness:
  "\<exists>rule' s'. processAllNodesForRule mem_env (net_rule ''continuous'' False)
       (server_of [worker ''w1'' ''False'' [disk_taint], worker ''w2'' ''True'' [net_taint]] [] []) = (None, rule', s') \<and>
     appliedNodes (ruleStatus rule') = [''w1'', ''w2''] \<and>
     hasTaintIn (server_taints s' ''w1'') net_taint \<and> \<not> hasTaintIn (server_taints s' ''w2'') net_taint"
proof -
  let ?r = "net_rule ''continuous'' False"
  let ?a = "worker ''w1'' ''False'' [disk_taint]" and ?b = "worker ''w2'' ''True'' [net_taint]"
  let ?s = "server_of [?a, ?b] [] []"
  have list: "listNodes mem_env ?s = (Inr [?a, ?b], ?s)" by (simp add: server_of_def worker_def server_defs)
  have applies: "ruleAppliesTo mem_env ?r (worker k st ts)" for k st ts
    by (simp add: ruleAppliesTo_def sample_defs server_defs Let_def)
  obtain rule' s' where run: "processAllNodesForRule mem_env ?r ?s = (None, rule', s')"
    and ok: "failedNodes (ruleStatus rule') = []"
    by (simp add: processing_eval evaluation_eval sample_defs server_defs)
  note th = processAllNodesForRule_converges[OF mem_taints_contract mem_list_contract, OF list run]
  have "appliedNodes (ruleStatus rule') = [''w1'', ''w2'']"
    using th by (simp add: applies) (simp add: worker_def)
  moreover have "(hasTaintIn (server_taints s' (nodeName n)) net_taint \<longleftrightarrow>
      getConditionStatus n ''CalicoReady'' \<noteq> ''True'')" if "n \<in> set [?a, ?b]" for n
    using th that ok applies by (auto simp: net_rule_def net_spec_def)
  from this[of ?a] this[of ?b] have "hasTaintIn (server_taints s' ''w1'') net_taint"
    "\<not> hasTaintIn (server_taints s' ''w2'') net_taint"
    by (simp_all add: worker_def getConditionStatus_def net_condition_def)
  ultimately show ?thesis using run by blast
qed

text \<open>
  C30: When every listed node the rule applies to already is as the rule wants it, processing makes no
  write at all: whatever the reading calls keep, it keeps. So a second run over unchanged nodes is
  silent.
\<close>

theorem processAllNodesForRule_quiet:
  assumes "read_only env I" and "I w" and "listNodes env w = (Inr ns, w1)"
    and "\<forall>n \<in> set ns. ruleAppliesTo env rule n \<longrightarrow> (hasTaintBySpec n (taint_of rule) \<longleftrightarrow>
       \<not> list_all (\<lambda>c. getConditionStatus n (reqType c) = requiredStatus c) (conditions (ruleSpec rule)))"
    and "processAllNodesForRule env rule w = (e, rule', w')"
  shows "I w' \<and> e = None"
proof -
  have idle: "\<forall>n \<in> set ns. ruleAppliesTo env rule n \<longrightarrow> \<not> needs_action rule n"
    using assms(4) by (simp add: needs_action_def wants_taint_def ready_def satisfiedBy_def[abs_def])
  have "I w1" by (rule read_onlyD(4)[OF assms(1,2,3)])
  then show ?thesis
    using processAllNodesLoop_quiet[OF assms(1) _ idle] processAllNodesForRule_run[OF assms(5,3)] by metis
qed

lemma mem_read_only: "read_only mem_env (\<lambda>s. srvNodes s = ns \<and> srvRules s = rs)"
  by (auto simp: read_only_def mem_env_simps split: option.split)

theorem processAllNodesForRule_quiet_witness:
  "\<exists>rule' s'. processAllNodesForRule mem_env (net_rule ''continuous'' False)
       (server_of [worker ''w1'' ''False'' [net_taint]] [] []) = (None, rule', s') \<and>
     srvNodes s' = [worker ''w1'' ''False'' [net_taint]]"
proof -
  let ?n = "worker ''w1'' ''False'' [net_taint]" and ?r = "net_rule ''continuous'' False"
  let ?s = "server_of [?n] [] []" and ?I = "\<lambda>s. srvNodes s = [worker ''w1'' ''False'' [net_taint]] \<and> srvRules s = []"
  have list: "listNodes mem_env ?s = (Inr [?n], ?s)" by (simp add: server_of_def server_defs)
  have idle: "\<forall>n \<in> set [?n]. ruleAppliesTo mem_env ?r n \<longrightarrow> (hasTaintBySpec n (taint_of ?r) \<longleftrightarrow>
       \<not> list_all (\<lambda>c. getConditionStatus n (reqType c) = requiredStatus c) (conditions (ruleSpec ?r)))"
    by (simp add: hasTaintBySpec_def getConditionStatus_def sample_defs)
  obtain e rule' s' where run: "processAllNodesForRule mem_env ?r ?s = (e, rule', s')"
    by (cases "processAllNodesForRule mem_env ?r ?s")
  have "?I ?s" by (simp add: server_of_def)
  from processAllNodesForRule_quiet[OF mem_read_only this list idle run] run show ?thesis by auto
qed

end
