(* ===== verification/Node_Reconciler.thy ===== *)
theory Node_Reconciler
  imports Rule_Reconciler
begin

text \<open>
  \<open>NodeReconciler.Reconcile\<close> and \<open>processNodeAgainstAllRules\<close>
  (\<open>internal/controller/node_controller.go\<close>): one node against every cached rule that applies to it.
  The rules are pointers into the cache, so an evaluation changes the cached copy; the node is shared
  by the iterations, so the change one of them made in memory is what the next one sees.
\<close>

subsection \<open>Writing a node's entry into the stored status\<close>

text \<open>The loop that overwrites the entry of the node; \<open>None\<close> when there is no such entry.\<close>

fun replaceEvaluation :: "string \<Rightarrow> nodeEvaluation \<Rightarrow> nodeEvaluation list \<Rightarrow> nodeEvaluation list option" where
  "replaceEvaluation name ev [] = None"
| "replaceEvaluation name ev (e # es) =
     (if evalNodeName e = name then Some (ev # es) else map_option ((#) e) (replaceEvaluation name ev es))"

definition currentEvaluation :: "nodeReadinessRule \<Rightarrow> string \<Rightarrow> nodeEvaluation" where
  "currentEvaluation rule name =
     (case find_key evalNodeName name (nodeEvaluations (ruleStatus rule)) of
        None \<Rightarrow> emptyNodeEvaluation | Some e \<Rightarrow> e)"

definition mergeFailures :: "string \<Rightarrow> nodeFailure list \<Rightarrow> nodeFailure list \<Rightarrow> nodeFailure list" where
  "mergeFailures name stored mine =
     filter (\<lambda>f. failNodeName f \<noteq> name) stored @ filter (\<lambda>f. failNodeName f = name) mine"

text \<open>
  When the stored status has no entry for the node, the code appends the evaluation to its copy of the
  rule and returns without writing it, so the copy is lost.
\<close>

definition persistAttempt :: "'w env \<Rightarrow> nodeReadinessRule \<Rightarrow> string \<Rightarrow> 'w \<Rightarrow> goError option \<times> 'w" where
  "persistAttempt env rule name w =
     (case getRule env (ruleName rule) w of
        (Inl e, w') \<Rightarrow> (Some e, w')
      | (Inr latest, w') \<Rightarrow>
          (case replaceEvaluation name (currentEvaluation rule name) (nodeEvaluations (ruleStatus latest)) of
             None \<Rightarrow> (None, w')
           | Some evals \<Rightarrow>
               statusUpdate env (latest\<lparr>ruleStatus := (ruleStatus latest)
                 \<lparr>nodeEvaluations := evals,
                  failedNodes := mergeFailures name (failedNodes (ruleStatus latest)) (failedNodes (ruleStatus rule))\<rparr>\<rparr>) w'))"

subsection \<open>The loop over the rules\<close>

text \<open>What the loop does with a rule: skip it or evaluate it.\<close>

definition skipRule :: "controller \<Rightarrow> nodeReadinessRule \<Rightarrow> bool \<Rightarrow> bool" where
  "skipRule c rule completed \<longleftrightarrow>
     completed \<and> enforcementMode (ruleSpec rule) = EnforcementModeBootstrapOnly \<or>
     dryRun (ruleSpec rule) \<or> globalDryRun c"

text \<open>The write through a pointer to a cache entry.\<close>

definition writeThrough :: "controller \<Rightarrow> string \<Rightarrow> nodeReadinessRule \<Rightarrow> controller" where
  "writeThrough c k rule = c\<lparr>ruleCache := fmupd k rule (ruleCache c)\<rparr>"

fun processRulesLoop :: "'w env \<Rightarrow> string list \<Rightarrow> controller \<Rightarrow> node \<Rightarrow> 'w \<Rightarrow> controller \<times> node \<times> 'w" where
  "processRulesLoop env [] c n w = (c, n, w)"
| "processRulesLoop env (k # ks) c n w =
     (case fmlookup (ruleCache c) k of
        None \<Rightarrow> processRulesLoop env ks c n w
      | Some rule \<Rightarrow>
          (case isBootstrapCompleted env (nodeName n) (ruleName rule) w of
             (completed, w1) \<Rightarrow>
               if skipRule c rule completed then processRulesLoop env ks c n w1
               else (case evaluateOrRecord env rule n w1 of
                       (rule', n', w2) \<Rightarrow>
                         (case retryOnConflict env (persistAttempt env rule' (nodeName n')) w2 of
                            (err, w3) \<Rightarrow> processRulesLoop env ks (writeThrough c k rule') n' w3))))"

definition processNodeAgainstAllRules :: "'w env \<Rightarrow> string list \<Rightarrow> controller \<Rightarrow> node \<Rightarrow> 'w \<Rightarrow>
    controller \<times> node \<times> 'w" where
  "processNodeAgainstAllRules env order c n w =
     processRulesLoop env (getApplicableRulesForNode env c n order) c n w"

definition nodeReconcile :: "'w env \<Rightarrow> string list \<Rightarrow> controller \<Rightarrow> string \<Rightarrow> 'w \<Rightarrow> 'w outcome" where
  "nodeReconcile env order c name w =
     (case getNode env name w of
        (Inl e, w1) \<Rightarrow> ((emptyResult, if errorReason e = NotFound then None else Some e), c, w1)
      | (Inr n, w1) \<Rightarrow>
          (case processNodeAgainstAllRules env order c n w1 of
             (c', n', w2) \<Rightarrow> ((emptyResult, None), c', w2)))"

subsection \<open>What is written to the status\<close>

lemma replaceEvaluation_None_iff: "replaceEvaluation name ev es = None \<longleftrightarrow> name \<notin> evalNodeName ` set es"
  by (induction es) auto

lemma replaceEvaluation_find:
  assumes "replaceEvaluation name ev es = Some es'" and "evalNodeName ev = name"
  shows "find_key evalNodeName j es' = (if j = name then Some ev else find_key evalNodeName j es)"
  using assms by (induction es arbitrary: es') (auto split: if_splits)

lemma replaceEvaluation_keys:
  assumes "replaceEvaluation name ev es = Some es'" and "evalNodeName ev = name"
  shows "map evalNodeName es' = map evalNodeName es"
  using assms by (induction es arbitrary: es') (auto split: if_splits)

lemma mergeFailures_distinct:
  assumes "distinct (map failNodeName stored)" and "distinct (map failNodeName mine)"
  shows "distinct (map failNodeName (mergeFailures name stored mine))"
  using assms by (auto simp: mergeFailures_def distinct_map_filter_key)

lemma mergeFailures_find:
  "find_key failNodeName j (mergeFailures name stored mine) =
     (if j = name then find_key failNodeName j mine else find_key failNodeName j stored)"
  using find_key_filter_key[of failNodeName j "\<lambda>i. i \<noteq> name" stored]
    find_key_filter_key[of failNodeName j "\<lambda>i. i = name" mine]
  by (cases "j = name") (auto simp: mergeFailures_def find_key_append split: option.split)

text \<open>A node the stored status does not list is not added to it: the attempt only reads.\<close>

lemma persistAttempt_unlisted:
  assumes "getRule env (ruleName rule) w = (Inr latest, w')"
    and "name \<notin> evalNodeName ` set (nodeEvaluations (ruleStatus latest))"
  shows "persistAttempt env rule name w = (None, w')"
proof -
  have "replaceEvaluation name (currentEvaluation rule name) (nodeEvaluations (ruleStatus latest)) = None"
    using assms(2) by (simp only: replaceEvaluation_None_iff not_False_eq_True)
  with assms(1) show ?thesis by (simp add: persistAttempt_def)
qed

subsection \<open>Invariants of the cache\<close>

text \<open>Every cached rule sits under its name and its status lists are keyed.\<close>

definition cache_ok :: "controller \<Rightarrow> bool" where
  "cache_ok c \<longleftrightarrow> (\<forall>k r. getCachedRule c k = Some r \<longrightarrow> ruleName r = k \<and> wf_status (ruleStatus r))"

lemma cache_okD: "cache_ok c \<Longrightarrow> getCachedRule c k = Some r \<Longrightarrow> ruleName r = k \<and> wf_status (ruleStatus r)"
  by (simp add: cache_ok_def)

lemma cache_ok_update: "cache_ok c \<Longrightarrow> wf_status (ruleStatus r) \<Longrightarrow> cache_ok (updateRuleCache c r)"
  by (auto simp: cache_ok_def cache.lookup_update)

lemma cache_ok_remove: "cache_ok c \<Longrightarrow> cache_ok (removeRuleFromCache c k)"
  by (auto simp: cache_ok_def cache.lookup_remove)

lemma writeThrough_update: "ruleName rule = k \<Longrightarrow> writeThrough c k rule = updateRuleCache c rule"
  by (simp add: writeThrough_def updateRuleCache_def)

lemma processRulesLoop_cache_ok:
  "processRulesLoop env ks c n w = (c', n', w') \<Longrightarrow> cache_ok c \<Longrightarrow> cache_ok c' \<and> globalDryRun c' = globalDryRun c"
proof (induction ks arbitrary: c n w)
  case Nil
  then show ?case by simp
next
  case (Cons k ks)
  show ?case
  proof (cases "fmlookup (ruleCache c) k")
    case None
    with Cons show ?thesis by simp
  next
    case (Some rule)
    obtain b w1 where b: "isBootstrapCompleted env (nodeName n) (ruleName rule) w = (b, w1)"
      by (cases "isBootstrapCompleted env (nodeName n) (ruleName rule) w")
    obtain r1 n1 w2 where ev: "evaluateOrRecord env rule n w1 = (r1, n1, w2)"
      by (cases "evaluateOrRecord env rule n w1")
    obtain err w3 where p: "retryOnConflict env (persistAttempt env r1 (nodeName n1)) w2 = (err, w3)"
      by (cases "retryOnConflict env (persistAttempt env r1 (nodeName n1)) w2")
    show ?thesis
    proof (cases "skipRule c rule b")
      case True
      with Cons Some b show ?thesis by simp
    next
      case False
      have r: "ruleName rule = k" "wf_status (ruleStatus rule)"
        using cache_okD[OF Cons.prems(2), of k rule] Some by (simp_all add: getCachedRule_def)
      then have "ruleName r1 = k" using evaluateOrRecord_same_rule[OF ev] by (simp add: same_rule_def)
      then have "cache_ok (writeThrough c k r1)" "globalDryRun (writeThrough c k r1) = globalDryRun c"
        using evaluateOrRecord_wf[OF ev r(2)] cache_ok_update[OF Cons.prems(2)] by (simp_all add: writeThrough_update)
      with Cons False Some b ev p show ?thesis by simp
    qed
  qed
qed

subsection \<open>Runs that write nothing\<close>

lemma isBootstrapCompleted_read:
  "read_only env I \<Longrightarrow> I w \<Longrightarrow> isBootstrapCompleted env name rule w = (b, w') \<Longrightarrow> I w'"
  by (auto simp: isBootstrapCompleted_def read_only_def split: prod.splits sum.splits) (metis snd_conv)+

lemma processRulesLoop_skips:
  assumes "read_only env I" and "I w"
    and "\<And>k rule b v v'. k \<in> set ks \<Longrightarrow> getCachedRule c k = Some rule \<Longrightarrow> I v \<Longrightarrow>
      isBootstrapCompleted env (nodeName n) (ruleName rule) v = (b, v') \<Longrightarrow> skipRule c rule b"
    and "processRulesLoop env ks c n w = (c', n', w')"
  shows "c' = c \<and> n' = n \<and> I w'"
  using assms(2-4)
proof (induction ks arbitrary: w)
  case Nil
  then show ?case by simp
next
  case (Cons k ks)
  have rest: "\<And>j rule b v v'. j \<in> set ks \<Longrightarrow> getCachedRule c j = Some rule \<Longrightarrow> I v \<Longrightarrow>
    isBootstrapCompleted env (nodeName n) (ruleName rule) v = (b, v') \<Longrightarrow> skipRule c rule b"
    by (rule Cons.prems(2)[OF list.set_intros(2)])
  show ?case
  proof (cases "fmlookup (ruleCache c) k")
    case None
    with Cons.prems(3) have run: "processRulesLoop env ks c n w = (c', n', w')" by simp
    show ?thesis by (rule Cons.IH[OF Cons.prems(1) rest run])
  next
    case (Some rule)
    obtain b w1 where b: "isBootstrapCompleted env (nodeName n) (ruleName rule) w = (b, w1)"
      by (cases "isBootstrapCompleted env (nodeName n) (ruleName rule) w")
    have "skipRule c rule b"
      using Cons.prems(2)[of k rule w b w1] Cons.prems(1) b by (simp add: getCachedRule_def Some)
    with Cons.prems(3) Some b have run: "processRulesLoop env ks c n w1 = (c', n', w')" by simp
    have "I w1" by (rule isBootstrapCompleted_read[OF assms(1) Cons.prems(1) b])
    then show ?thesis by (rule Cons.IH[OF _ rest run])
  qed
qed

subsection \<open>The loop under the contracts\<close>

text \<open>The taints with one identity; what an evaluation leaves alone.\<close>

definition same_id :: "taint \<Rightarrow> taint list \<Rightarrow> taint list" where
  "same_id t ts = filter (\<lambda>s. taint_id s = taint_id t) ts"

lemma hasTaintIn_same_id: "hasTaintIn ts t \<longleftrightarrow> same_id t ts \<noteq> []"
  by (auto simp: hasTaintIn_iff same_id_def filter_empty_conv)

lemma same_id_other_taints: "taint_id u \<noteq> taint_id t \<Longrightarrow> same_id t (other_taints u ts) = same_id t ts"
  by (induction ts) (auto simp: same_id_def other_taints_def)

lemma steered_same_id: "taint_id (taint_of rule) \<noteq> taint_id t \<Longrightarrow> same_id t (nodeTaints (steered rule n)) = same_id t (nodeTaints n)"
  using steered_others[of rule n] same_id_other_taints[of "taint_of rule" t] by metis

lemma processRulesLoop_frame:
  "processRulesLoop env ks c n w = (c', n', w') \<Longrightarrow> j \<notin> set ks \<Longrightarrow>
   fmlookup (ruleCache c') j = fmlookup (ruleCache c) j"
  by (induction ks arbitrary: c n w)
    (auto simp: writeThrough_def split: option.splits prod.splits if_splits)

text \<open>What the loop does to the conditions the server holds, and to the completion marks of other rules.\<close>

lemma evaluateOrRecord_conditions:
  assumes con: "conditions_contract env cv" and run: "evaluateOrRecord env rule n w = (rule', n', w')"
    and cur: "cv w (nodeName n) = nodeConditions n"
  shows "nodeConditions n' = nodeConditions n \<and> cv w' = cv w"
proof -
  obtain e r1 n1 w1 where ev: "evaluateRuleForNode env rule n w = (e, r1, n1, w1)"
    by (cases "evaluateRuleForNode env rule n w")
  have "cv (snd (clockNow env u)) = cv u" for u using conditions_contractD(9)[OF con] by (simp add: keeps_def)
  with evaluateRuleForNode_conditions[OF con ev cur] run ev show ?thesis
    by (auto simp: evaluateOrRecord_def recordNodeFailure_eq split: option.splits)
qed

lemma evaluateOrRecord_unmarked:
  assumes con: "marks_contract env av" and run: "evaluateOrRecord env rule n w = (rule', n', w')"
    and "\<not> marked (av w) j k" and "k \<noteq> ruleName rule"
  shows "\<not> marked (av w') j k"
proof -
  obtain e r1 n1 w1 where ev: "evaluateRuleForNode env rule n w = (e, r1, n1, w1)"
    by (cases "evaluateRuleForNode env rule n w")
  have "av (snd (clockNow env u)) = av u" for u using marks_contractD(4)[OF con] by (simp add: keeps_def)
  with evaluateRuleForNode_unmarked[OF con ev assms(3,4)] run ev show ?thesis
    by (auto simp: evaluateOrRecord_def recordNodeFailure_eq split: option.splits)
qed

lemma persistAttempt_view:
  assumes "\<And>k. keeps v (getRule env k)" and "\<And>r. keeps v (statusUpdate env r)"
  shows "v (snd (persistAttempt env rule name w)) = v w"
proof -
  obtain r u where g: "getRule env (ruleName rule) w = (r, u)" by (cases "getRule env (ruleName rule) w")
  have u: "v u = v w" by (rule keepsD[OF assms(1) g])
  have "v (snd (statusUpdate env x u)) = v u" for x using assms(2)[of x] by (simp add: keeps_def)
  with g u show ?thesis by (cases r) (simp_all add: persistAttempt_def split: option.split)
qed

lemma persist_view:
  assumes "retry_contract env" and "\<And>k. keeps v (getRule env k)" and "\<And>r. keeps v (statusUpdate env r)"
    and "retryOnConflict env (persistAttempt env rule name) w = (e, w')"
  shows "v w' = v w"
  using retry_invariant[OF assms(1), of "\<lambda>u. v u = v w" w "persistAttempt env rule name"]
    persistAttempt_view[of v env, OF assms(2,3)] assms(4) by simp

lemma isBootstrapCompleted_view:
  "(\<And>k. keeps v (getNode env k)) \<Longrightarrow> isBootstrapCompleted env name rule w = (b, w') \<Longrightarrow> v w' = v w"
  by (auto simp: isBootstrapCompleted_def split: prod.splits sum.splits dest: keepsD)

lemmas isBootstrapCompleted_keeps = isBootstrapCompleted_view[OF taints_contractD(7)]

lemma persist_keeps:
  assumes "taints_contract env tv" and "retryOnConflict env (persistAttempt env rule name) w = (e, w')"
  shows "tv w' = tv w"
  using taints_contractD(1,3,6)[OF assms(1)] assms(2) by (rule persist_view)

text \<open>
  The rules the loop acts for at all, and of those the ones it is sure to evaluate when the rules of which
  the node carries the completion mark are among \<open>marks\<close>.
\<close>

definition active :: "controller \<Rightarrow> nodeReadinessRule \<Rightarrow> bool" where
  "active c r \<longleftrightarrow> \<not> dryRun (ruleSpec r) \<and> \<not> globalDryRun c"

definition due :: "controller \<Rightarrow> string set \<Rightarrow> nodeReadinessRule \<Rightarrow> bool" where
  "due c marks r \<longleftrightarrow> active c r \<and>
     (enforcementMode (ruleSpec r) = EnforcementModeBootstrapOnly \<longrightarrow> ruleName r \<notin> marks)"

text \<open>
  What the loop over the keys \<open>ks\<close> has done to the node \<open>n\<close>, which it started with, and to the taints
  \<open>before\<close> on the server.
\<close>

definition loop_post :: "controller \<Rightarrow> string set \<Rightarrow> string list \<Rightarrow> node \<Rightarrow> (string \<Rightarrow> taint list) \<Rightarrow> node \<Rightarrow>
    (string \<Rightarrow> taint list) \<Rightarrow> bool" where
  "loop_post c marks ks n before n' after \<longleftrightarrow>
     nodeName n' = nodeName n \<and> nodeConditions n' = nodeConditions n \<and>
     after (nodeName n) = nodeTaints n' \<and> (\<forall>k. k \<noteq> nodeName n \<longrightarrow> after k = before k) \<and>
     (\<forall>t. (\<forall>j \<in> set ks. \<forall>r. fmlookup (ruleCache c) j = Some r \<longrightarrow> active c r \<longrightarrow> taint_id (taint_of r) \<noteq> taint_id t) \<longrightarrow>
        same_id t (nodeTaints n') = same_id t (nodeTaints n)) \<and>
     (\<forall>k \<in> set ks. \<forall>r. fmlookup (ruleCache c) k = Some r \<longrightarrow> due c marks r \<longrightarrow>
        (\<forall>j \<in> set ks. \<forall>s. j \<noteq> k \<longrightarrow> fmlookup (ruleCache c) j = Some s \<longrightarrow> taint_id (taint_of s) \<noteq> taint_id (taint_of r)) \<longrightarrow>
        (hasTaintIn (nodeTaints n') (taint_of r) \<longleftrightarrow> wants_taint r n))"

text \<open>A rule the loop passes over.\<close>

lemma loop_post_skip:
  assumes "loop_post c marks ks n before n' after" and "k \<notin> set ks"
    and "\<And>r. fmlookup (ruleCache c) k = Some r \<Longrightarrow> \<not> due c marks r"
  shows "loop_post c marks (k # ks) n before n' after"
proof -
  note P = assms(1)[unfolded loop_post_def]
  show ?thesis unfolding loop_post_def
  proof (intro conjI ballI allI impI)
    fix i r
    assume i: "i \<in> set (k # ks)" "fmlookup (ruleCache c) i = Some r" "due c marks r"
      and apart: "\<forall>j \<in> set (k # ks). \<forall>s. j \<noteq> i \<longrightarrow> fmlookup (ruleCache c) j = Some s \<longrightarrow> taint_id (taint_of s) \<noteq> taint_id (taint_of r)"
    have "i \<noteq> k" using i(2,3) assms(3) by blast
    with i(1) have "i \<in> set ks" by simp
    with P i(2,3) apart show "hasTaintIn (nodeTaints n') (taint_of r) \<longleftrightarrow> wants_taint r n" by simp
  qed (use P in simp_all)
qed

text \<open>A rule it evaluates without recording a failure.\<close>

lemma loop_post_step:
  assumes post: "loop_post c1 marks ks n1 mid n' after" and k: "k \<notin> set ks"
    and c1: "\<And>j. j \<noteq> k \<Longrightarrow> fmlookup (ruleCache c1) j = fmlookup (ruleCache c) j" "globalDryRun c1 = globalDryRun c"
    and rule: "fmlookup (ruleCache c) k = Some rule" and act: "active c rule"
    and n1: "nodeName n1 = nodeName n" "nodeConditions n1 = nodeConditions n" "nodeTaints n1 = nodeTaints (steered rule n)"
    and mid: "\<And>j. j \<noteq> nodeName n \<Longrightarrow> mid j = before j"
  shows "loop_post c marks (k # ks) n before n' after"
proof -
  have look: "fmlookup (ruleCache c1) j = fmlookup (ruleCache c) j" if "j \<in> set ks" for j
    using that k c1(1) by metis
  have ev: "active c1 r = active c r" "due c1 marks r = due c marks r" for r using c1(2) by (simp_all add: due_def active_def)
  have wants: "wants_taint r n1 = wants_taint r n" for r
    using ready_cong[OF n1(2), of r] by (simp add: wants_taint_def)
  note P = post[unfolded loop_post_def]
  have foreign: "same_id t (nodeTaints n') = same_id t (nodeTaints n)"
    if "\<forall>j \<in> set (k # ks). \<forall>r. fmlookup (ruleCache c) j = Some r \<longrightarrow> active c r \<longrightarrow> taint_id (taint_of r) \<noteq> taint_id t" for t
  proof -
    have "same_id t (nodeTaints n') = same_id t (nodeTaints n1)" using P that look ev(1) by auto
    also have "\<dots> = same_id t (nodeTaints n)"
      unfolding n1(3) by (rule steered_same_id) (use that rule act in auto)
    finally show ?thesis .
  qed
  have here: "hasTaintIn (nodeTaints n') (taint_of rule) \<longleftrightarrow> wants_taint rule n"
    if "\<forall>j \<in> set ks. \<forall>s. fmlookup (ruleCache c) j = Some s \<longrightarrow> taint_id (taint_of s) \<noteq> taint_id (taint_of rule)"
  proof -
    have "same_id (taint_of rule) (nodeTaints n') = same_id (taint_of rule) (nodeTaints n1)" using P that look by auto
    then show ?thesis using steered_has[of rule n] n1(3) by (simp add: hasTaintIn_same_id hasTaintBySpec_def)
  qed
  have there: "hasTaintIn (nodeTaints n') (taint_of r) \<longleftrightarrow> wants_taint r n"
    if "i \<in> set ks" "fmlookup (ruleCache c) i = Some r" "due c marks r"
      "\<forall>j \<in> set ks. \<forall>s. j \<noteq> i \<longrightarrow> fmlookup (ruleCache c) j = Some s \<longrightarrow> taint_id (taint_of s) \<noteq> taint_id (taint_of r)" for i r
    using P that look ev wants by auto
  show ?thesis unfolding loop_post_def
  proof (intro conjI ballI allI impI)
    fix i r
    assume i: "i \<in> set (k # ks)" "fmlookup (ruleCache c) i = Some r" "due c marks r"
      and apart: "\<forall>j \<in> set (k # ks). \<forall>s. j \<noteq> i \<longrightarrow> fmlookup (ruleCache c) j = Some s \<longrightarrow> taint_id (taint_of s) \<noteq> taint_id (taint_of r)"
    show "hasTaintIn (nodeTaints n') (taint_of r) \<longleftrightarrow> wants_taint r n"
    proof (cases "i = k")
      case True
      have "j \<noteq> k" if "j \<in> set ks" for j using that k by blast
      with here apart True i(2) rule show ?thesis by auto
    next
      case False
      with there[of i r] i apart show ?thesis by auto
    qed
  next
    fix t
    assume "\<forall>j \<in> set (k # ks). \<forall>r. fmlookup (ruleCache c) j = Some r \<longrightarrow> active c r \<longrightarrow> taint_id (taint_of r) \<noteq> taint_id t"
    then show "same_id t (nodeTaints n') = same_id t (nodeTaints n)" by (rule foreign)
  qed (use P n1 mid in simp_all)
qed

lemma processRulesLoop_contract:
  assumes con: "taints_contract env tv" and cond: "conditions_contract env cv" and mark: "marks_contract env av"
    and "processRulesLoop env ks c n w = (c', n', w')" and "distinct ks" and "tv w (nodeName n) = nodeTaints n"
    and "cv w (nodeName n) = nodeConditions n"
    and "\<forall>j \<in> set ks. \<forall>r. fmlookup (ruleCache c) j = Some r \<longrightarrow> ruleName r = j"
    and "\<forall>j \<in> set ks. j \<notin> marks \<longrightarrow> \<not> marked (av w) (nodeName n) j"
    and "\<forall>j \<in> set ks. \<forall>r. fmlookup (ruleCache c') j = Some r \<longrightarrow>
      find_key failNodeName (nodeName n) (failedNodes (ruleStatus r)) = None"
  shows "loop_post c marks ks n (tv w) n' (tv w')"
  using assms(4-10)
proof (induction ks arbitrary: c n w)
  case Nil
  then show ?case by (simp add: loop_post_def)
next
  case (Cons k ks)
  have k: "k \<notin> set ks" "distinct ks" using Cons.prems(2) by simp_all
  have clean: "\<forall>j \<in> set ks. \<forall>r. fmlookup (ruleCache c') j = Some r \<longrightarrow>
      find_key failNodeName (nodeName n) (failedNodes (ruleStatus r)) = None" using Cons.prems(7) by simp
  have names: "\<forall>j \<in> set ks. \<forall>r. fmlookup (ruleCache c) j = Some r \<longrightarrow> ruleName r = j" using Cons.prems(5) by simp
  have open_marks: "\<forall>j \<in> set ks. j \<notin> marks \<longrightarrow> \<not> marked (av w) (nodeName n) j" using Cons.prems(6) by simp
  show ?case
  proof (cases "fmlookup (ruleCache c) k")
    case None
    with Cons.prems(1) have run: "processRulesLoop env ks c n w = (c', n', w')" by simp
    show ?thesis
      by (rule loop_post_skip[OF Cons.IH[OF run k(2) Cons.prems(3,4) names open_marks clean] k(1)]) (simp add: None)
  next
    case (Some rule)
    have rule: "ruleName rule = k" using Cons.prems(5) Some by simp
    obtain b w1 where b: "isBootstrapCompleted env (nodeName n) (ruleName rule) w = (b, w1)"
      by (cases "isBootstrapCompleted env (nodeName n) (ruleName rule) w")
    have tv1: "tv w1 = tv w" by (rule isBootstrapCompleted_keeps[OF con b])
    have cur1: "tv w1 (nodeName n) = nodeTaints n" using tv1 Cons.prems(3) by simp
    have cv1: "cv w1 (nodeName n) = nodeConditions n"
      using isBootstrapCompleted_view[OF conditions_contractD(6)[OF cond] b] Cons.prems(4) by simp
    have av1: "av w1 = av w"
      by (rule isBootstrapCompleted_view[OF annotations_contractD(3)[OF marks_contractD(1)[OF mark]] b])
    have marks1: "\<forall>j \<in> set ks. j \<notin> marks \<longrightarrow> \<not> marked (av w1) (nodeName n) j" unfolding av1 by (rule open_marks)
    show ?thesis
    proof (cases "skipRule c rule b")
      case True
      with Cons.prems(1) Some b have run: "processRulesLoop env ks c n w1 = (c', n', w')" by simp
      have "\<not> due c marks rule"
        using True Cons.prems(6) rule isBootstrapCompleted_unmarked[OF marks_contractD(1)[OF mark] _ b]
        by (auto simp: skipRule_def due_def active_def)
      with loop_post_skip[OF Cons.IH[OF run k(2) cur1 cv1 names marks1 clean] k(1)] Some show ?thesis by (simp add: tv1)
    next
      case False
      then have act: "active c rule" by (simp add: skipRule_def active_def)
      obtain r1 n1 w2 where ev: "evaluateOrRecord env rule n w1 = (r1, n1, w2)"
        by (cases "evaluateOrRecord env rule n w1")
      obtain err w3 where p: "retryOnConflict env (persistAttempt env r1 (nodeName n1)) w2 = (err, w3)"
        by (cases "retryOnConflict env (persistAttempt env r1 (nodeName n1)) w2")
      let ?c = "writeThrough c k r1"
      have run: "processRulesLoop env ks ?c n1 w3 = (c', n', w')" using Cons.prems(1) False Some b ev p by simp
      note one = evaluateOrRecord_contract[OF con ev cur1]
      note cond1 = evaluateOrRecord_conditions[OF cond ev cv1]
      have tv3: "tv w3 = tv w2" by (rule persist_keeps[OF con p])
      have cv3: "cv w3 = cv w1"
        using persist_view[OF conditions_contractD(1,4,5)[OF cond] p] cond1 by simp
      have av3: "av w3 = av w2"
        by (rule persist_view[OF annotations_contractD(1)[OF marks_contractD(1)[OF mark]] marks_contractD(2,3)[OF mark] p])
      have "fmlookup (ruleCache c') k = Some r1"
        using processRulesLoop_frame[OF run k(1)] by (simp add: writeThrough_def)
      with Cons.prems(7) have "\<not> failed (tv w2) r1 n" by (auto simp: failed_def)
      with one(1) have st: "settled (tv w2) r1 n" by blast
      have spec: "ruleSpec r1 = ruleSpec rule" using evaluateOrRecord_same_rule[OF ev] by (simp add: same_rule_def)
      have cur3: "tv w3 (nodeName n1) = nodeTaints n1"
        using st tv3 one(4,5) steered_spec[OF spec] by (simp add: settled_def)
      have ccur3: "cv w3 (nodeName n1) = nodeConditions n1" using cv3 cv1 cond1 one(4) by simp
      have names3: "\<forall>j \<in> set ks. \<forall>r. fmlookup (ruleCache ?c) j = Some r \<longrightarrow> ruleName r = j"
        using names k(1) by (auto simp: writeThrough_def)
      have marks3: "\<forall>j \<in> set ks. j \<notin> marks \<longrightarrow> \<not> marked (av w3) (nodeName n1) j"
      proof (intro ballI impI)
        fix j assume j: "j \<in> set ks" "j \<notin> marks"
        with k(1) have "j \<noteq> ruleName rule" unfolding rule by blast
        with evaluateOrRecord_unmarked[OF mark ev] marks1 j one(4) show "\<not> marked (av w3) (nodeName n1) j"
          unfolding av3 by metis
      qed
      have "loop_post ?c marks ks n1 (tv w3) n' (tv w')"
        by (rule Cons.IH[OF run k(2) cur3 ccur3 names3 marks3]) (use clean one(4) in simp)
      then show ?thesis
        by (rule loop_post_step[OF _ k(1) _ _ Some act one(4) conjunct1[OF cond1] one(5)])
          (use one(2) tv1 tv3 in \<open>auto simp: writeThrough_def\<close>)
    qed
  qed
qed

subsection \<open>The stored status\<close>

lemma persistAttempt_stored:
  assumes con: "status_contract env sv" and run: "persistAttempt env rule name w = (e, w')"
    and st: "sv w (ruleName rule) = Some st"
  shows "name \<notin> evalNodeName ` set (nodeEvaluations st) \<Longrightarrow> sv w' = sv w"
    and "e = None \<Longrightarrow> name \<in> evalNodeName ` set (nodeEvaluations st) \<Longrightarrow>
      \<exists>evals. replaceEvaluation name (currentEvaluation rule name) (nodeEvaluations st) = Some evals \<and>
        sv w' (ruleName rule) = Some (st\<lparr>nodeEvaluations := evals,
          failedNodes := mergeFailures name (failedNodes st) (failedNodes (ruleStatus rule))\<rparr>)"
proof -
  note D = status_contractD[OF con]
  obtain r v where g: "getRule env (ruleName rule) w = (r, v)" by (cases "getRule env (ruleName rule) w")
  have sv: "sv v = sv w" by (rule keepsD[OF D(5) g])
  {
    assume out: "name \<notin> evalNodeName ` set (nodeEvaluations st)"
    show "sv w' = sv w"
    proof (cases r)
      case (Inl x)
      with run g sv show ?thesis by (simp add: persistAttempt_def)
    next
      case (Inr latest)
      with g D(2)[of "ruleName rule" w latest v] st have "ruleStatus latest = st" by simp
      with persistAttempt_unlisted[of env rule w latest v name] g Inr out run sv show ?thesis by simp
    qed
  next
    assume ok: "e = None" and inn: "name \<in> evalNodeName ` set (nodeEvaluations st)"
    from run g ok obtain latest where r: "r = Inr latest" by (cases r) (auto simp: persistAttempt_def)
    with g D(2)[of "ruleName rule" w latest v] st have l: "ruleName latest = ruleName rule" "ruleStatus latest = st" by simp_all
    from inn obtain evals where ev: "replaceEvaluation name (currentEvaluation rule name) (nodeEvaluations st) = Some evals"
      using replaceEvaluation_None_iff[of name "currentEvaluation rule name" "nodeEvaluations st"] by fastforce
    with run g r l ok have "statusUpdate env (latest\<lparr>ruleStatus := st\<lparr>nodeEvaluations := evals,
        failedNodes := mergeFailures name (failedNodes st) (failedNodes (ruleStatus rule))\<rparr>\<rparr>) v = (None, w')"
      by (simp add: persistAttempt_def)
    from D(3)[OF this] l(1) ev show "\<exists>evals. replaceEvaluation name (currentEvaluation rule name) (nodeEvaluations st) = Some evals \<and>
        sv w' (ruleName rule) = Some (st\<lparr>nodeEvaluations := evals,
          failedNodes := mergeFailures name (failedNodes st) (failedNodes (ruleStatus rule))\<rparr>)" by simp
  }
qed

subsection \<open>Properties\<close>

text \<open>
  C3: Reconciling a node settles the cached rules that apply to it together, dry runs apart: each that is
  not bootstrap-only, or is bootstrap-only and not yet marked as completed on the node, has its taint on the
  server's node exactly when one of its conditions is not met. Taints of no such rule are kept, those of
  dry-run rules among them, and so is every other node. This is for a node as the server holds it, rules of
  which no two that apply have the same taint, and a pass after which none of them holds a failure of the node.
\<close>

theorem nodeReconcile_converges:
  assumes "taints_contract env tv" and "conditions_contract env cv" and "marks_contract env av"
    and "range_order (ruleCache c) order" and "\<forall>k r. getCachedRule c k = Some r \<longrightarrow> ruleName r = k"
    and "getNode env name w = (Inr n, w1)" and "tv w name = nodeTaints n"
    and "\<forall>j k r s. getCachedRule c j = Some r \<longrightarrow> getCachedRule c k = Some s \<longrightarrow> j \<noteq> k \<longrightarrow>
      ruleAppliesTo env r n \<longrightarrow> ruleAppliesTo env s n \<longrightarrow> taint_id (taint_of r) \<noteq> taint_id (taint_of s)"
    and "nodeReconcile env order c name w = (res, c', w')"
    and "\<forall>k r. getCachedRule c' k = Some r \<longrightarrow>
      find_key failNodeName name (failedNodes (ruleStatus r)) = None"
  shows "(\<forall>k r. getCachedRule c k = Some r \<longrightarrow> ruleAppliesTo env r n \<longrightarrow> \<not> dryRun (ruleSpec r) \<longrightarrow> \<not> globalDryRun c \<longrightarrow>
      (enforcementMode (ruleSpec r) = ''bootstrap-only'' \<longrightarrow>
        \<not> hasAnnotation n (''readiness.k8s.io/bootstrap-completed-'' @ k)) \<longrightarrow>
      (hasTaintIn (tv w' name) (taint_of r) \<longleftrightarrow>
        \<not> list_all (\<lambda>c. getConditionStatus n (reqType c) = requiredStatus c) (conditions (ruleSpec r)))) \<and>
    (\<forall>t. (\<forall>k r. getCachedRule c k = Some r \<longrightarrow> ruleAppliesTo env r n \<longrightarrow> \<not> dryRun (ruleSpec r) \<longrightarrow> \<not> globalDryRun c \<longrightarrow>
        taint_id (taint_of r) \<noteq> taint_id t) \<longrightarrow>
      filter (\<lambda>s. taint_id s = taint_id t) (tv w' name) = filter (\<lambda>s. taint_id s = taint_id t) (nodeTaints n)) \<and>
    (\<forall>k. k \<noteq> name \<longrightarrow> tv w' k = tv w k)"
proof -
  let ?ks = "getApplicableRulesForNode env c n order"
  let ?marks = "{k. hasAnnotation n (bootstrapAnnotation k)}"
  note read = annotations_contractD(2)[OF marks_contractD(1)[OF assms(3)] assms(6)]
  have same: "tv w1 = tv w" "av w1 = av w" "cv w1 = cv w"
    using keepsD[OF taints_contractD(7)[OF assms(1)] assms(6)]
      keepsD[OF annotations_contractD(3)[OF marks_contractD(1)[OF assms(3)]] assms(6)]
      keepsD[OF conditions_contractD(6)[OF assms(2)] assms(6)] by blast+
  have name: "nodeName n = name" using read by simp
  obtain c1 n' w2 where loop: "processRulesLoop env ?ks c n w1 = (c1, n', w2)"
    by (cases "processRulesLoop env ?ks c n w1")
  have out: "c' = c1" "w' = w2"
    using assms(6,9) loop by (simp_all add: nodeReconcile_def processNodeAgainstAllRules_def)
  have mem: "k \<in> set ?ks \<longleftrightarrow> (\<exists>rule. getCachedRule c k = Some rule \<and> ruleAppliesTo env rule n)" for k
    by (rule getApplicableRulesForNode_iff[OF assms(4)])
  have dist: "distinct ?ks" using assms(4) by (simp add: range_order_def getApplicableRulesForNode_distinct)
  have cur: "tv w1 (nodeName n) = nodeTaints n" using name same assms(7) by simp
  have conds: "cv w1 (nodeName n) = nodeConditions n"
    using conditions_contractD(2)[OF assms(2,6)] same name by simp
  have names: "\<forall>j \<in> set ?ks. \<forall>r. fmlookup (ruleCache c) j = Some r \<longrightarrow> ruleName r = j"
    using assms(5) by (simp add: getCachedRule_def)
  have marks: "\<forall>j \<in> set ?ks. j \<notin> ?marks \<longrightarrow> \<not> marked (av w1) (nodeName n) j"
    using read name by (auto simp: same marked_def hasAnnotation_def split: option.splits)
  have clean: "\<forall>j \<in> set ?ks. \<forall>r. fmlookup (ruleCache c1) j = Some r \<longrightarrow>
      find_key failNodeName (nodeName n) (failedNodes (ruleStatus r)) = None"
    using name assms(10) out by (simp add: getCachedRule_def)
  note P = processRulesLoop_contract[OF assms(1-3) loop dist cur conds names marks clean, unfolded loop_post_def]
  have wants: "wants_taint r n \<longleftrightarrow>
      \<not> list_all (\<lambda>c. getConditionStatus n (reqType c) = requiredStatus c) (conditions (ruleSpec r))" for r
    by (simp add: wants_taint_def ready_def satisfiedBy_def[abs_def])
  have after: "tv w' name = nodeTaints n'" using P out name by simp
  show ?thesis
  proof (intro conjI allI impI)
    fix k r
    assume r: "getCachedRule c k = Some r" "ruleAppliesTo env r n" and "\<not> dryRun (ruleSpec r)" "\<not> globalDryRun c"
      and "enforcementMode (ruleSpec r) = ''bootstrap-only'' \<longrightarrow>
        \<not> hasAnnotation n (''readiness.k8s.io/bootstrap-completed-'' @ k)"
    moreover have "ruleName r = k" using assms(5) r(1) by blast
    ultimately have a: "due c ?marks r" by (simp add: due_def active_def mode_defs bootstrapAnnotation_def)
    have "\<forall>j \<in> set ?ks. \<forall>s. j \<noteq> k \<longrightarrow> fmlookup (ruleCache c) j = Some s \<longrightarrow> taint_id (taint_of s) \<noteq> taint_id (taint_of r)"
      using assms(8) r mem by (metis getCachedRule_def option.inject)
    with P mem r a have "hasTaintIn (nodeTaints n') (taint_of r) \<longleftrightarrow> wants_taint r n"
      by (auto simp: getCachedRule_def)
    with after wants show "hasTaintIn (tv w' name) (taint_of r) \<longleftrightarrow>
        \<not> list_all (\<lambda>c. getConditionStatus n (reqType c) = requiredStatus c) (conditions (ruleSpec r))" by simp
  next
    fix t
    assume t: "\<forall>k r. getCachedRule c k = Some r \<longrightarrow> ruleAppliesTo env r n \<longrightarrow> \<not> dryRun (ruleSpec r) \<longrightarrow> \<not> globalDryRun c \<longrightarrow>
        taint_id (taint_of r) \<noteq> taint_id t"
    have "\<forall>j \<in> set ?ks. \<forall>r. fmlookup (ruleCache c) j = Some r \<longrightarrow> active c r \<longrightarrow> taint_id (taint_of r) \<noteq> taint_id t"
      using t mem unfolding active_def by (metis getCachedRule_def option.inject)
    with P after show "filter (\<lambda>s. taint_id s = taint_id t) (tv w' name) = filter (\<lambda>s. taint_id s = taint_id t) (nodeTaints n)"
      unfolding same_id_def[symmetric] by simp
  next
    fix k assume "k \<noteq> name"
    with P out name same show "tv w' k = tv w k" by simp
  qed
qed

lemmas node_eval = nodeReconcile_def processNodeAgainstAllRules_def newReadinessGateController_def
  updateRuleCache_def isBootstrapCompleted_def skipRule_def persistAttempt_def writeThrough_def

text \<open>A bootstrap-only rule and a node that it has not let through yet.\<close>

theorem nodeReconcile_converges_witness:
  "\<exists>res c' s'. nodeReconcile mem_env [''net''] (updateRuleCache newReadinessGateController (net_rule ''bootstrap-only'' False)) ''w1''
       (server_of [worker ''w1'' ''False'' [disk_taint]] [net_rule ''bootstrap-only'' False] []) = (res, c', s') \<and>
     hasTaintIn (server_taints s' ''w1'') net_taint"
proof -
  let ?r = "net_rule ''bootstrap-only'' False" and ?n = "worker ''w1'' ''False'' [disk_taint]"
  let ?c = "updateRuleCache newReadinessGateController ?r" and ?s = "server_of [?n] [?r] []"
  have name: "ruleName ?r = ''net''" "nodeName ?n = ''w1''" by (simp_all add: net_rule_def worker_def)
  have cached: "getCachedRule ?c k = (if k = ''net'' then Some ?r else None)" for k
    by (simp add: cache.lookup_update name) (simp add: getCachedRule_def newReadinessGateController_def)
  have order: "range_order (ruleCache ?c) [''net'']"
    by (simp add: range_order_def updateRuleCache_def newReadinessGateController_def name)
  have names: "\<forall>k r. getCachedRule ?c k = Some r \<longrightarrow> ruleName r = k" by (simp add: cached name)
  have get: "getNode mem_env ''w1'' ?s = (Inr ?n, ?s)" by (simp add: server_of_def worker_def server_defs)
  have cur: "server_taints ?s ''w1'' = nodeTaints ?n" by (simp add: server_taints_def server_of_def worker_def)
  have apart: "\<forall>j k r s. getCachedRule ?c j = Some r \<longrightarrow> getCachedRule ?c k = Some s \<longrightarrow> j \<noteq> k \<longrightarrow>
      ruleAppliesTo mem_env r ?n \<longrightarrow> ruleAppliesTo mem_env s ?n \<longrightarrow> taint_id (taint_of r) \<noteq> taint_id (taint_of s)"
    by (simp add: cached)
  obtain r' c' s' where run: "nodeReconcile mem_env [''net''] ?c ''w1'' ?s = ((emptyResult, None), c', s')"
    and c': "ruleCache c' = fmupd ''net'' r' (ruleCache ?c)" and ok: "failedNodes (ruleStatus r') = []"
    by (simp add: node_eval processing_eval evaluation_eval sample_defs server_defs mode_defs)
  have clean: "\<forall>k r. getCachedRule c' k = Some r \<longrightarrow> find_key failNodeName ''w1'' (failedNodes (ruleStatus r)) = None"
    using cached ok by (simp add: c' getCachedRule_def)
  have hit: "getCachedRule ?c ''net'' = Some ?r" by (simp add: cached)
  have applies: "ruleAppliesTo mem_env ?r ?n" by (simp add: ruleAppliesTo_def sample_defs server_defs Let_def)
  have mode: "\<not> hasAnnotation ?n (''readiness.k8s.io/bootstrap-completed-'' @ ''net'')" "\<not> dryRun (ruleSpec ?r)" "\<not> globalDryRun ?c"
    by (simp_all add: net_rule_def net_spec_def updateRuleCache_def newReadinessGateController_def hasAnnotation_def worker_def)
  from nodeReconcile_converges[OF mem_taints_contract mem_conditions_contract mem_marks_contract,
      OF order names get cur apart run clean] hit applies mode
  have "hasTaintIn (server_taints s' ''w1'') (taint_of ?r) \<longleftrightarrow>
      \<not> list_all (\<lambda>c. getConditionStatus ?n (reqType c) = requiredStatus c) (conditions (ruleSpec ?r))"
    by blast
  then have "hasTaintIn (server_taints s' ''w1'') net_taint"
    by (simp add: getConditionStatus_def net_rule_def net_spec_def worker_def net_condition_def)
  with run show ?thesis by blast
qed

text \<open>
  The node reconciler only reports that the node could not be read: once it has the node, it returns
  success without asking for another run, whatever failed while the rules were evaluated.
\<close>

lemma nodeReconcile_result:
  "fst (nodeReconcile env order c name w) = (\<lparr>requeueAfter = 0\<rparr>,
     (case fst (getNode env name w) of Inr n \<Rightarrow> None | Inl e \<Rightarrow> if errorReason e = NotFound then None else Some e))"
  by (simp add: nodeReconcile_def emptyResult_def split: prod.split sum.split)

text \<open>
  With the global dry run set, reconciling a node writes nothing: whatever the reading calls keep, it
  keeps, and the cache stays as it is.
\<close>

lemma nodeReconcile_global_dry_run:
  assumes "read_only env I" and "I w" and "globalDryRun c"
    and "nodeReconcile env order c name w = (res, c', w')"
  shows "I w' \<and> c' = c"
proof -
  obtain r w1 where g: "getNode env name w = (r, w1)" by (cases "getNode env name w")
  have w1: "I w1" by (rule read_onlyD(3)[OF assms(1,2) g])
  show ?thesis
  proof (cases r)
    case (Inl e)
    with assms(4) g w1 show ?thesis by (simp add: nodeReconcile_def)
  next
    case (Inr n)
    obtain c1 n' w2 where loop: "processRulesLoop env (getApplicableRulesForNode env c n order) c n w1 = (c1, n', w2)"
      by (cases "processRulesLoop env (getApplicableRulesForNode env c n order) c n w1")
    have "c1 = c \<and> n' = n \<and> I w2"
      by (rule processRulesLoop_skips[OF assms(1) w1 _ loop]) (simp add: skipRule_def assms(3))
    with assms(4) g Inr loop show ?thesis by (simp add: nodeReconcile_def processNodeAgainstAllRules_def)
  qed
qed

lemma nodeReconcile_global_dry_run_witness:
  "\<exists>s'. snd (snd (nodeReconcile mem_env [''net'']
       (setGlobalDryRun (updateRuleCache newReadinessGateController (net_rule ''continuous'' False)) True) ''w1''
       (server_of [worker ''w1'' ''False'' []] [net_rule ''continuous'' False] []))) = s' \<and>
     srvNodes s' = [worker ''w1'' ''False'' []]"
proof -
  let ?c = "setGlobalDryRun (updateRuleCache newReadinessGateController (net_rule ''continuous'' False)) True"
  let ?s = "server_of [worker ''w1'' ''False'' []] [net_rule ''continuous'' False] []"
  obtain res c' s' where run: "nodeReconcile mem_env [''net''] ?c ''w1'' ?s = (res, c', s')"
    by (cases "nodeReconcile mem_env [''net''] ?c ''w1'' ?s")
  have I: "srvNodes ?s = [worker ''w1'' ''False'' []] \<and> srvRules ?s = [net_rule ''continuous'' False]"
    by (simp add: server_of_def)
  have g: "globalDryRun ?c" by (simp add: setGlobalDryRun_def)
  from nodeReconcile_global_dry_run[OF mem_read_only I g run] run show ?thesis by simp
qed

text \<open>
  C27: A node is left alone once all rules that apply to it are bootstrap-only and the node carries their
  completion marks: as long as the node can be read, nothing is written, and neither the node nor the
  cache changes.
\<close>

theorem completed_rules_skipped:
  assumes "read_only env I" and "I w"
    and "\<forall>k rule. getCachedRule c k = Some rule \<longrightarrow> ruleAppliesTo env rule n \<longrightarrow>
      enforcementMode (ruleSpec rule) = ''bootstrap-only'' \<and>
      (\<forall>v. I v \<longrightarrow> (\<exists>m v'. getNode env (nodeName n) v = (Inr m, v') \<and>
        hasAnnotation m (bootstrapAnnotation (ruleName rule))))"
    and "processNodeAgainstAllRules env order c n w = (c', n', w')"
  shows "c' = c \<and> n' = n \<and> I w'"
proof (rule processRulesLoop_skips[OF assms(1,2)])
  fix k rule b v v'
  assume k: "k \<in> set (getApplicableRulesForNode env c n order)" "getCachedRule c k = Some rule" "I v"
    and b: "isBootstrapCompleted env (nodeName n) (ruleName rule) v = (b, v')"
  from k(1,2) have applies: "ruleAppliesTo env rule n" by (auto simp: getApplicableRulesForNode_set)
  with assms(3) k(2) have mode: "enforcementMode (ruleSpec rule) = ''bootstrap-only''" by blast
  from assms(3) k(2) applies k(3) obtain m v2 where "getNode env (nodeName n) v = (Inr m, v2)"
    "hasAnnotation m (bootstrapAnnotation (ruleName rule))" by blast
  with b have b by (simp add: isBootstrapCompleted_def)
  with mode show "skipRule c rule b" by (simp add: skipRule_def mode_defs)
qed (use assms(4) in \<open>simp add: processNodeAgainstAllRules_def\<close>)

definition completed_worker :: node where
  "completed_worker = (worker ''w1'' ''False'' [])\<lparr>nodeAnnotations :=
     Some (fmupd (bootstrapAnnotation ''net'') ''true'' fmempty)\<rparr>"

theorem completed_rules_skipped_witness:
  "\<exists>s'. processNodeAgainstAllRules mem_env [''net'']
       (updateRuleCache newReadinessGateController (net_rule ''bootstrap-only'' False)) completed_worker
       (server_of [completed_worker] [] []) =
     (updateRuleCache newReadinessGateController (net_rule ''bootstrap-only'' False), completed_worker, s') \<and>
     srvNodes s' = [completed_worker]"
proof -
  let ?r = "net_rule ''bootstrap-only'' False" and ?s = "server_of [completed_worker] [] []"
  let ?c = "updateRuleCache newReadinessGateController ?r"
  have name: "ruleName ?r = ''net''" by (simp add: net_rule_def)
  have cached: "getCachedRule ?c k = (if k = ''net'' then Some ?r else None)" for k
    by (simp add: cache.lookup_update name) (simp add: getCachedRule_def newReadinessGateController_def)
  have I: "srvNodes ?s = [completed_worker] \<and> srvRules ?s = []" by (simp add: server_of_def)
  have mode: "enforcementMode (ruleSpec ?r) = ''bootstrap-only''" by (simp add: net_rule_def net_spec_def)
  have read: "\<exists>m v'. getNode mem_env (nodeName completed_worker) v = (Inr m, v') \<and>
      hasAnnotation m (bootstrapAnnotation (ruleName ?r))" if "srvNodes v = [completed_worker]" for v
    using that by (simp add: mem_env_simps hasAnnotation_def completed_worker_def name)
  have marked: "\<forall>k rule. getCachedRule ?c k = Some rule \<longrightarrow> ruleAppliesTo mem_env rule completed_worker \<longrightarrow>
      enforcementMode (ruleSpec rule) = ''bootstrap-only'' \<and>
      (\<forall>v. srvNodes v = [completed_worker] \<and> srvRules v = [] \<longrightarrow>
        (\<exists>m v'. getNode mem_env (nodeName completed_worker) v = (Inr m, v') \<and>
          hasAnnotation m (bootstrapAnnotation (ruleName rule))))"
  proof (intro allI impI)
    fix k rule
    assume "getCachedRule ?c k = Some rule"
    then have "rule = ?r" by (simp add: cached split: if_splits)
    with mode read show "enforcementMode (ruleSpec rule) = ''bootstrap-only'' \<and>
      (\<forall>v. srvNodes v = [completed_worker] \<and> srvRules v = [] \<longrightarrow>
        (\<exists>m v'. getNode mem_env (nodeName completed_worker) v = (Inr m, v') \<and>
          hasAnnotation m (bootstrapAnnotation (ruleName rule))))" by simp
  qed
  obtain c' n' s' where run: "processNodeAgainstAllRules mem_env [''net''] ?c completed_worker ?s = (c', n', s')"
    by (cases "processNodeAgainstAllRules mem_env [''net''] ?c completed_worker ?s")
  from completed_rules_skipped[OF mem_read_only I marked run] run show ?thesis by simp
qed

text \<open>
  C28: Writing a node's result through to the stored status replaces the node's own evaluation by the one
  just made and the node's failure by the one of this run, if any; entries of other nodes, their order
  and the list of applied nodes stay.
\<close>

theorem persist_replaces_own_entry:
  assumes "status_contract env sv" and "persistAttempt env rule name w = (None, w')"
    and "sv w (ruleName rule) = Some st" and "name \<in> evalNodeName ` set (nodeEvaluations st)"
    and "find_key evalNodeName name (nodeEvaluations (ruleStatus rule)) = Some ev"
  shows "\<exists>st'. sv w' (ruleName rule) = Some st' \<and>
    (\<forall>k. find_key evalNodeName k (nodeEvaluations st') =
      (if k = name then Some ev else find_key evalNodeName k (nodeEvaluations st))) \<and>
    (\<forall>k. find_key failNodeName k (failedNodes st') =
      (if k = name then find_key failNodeName k (failedNodes (ruleStatus rule)) else find_key failNodeName k (failedNodes st))) \<and>
    map evalNodeName (nodeEvaluations st') = map evalNodeName (nodeEvaluations st) \<and>
    appliedNodes st' = appliedNodes st"
proof -
  have cur: "currentEvaluation rule name = ev" "evalNodeName ev = name"
    using assms(5) find_key_SomeD[OF assms(5)] by (simp_all add: currentEvaluation_def)
  from persistAttempt_stored(2)[OF assms(1-3) refl assms(4)] obtain evals where
    ev: "replaceEvaluation name ev (nodeEvaluations st) = Some evals"
    and st: "sv w' (ruleName rule) = Some (st\<lparr>nodeEvaluations := evals,
      failedNodes := mergeFailures name (failedNodes st) (failedNodes (ruleStatus rule))\<rparr>)"
    unfolding cur by blast
  show ?thesis
    by (intro exI conjI, rule st)
      (simp_all add: replaceEvaluation_find[OF ev cur(2)] replaceEvaluation_keys[OF ev cur(2)] mergeFailures_find)
qed

definition stored_rule :: "string \<Rightarrow> nodeReadinessRule" where
  "stored_rule st = (net_rule ''continuous'' False)\<lparr>ruleStatus := no_status
     \<lparr>nodeEvaluations := [mkEvaluation ''w1'' ([], st, 0), mkEvaluation ''w2'' ([], ''Absent'', 0)]\<rparr>\<rparr>"

lemma stored_rule_simps:
  "ruleName (stored_rule st) = ''net''"
  "nodeEvaluations (ruleStatus (stored_rule st)) = [mkEvaluation ''w1'' ([], st, 0), mkEvaluation ''w2'' ([], ''Absent'', 0)]"
  "server_status (server_of ns [stored_rule st] []) ''net'' = Some (ruleStatus (stored_rule st))"
  "getRule mem_env ''net'' (server_of ns [stored_rule st] []) = (Inr (stored_rule st), server_of ns [stored_rule st] [])"
  by (simp_all add: stored_rule_def net_rule_def server_status_def server_of_def mem_env_simps)

theorem persist_replaces_own_entry_witness:
  "\<exists>s' st'. persistAttempt mem_env (stored_rule ''Present'') ''w1'' (server_of [] [stored_rule ''Absent''] []) = (None, s') \<and>
     server_status s' ''net'' = Some st' \<and>
     find_key evalNodeName ''w1'' (nodeEvaluations st') = Some (mkEvaluation ''w1'' ([], ''Present'', 0))"
proof -
  let ?r = "stored_rule ''Present''" and ?s = "server_of [] [stored_rule ''Absent''] []"
  obtain s' where run: "persistAttempt mem_env ?r ''w1'' ?s = (None, s')"
    by (simp add: persistAttempt_def mkEvaluation_def stored_rule_def currentEvaluation_def sample_defs server_defs)
  have st: "server_status ?s (ruleName ?r) = Some (ruleStatus (stored_rule ''Absent''))" by (simp add: stored_rule_simps)
  have inn: "''w1'' \<in> evalNodeName ` set (nodeEvaluations (ruleStatus (stored_rule ''Absent'')))"
    by (simp add: stored_rule_simps mkEvaluation_def)
  have own: "find_key evalNodeName ''w1'' (nodeEvaluations (ruleStatus ?r)) = Some (mkEvaluation ''w1'' ([], ''Present'', 0))"
    by (simp add: stored_rule_simps mkEvaluation_def)
  from persist_replaces_own_entry[OF mem_status_contract, OF run st inn own] obtain st' where
    "server_status s' (ruleName ?r) = Some st'"
    "find_key evalNodeName ''w1'' (nodeEvaluations st') = Some (mkEvaluation ''w1'' ([], ''Present'', 0))" by auto
  with run show ?thesis unfolding stored_rule_simps(1) by blast
qed

text \<open>
  C36: A node that the stored status does not list yet is never added by the node reconciler: the evaluation
  is appended to a copy that is then dropped, and the stored statuses stay as they were.
\<close>

theorem new_node_not_persisted:
  assumes "status_contract env sv" and "persistAttempt env rule name w = (e, w')"
    and "sv w (ruleName rule) = Some st" and "name \<notin> evalNodeName ` set (nodeEvaluations st)"
  shows "sv w' = sv w"
  by (rule persistAttempt_stored(1)[OF assms])

theorem new_node_not_persisted_witness:
  "\<exists>s'. snd (persistAttempt mem_env (stored_rule ''Present'') ''w3'' (server_of [] [stored_rule ''Absent''] [])) = s' \<and>
     server_status s' = server_status (server_of [] [stored_rule ''Absent''] [])"
proof -
  let ?r = "stored_rule ''Present''" and ?s = "server_of [] [stored_rule ''Absent''] []"
  obtain e s' where run: "persistAttempt mem_env ?r ''w3'' ?s = (e, s')" by (cases "persistAttempt mem_env ?r ''w3'' ?s")
  have st: "server_status ?s (ruleName ?r) = Some (ruleStatus (stored_rule ''Absent''))" by (simp add: stored_rule_simps)
  have out: "''w3'' \<notin> evalNodeName ` set (nodeEvaluations (ruleStatus (stored_rule ''Absent'')))"
    by (simp add: stored_rule_simps mkEvaluation_def)
  from new_node_not_persisted[OF mem_status_contract, OF run st out] run show ?thesis by simp
qed

subsection \<open>Failures that are not published\<close>

text \<open>
  The API server validates a status against the schema of the resource, in which the name of an evaluation
  has at least one character; it refuses one that is not so.
\<close>

definition refuses_unnamed :: "'w env \<Rightarrow> bool" where
  "refuses_unnamed env \<longleftrightarrow> (\<forall>r w. \<not> named_evaluations (ruleStatus r) \<longrightarrow> fst (statusUpdate env r w) \<noteq> None)"

lemma replaceEvaluation_member: "replaceEvaluation name ev es = Some es' \<Longrightarrow> ev \<in> set es'"
  by (induction es arbitrary: es') (auto split: if_splits)

text \<open>A result without an evaluation of the node replaces the stored entry by an empty one, which is refused.\<close>

lemma persistAttempt_refused:
  assumes con: "status_contract env sv" and strict: "refuses_unnamed env" and run: "persistAttempt env rule name w = (e, w')"
    and st: "sv w (ruleName rule) = Some st" and inn: "name \<in> evalNodeName ` set (nodeEvaluations st)"
    and none: "find_key evalNodeName name (nodeEvaluations (ruleStatus rule)) = None"
  shows "e \<noteq> None \<and> sv w' = sv w"
proof -
  note D = status_contractD[OF con]
  have cur: "currentEvaluation rule name = emptyNodeEvaluation" using none by (simp add: currentEvaluation_def)
  obtain r v where g: "getRule env (ruleName rule) w = (r, v)" by (cases "getRule env (ruleName rule) w")
  have sv: "sv v = sv w" by (rule keepsD[OF D(5) g])
  show ?thesis
  proof (cases r)
    case (Inl x)
    with run g sv show ?thesis by (auto simp: persistAttempt_def)
  next
    case (Inr latest)
    with g D(2)[of "ruleName rule" w latest v] st have l: "ruleStatus latest = st" by simp
    from inn obtain evals where ev: "replaceEvaluation name emptyNodeEvaluation (nodeEvaluations st) = Some evals"
      using replaceEvaluation_None_iff[of name emptyNodeEvaluation "nodeEvaluations st"] by fastforce
    let ?r = "latest\<lparr>ruleStatus := st\<lparr>nodeEvaluations := evals,
        failedNodes := mergeFailures name (failedNodes st) (failedNodes (ruleStatus rule))\<rparr>\<rparr>"
    have up: "statusUpdate env ?r v = (e, w')" using run g Inr l ev by (simp add: persistAttempt_def cur)
    have "\<not> named_evaluations (ruleStatus ?r)"
      using replaceEvaluation_member[OF ev] by (auto simp: named_evaluations_def emptyNodeEvaluation_def intro!: bexI)
    with strict up have "e \<noteq> None" unfolding refuses_unnamed_def by (metis fst_conv)
    with D(4) up sv show ?thesis by (cases e) auto
  qed
qed

lemma persist_refused:
  assumes con: "status_contract env sv" and strict: "refuses_unnamed env"
    and run: "retryOnConflict env (persistAttempt env rule name) w = (e, w')"
    and st: "sv w (ruleName rule) = Some st" and inn: "name \<in> evalNodeName ` set (nodeEvaluations st)"
    and none: "find_key evalNodeName name (nodeEvaluations (ruleStatus rule)) = None"
  shows "e \<noteq> None \<and> sv w' = sv w"
proof -
  note retry = status_contractD(1)[OF con]
  have attempt: "fst (persistAttempt env rule name v) \<noteq> None \<and> sv (snd (persistAttempt env rule name v)) = sv w" if "sv v = sv w" for v
    using persistAttempt_refused[OF con strict _ _ inn none, of v] st that by (metis prod.collapse)
  have step: "sv (snd (persistAttempt env rule name v)) = sv w" if "sv v = sv w" for v using attempt[OF that] by simp
  have never: "False" if "sv v = sv w" "persistAttempt env rule name v = (None, v')" for v v'
    using attempt[OF that(1)] unfolding that(2) by simp
  have "sv (snd (retryOnConflict env (persistAttempt env rule name) w)) = sv w"
    by (rule retry_invariant[where I = "\<lambda>v. sv v = sv w", OF retry refl step])
  moreover have "e \<noteq> None"
  proof
    assume "e = None"
    show False
      by (rule retry_success[where I = "\<lambda>v. sv v = sv w" and Q = "\<lambda>_. False",
          OF retry run[unfolded \<open>e = None\<close>] refl step]) (assumption | rule never)+
  qed
  ultimately show ?thesis using run by simp
qed

lemma evaluateRuleForNode_failed_status:
  assumes "status_contract env sv" and "evaluateRuleForNode env rule n w = (Some e, rule', n', w')"
  shows "sv w' = sv w"
proof -
  from evaluateRuleForNode_error[OF assms(2)] obtain x where "patchNode env n (steered rule n) w = (Inl x, w')" by blast
  moreover have "keeps sv (patchNode env n (steered rule n))" using assms(1) unfolding status_contract_def by blast
  ultimately show ?thesis by (metis keepsD)
qed

text \<open>
  C37: A node whose evaluation failed before the rule in the cache had an entry for it does not show up as
  failed: the failure is recorded in the cached rule, but when it is written to the stored status, which
  lists the node, the write replaces the node's entry by an empty one; the API server refuses that, the
  call ends in an error, and the stored statuses are as before.
\<close>

theorem failed_evaluation_not_published:
  assumes "status_contract env sv" and "refuses_unnamed env"
    and "evaluateRuleForNode env rule n w = (Some e, rule0, n0, w0)"
    and "find_key evalNodeName (nodeName n) (nodeEvaluations (ruleStatus rule)) = None"
    and "sv w (ruleName rule) = Some st" and "nodeName n \<in> evalNodeName ` set (nodeEvaluations st)"
    and "evaluateOrRecord env rule n w = (rule', n', w1)"
    and "retryOnConflict env (persistAttempt env rule' (nodeName n')) w1 = (err, w2)"
  shows "(\<exists>f. find_key failNodeName (nodeName n) (failedNodes (ruleStatus rule')) = Some f \<and> failMessage f = errorString e) \<and>
    err \<noteq> None \<and> sv w2 = sv w"
proof -
  note err = evaluateRuleForNode_error[OF assms(3)]
  then have r0: "rule0 = rule" "nodeName n0 = nodeName n" by simp_all
  let ?f = "recordNodeFailure env rule (nodeName n) ''EvaluationError'' (errorString e) w0"
  have out: "rule' = fst ?f" "w1 = snd ?f" "n' = n0"
    using assms(3,7) r0 by (simp_all add: evaluateOrRecord_def split: prod.splits)
  have sv1: "sv w1 = sv w"
    using evaluateRuleForNode_failed_status[OF assms(1,3)] assms(1) out(2)
    by (simp add: recordNodeFailure_eq status_contract_def keeps_def)
  have name: "ruleName rule' = ruleName rule" using evaluateOrRecord_same_rule[OF assms(7)] by (simp add: same_rule_def)
  have none: "find_key evalNodeName (nodeName n') (nodeEvaluations (ruleStatus rule')) = None"
    using assms(4) r0(2) by (simp add: out recordNodeFailure_eq)
  have "err \<noteq> None \<and> sv w2 = sv w1"
    by (rule persist_refused[OF assms(1,2,8) _ _ none]) (use assms(5,6) sv1 name out(3) r0(2) in simp_all)
  with sv1 show ?thesis by (simp add: out(1) recordNodeFailure_find mkFailure_def)
qed

text \<open>The in-memory server with the check.\<close>

definition strict_env :: "server env" where
  "strict_env = mem_env\<lparr>statusUpdate := (\<lambda>r s. if named_evaluations (ruleStatus r) then statusUpdate mem_env r s
     else (Some (ApiError OtherReason ''invalid''), s))\<rparr>"

lemma strict_env_simps [simp]: "patchNode strict_env = patchNode mem_env" "clockNow strict_env = clockNow mem_env"
  by (simp_all add: strict_env_def)

lemma strict_contracts: "status_contract strict_env server_status" "refuses_unnamed strict_env"
  using mem_status_contract
  by (auto simp: status_contract_def strict_env_def retry_contract_def keeps_def refuses_unnamed_def)

theorem failed_evaluation_not_published_witness:
  "\<exists>rule' n' s1 err s2. evaluateOrRecord strict_env (net_rule ''continuous'' False) (worker ''w1'' ''False'' [])
       (server_of [worker ''w1'' ''False'' []] [stored_rule ''Absent''] [Some denied]) = (rule', n', s1) \<and>
     retryOnConflict strict_env (persistAttempt strict_env rule' (nodeName n')) s1 = (Some err, s2) \<and>
     server_status s2 ''net'' = Some (ruleStatus (stored_rule ''Absent''))"
proof -
  let ?n = "worker ''w1'' ''False'' []" and ?r = "net_rule ''continuous'' False"
  let ?s = "server_of [?n] [stored_rule ''Absent''] [Some denied]"
  have names: "nodeName ?n = ''w1''" "ruleName ?r = ''net''" by (simp_all add: worker_def net_rule_def)
  obtain e r0 n0 s0 where ev: "evaluateRuleForNode strict_env ?r ?n ?s = (Some e, r0, n0, s0)"
    by (simp add: evaluation_eval sample_defs server_defs)
  obtain rule' n' s1 where rec: "evaluateOrRecord strict_env ?r ?n ?s = (rule', n', s1)" by (cases "evaluateOrRecord strict_env ?r ?n ?s")
  obtain err s2 where per: "retryOnConflict strict_env (persistAttempt strict_env rule' (nodeName n')) s1 = (err, s2)"
    by (cases "retryOnConflict strict_env (persistAttempt strict_env rule' (nodeName n')) s1")
  have none: "find_key evalNodeName (nodeName ?n) (nodeEvaluations (ruleStatus ?r)) = None" by (simp add: net_rule_def no_status_def)
  have st: "server_status ?s (ruleName ?r) = Some (ruleStatus (stored_rule ''Absent''))"
    by (simp add: server_status_def server_of_def stored_rule_simps names)
  have inn: "nodeName ?n \<in> evalNodeName ` set (nodeEvaluations (ruleStatus (stored_rule ''Absent'')))"
    by (simp add: stored_rule_simps mkEvaluation_def names)
  note th = failed_evaluation_not_published[OF strict_contracts ev none st inn rec per]
  then obtain x where "err = Some x" by blast
  with th rec per st show ?thesis unfolding names by auto
qed

end
