(* ===== verification/Rule_Outcomes.thy ===== *)
theory Rule_Outcomes
  imports Rule_Reconciler
begin

text \<open>
  What one call of \<open>RuleReconciler.Reconcile\<close> comes to as a whole: what it returns, what it
  publishes, when the finalizer goes, what it does to the cache, and how the dry run of a rule relates
  to the run that follows it. The definitions are those of \<open>Rule_Reconciler\<close>; this theory adds none
  that model code.
\<close>

subsection \<open>What is returned\<close>

definition allowed_result :: "ctrlResult \<times> goError option \<Rightarrow> bool" where
  "allowed_result r \<longleftrightarrow> fst r = emptyResult \<or> fst r = requeueAfterMinute \<and> snd r \<noteq> None"

lemma allowed_result_simps [simp]:
  "allowed_result (emptyResult, e)" "allowed_result (requeueAfterMinute, Some x)"
  by (simp_all add: allowed_result_def)

lemma reconcileProcessing_allowed: "reconcileProcessing env rule w = (r, w') \<Longrightarrow> allowed_result r"
  by (auto simp: reconcileProcessing_def split: prod.splits option.splits)

lemma reconcileDeletion_allowed: "allowed_result (fst (reconcileDeletion env c rule w))"
  by (auto simp: reconcileDeletion_def split: prod.split option.split sum.split)

lemma ruleReconcile_allowed: "allowed_result (fst (ruleReconcile env c name w))"
  by (auto simp: ruleReconcile_def reconcileDeletion_allowed dest: reconcileProcessing_allowed
      split: prod.split option.split sum.split)

text \<open>
  The reconciler returns success only with an empty result, and asks for another run after a minute
  only together with an error; it never asks for any other delay.
\<close>

lemma ruleReconcile_result:
  "(\<exists>e. fst (ruleReconcile env c name w) = (\<lparr>requeueAfter = 0\<rparr>, e)) \<or>
   (\<exists>x. fst (ruleReconcile env c name w) = (\<lparr>requeueAfter = 60\<rparr>, Some x))"
  using ruleReconcile_allowed[of env c name w]
  by (cases "fst (ruleReconcile env c name w)") (auto simp: allowed_result_def emptyResult_def requeueAfterMinute_def)

subsection \<open>The cache\<close>

text \<open>
  A call changes the cache entry of at most one rule: it stores the rule it fetched or drops an entry.
\<close>

lemma ruleReconcile_cache:
  assumes "ruleReconcile env c name w = (res, c', w')"
  shows "c' = c \<or> c' = removeRuleFromCache c name \<or>
    (\<exists>rule v v'. getRule env name v = (Inr rule, v') \<and> c' = updateRuleCache c rule) \<or>
    (\<exists>rule rule' v v' u u'. getRule env name v = (Inr rule, v') \<and>
       updateRule env (removeFinalizer rule finalizerName) u = (Inr rule', u') \<and>
       c' = removeRuleFromCache c (ruleName rule'))"
proof -
  obtain r w1 where g: "getRule env name w = (r, w1)" by (cases "getRule env name w")
  show ?thesis
  proof (cases r)
    case (Inl e)
    with assms g show ?thesis by (auto simp: ruleReconcile_def split: if_splits)
  next
    case (Inr rule0)
    show ?thesis
    proof (cases "deletionTimestamp rule0 = None")
      case False
      with assms g Inr have del: "reconcileDeletion env c rule0 w1 = (res, c', w')" by (simp add: ruleReconcile_def)
      then show ?thesis
        by (auto simp: reconcileDeletion_def split: if_splits prod.splits option.splits sum.splits)
          (use g Inr in blast)+
    next
      case True
      obtain f w2 where f: "ensureFinalizer env name rule0 w1 = (f, w2)" by (cases "ensureFinalizer env name rule0 w1")
      show ?thesis
      proof (cases f)
        case (Inl x)
        with assms g Inr True f show ?thesis by (simp add: ruleReconcile_def)
      next
        case Inr2: (Inr rule)
        have got: "\<exists>v v'. getRule env name v = (Inr rule, v')"
          using f Inr2 g Inr by (auto simp: ensureFinalizer_def split: if_splits prod.splits sum.splits)
        have "c' = c \<or> c' = updateRuleCache c rule"
          using assms g Inr True f Inr2 by (auto simp: ruleReconcile_def split: prod.splits option.splits)
        with got show ?thesis by blast
      qed
    qed
  qed
qed

text \<open>
  C33: The controller's global dry run does not reach this reconciler: with the flag set or clear, the same
  call returns the same result, makes the same calls in the same order and leaves the same cache.
\<close>

theorem ruleReconcile_ignores_globalDryRun:
  "ruleReconcile env (setGlobalDryRun c b) name w =
     (case ruleReconcile env c name w of (res, c', w') \<Rightarrow> (res, setGlobalDryRun c' b, w'))"
  by (auto simp: ruleReconcile_def reconcileDeletion_def reconcileSelectorChange_def getCachedRule_def
      setGlobalDryRun_def removeRuleFromCache_def updateRuleCache_def
      split: prod.split sum.split option.split)

subsection \<open>Publishing\<close>

text \<open>
  C8: When a reconcile of a rule that is not being deleted succeeds, whatever path it took to get to the
  processing (finalizer present or just added, rule cached or not, selector changed or not), the stored
  status is the one that processing, or the dry run, computed: the same generation, applied nodes, failures
  and dry-run outcome, and of the evaluations, in their order, those whose node is in the list read after the
  status was written; and the rule as it was fetched, with the finalizer in place, is in the cache.
\<close>

theorem ruleReconcile_publishes:
  assumes "status_contract env sv" and "getRule env name w = (Inr rule0, w1)"
    and "deletionTimestamp rule0 = None" and "ruleReconcile env c name w = ((res, None), c', w')"
  shows "\<exists>rule w2 w3 rule1 w4 w5 nodes w6. ensureFinalizer env name rule0 w1 = (Inr rule, w2) \<and>
    (containsFinalizer rule0 finalizerName \<longrightarrow> rule = rule0) \<and>
    reconcileSelectorChange env c rule w2 = (None, w3) \<and> processRule env rule w3 = (None, rule1, w4) \<and>
    updateRuleStatus env rule1 w4 = (None, w5) \<and> listNodes env w5 = (Inr nodes, w6) \<and>
    sv w' name = Some
      \<lparr>observedGeneration = observedGeneration (ruleStatus rule1),
       appliedNodes = appliedNodes (ruleStatus rule1), failedNodes = failedNodes (ruleStatus rule1),
       nodeEvaluations = filter (\<lambda>e. evalNodeName e \<in> nodeName ` set nodes) (nodeEvaluations (ruleStatus rule1)),
       dryRunOutcome = dryRunOutcome (ruleStatus rule1)\<rparr> \<and>
    getCachedRule c' name = Some rule \<and> requeueAfter res = 0"
proof -
  obtain rule w2 where fin: "ensureFinalizer env name rule0 w1 = (Inr rule, w2)"
    using assms(2-4) by (auto simp: ruleReconcile_def split: prod.splits sum.splits)
  obtain w3 where sel: "reconcileSelectorChange env c rule w2 = (None, w3)"
    using assms(2-4) fin by (auto simp: ruleReconcile_def split: prod.splits option.splits)
  have proc: "reconcileProcessing env rule w3 = ((res, None), w')" and c': "c' = updateRuleCache c rule"
    using assms(2-4) fin sel by (auto simp: ruleReconcile_def split: prod.splits)
  have kept: "containsFinalizer rule0 finalizerName \<longrightarrow> rule = rule0" using fin by (auto simp: ensureFinalizer_def)
  from ensureFinalizer_got[OF fin assms(2)] obtain v v' where "getRule env name v = (Inr rule, v')" by blast
  then have name: "ruleName rule = name" using status_contractD(2)[OF assms(1)] by blast
  have cached: "getCachedRule c' name = Some rule" using name by (simp add: c' cache.lookup_update)
  have pruned: "prune nodes st = \<lparr>observedGeneration = observedGeneration st, appliedNodes = appliedNodes st,
      failedNodes = failedNodes st, nodeEvaluations = filter (\<lambda>e. evalNodeName e \<in> nodeName ` set nodes) (nodeEvaluations st),
      dryRunOutcome = dryRunOutcome st\<rparr>" for nodes and st :: nodeReadinessRuleStatus
    unfolding prune_def by (rule nodeReadinessRuleStatus.equality) simp_all
  from reconcileProcessing_publishes[OF assms(1) proc] obtain rule1 w4 w5 nodes w6 where
    "processRule env rule w3 = (None, rule1, w4)" "updateRuleStatus env rule1 w4 = (None, w5)"
    "listNodes env w5 = (Inr nodes, w6)" "res = emptyResult" "sv w' name = Some (prune nodes (ruleStatus rule1))"
    unfolding name by blast
  then show ?thesis using fin sel kept cached unfolding pruned emptyResult_def by fastforce
qed

lemmas reconcile_eval = ruleReconcile_def ensureFinalizer_def containsFinalizer_def finalizerName_def
  reconcileSelectorChange_def newReadinessGateController_def getCachedRule_def reconcileProcessing_def
  processRule_def updateRuleStatus_def updateStatusAttempt_def cleanupDeletedNodes_def keepExisting_def
  nodeExists_def existingNodes_def emptyResult_def updateRuleCache_def

text \<open>The rule is cached with another selector and lacks the finalizer.\<close>

definition bare_rule :: nodeReadinessRule where
  "bare_rule = (net_rule ''continuous'' False)\<lparr>finalizers := []\<rparr>"

definition reselected :: controller where
  "reselected = updateRuleCache newReadinessGateController
     (bare_rule\<lparr>ruleSpec := (net_spec ''continuous'' False)\<lparr>nodeSelector := \<lparr>matchLabels = role_labels ''control'', matchExpressions = []\<rparr>\<rparr>\<rparr>)"

theorem ruleReconcile_publishes_witness:
  "\<exists>res c' s'. ruleReconcile mem_env reselected ''net''
       (server_of [worker ''w1'' ''False'' []] [bare_rule] []) = ((res, None), c', s') \<and>
     getCachedRule c' ''net'' \<noteq> None \<and> server_status s' ''net'' \<noteq> None \<and> requeueAfter res = 0"
proof -
  let ?s = "server_of [worker ''w1'' ''False'' []] [bare_rule] []"
  have get: "getRule mem_env ''net'' ?s = (Inr bare_rule, ?s)" by (simp add: server_of_def bare_rule_def net_rule_def server_defs)
  have del: "deletionTimestamp bare_rule = None" by (simp add: bare_rule_def net_rule_def)
  have "stringMapEqual (role_labels a) (role_labels b) \<longleftrightarrow> b = a" for a b
    by (auto simp: stringMapEqual_def role_labels_def fmpred_iff)
  then have changed: "\<not> stringMapEqual (fmupd ''role'' ''worker'' fmempty) (fmupd ''role'' ''control'' fmempty)"
    unfolding role_labels_def by simp
  obtain res c' s' where run: "ruleReconcile mem_env reselected ''net'' ?s = ((res, None), c', s')"
    by (simp add: changed reconcile_eval reselected_def bare_rule_def processing_eval evaluation_eval addFinalizer_def
        cleanup_eval nodeSelectorChanged_eq sample_defs server_defs)
  from ruleReconcile_publishes[OF mem_status_contract get del run] run show ?thesis by auto
qed

subsection \<open>Deletion\<close>





definition deleted_rule :: nodeReadinessRule where
  "deleted_rule = (net_rule ''continuous'' False)\<lparr>deletionTimestamp := Some 7\<rparr>"


text \<open>
  A clean-up that fails keeps the deleted rule: the call reports the clean-up's error, asks for
  another run after a minute, leaves the cache alone and makes no call after the clean-up, so the
  finalizer stays.
\<close>

lemma deletion_waits_for_cleanup:
  assumes "getRule env name w = (Inr rule, w1)" and "deletionTimestamp rule \<noteq> None"
    and "containsFinalizer rule finalizerName" and "cleanupTaintsForRule env rule w1 = (Some e, w2)"
  shows "ruleReconcile env c name w = ((\<lparr>requeueAfter = 60\<rparr>, Some e), c, w2)"
  using assms(3,4) by (simp add: ruleReconcile_deleting[OF assms(1,2)] reconcileDeletion_def requeueAfterMinute_def)

lemma deletion_waits_for_cleanup_witness:
  "\<exists>e s'. ruleReconcile mem_env newReadinessGateController ''net''
       (server_of [worker ''w1'' ''False'' [net_taint]] [deleted_rule] [Some denied]) =
         ((\<lparr>requeueAfter = 60\<rparr>, Some e), newReadinessGateController, s') \<and> srvRules s' = [deleted_rule]"
proof -
  let ?s = "server_of [worker ''w1'' ''False'' [net_taint]] [deleted_rule] [Some denied]"
  have get: "getRule mem_env ''net'' ?s = (Inr deleted_rule, ?s)"
    by (simp add: server_of_def deleted_rule_def net_rule_def server_defs)
  have del: "deletionTimestamp deleted_rule \<noteq> None" "containsFinalizer deleted_rule finalizerName"
    by (simp_all add: deleted_rule_def net_rule_def containsFinalizer_def finalizerName_def)
  obtain e s' where run: "cleanupTaintsForRule mem_env deleted_rule ?s = (Some e, s')" and rules: "srvRules s' = [deleted_rule]"
    by (simp add: cleanup_eval deleted_rule_def sample_defs server_defs)
  from deletion_waits_for_cleanup[OF get del run, of newReadinessGateController] rules show ?thesis by blast
qed

subsection \<open>Dry runs\<close>

lemma retry_keeps:
  assumes "retry_contract env" and "I w" and "\<And>v. I v \<Longrightarrow> I (snd (f v))"
    and "retryOnConflict env f w = (e, w')"
  shows "I w'"
  using retry_invariant[of env I w f] assms by simp

lemma updateStatusAttempt_no_node_write:
  assumes "node_write_free env I" and "I w"
  shows "I (snd (updateStatusAttempt env rule w))"
proof -
  obtain r v where g: "getRule env (ruleName rule) w = (r, v)" by (cases "getRule env (ruleName rule) w")
  have v: "I v" by (rule node_write_freeD(1)[OF assms g])
  have "I (snd (statusUpdate env x v))" for x
    by (rule node_write_freeD(4)[OF assms(1) v]) (rule surjective_pairing)
  with g v show ?thesis by (cases r) (simp_all add: updateStatusAttempt_def)
qed

lemma cleanupDeletedAttempt_no_node_write:
  assumes "node_write_free env I" and "I w"
  shows "I (snd (cleanupDeletedAttempt env name m w))"
proof -
  obtain r v where g: "getRule env name w = (r, v)" by (cases "getRule env name w")
  have v: "I v" by (rule node_write_freeD(1)[OF assms g])
  have "I (snd (statusUpdate env x v))" for x
    by (rule node_write_freeD(4)[OF assms(1) v]) (rule surjective_pairing)
  with g v show ?thesis by (cases r) (simp_all add: cleanupDeletedAttempt_def Let_def)
qed

lemma cleanupDeletedNodes_no_node_write:
  assumes "retry_contract env" and "node_write_free env I" and "I w" and "cleanupDeletedNodes env rule w = (e, w')"
  shows "I w'"
proof -
  obtain r v where l: "listNodes env w = (r, v)" by (cases "listNodes env w")
  have v: "I v" by (rule node_write_freeD(6)[OF assms(2,3) l])
  show ?thesis
  proof (cases r)
    case (Inl x)
    with assms(4) l v show ?thesis by (simp add: cleanupDeletedNodes_def)
  next
    case (Inr nodes)
    let ?f = "cleanupDeletedAttempt env (ruleName rule) (existingNodes nodes)"
    have "I (snd (?f u))" if "I u" for u by (rule cleanupDeletedAttempt_no_node_write[OF assms(2) that])
    from retry_keeps[OF assms(1) v this]
    show ?thesis using assms(4) l v Inr by (auto simp: cleanupDeletedNodes_def Let_def split: if_splits)
  qed
qed

text \<open>
  C26: Reconciling a rule in dry-run mode writes no node: after the rule is fetched, whatever every call
  but the patch and the update of a node keeps, processing it keeps, whether it succeeds or fails.
\<close>

theorem dry_run_writes_no_node:
  assumes "retry_contract env" and "node_write_free env I" and "I w" and "dryRun (ruleSpec rule)"
  shows "I (snd (reconcileProcessing env rule w))"
proof -
  obtain e1 rule1 w1 where p: "processRule env rule w = (e1, rule1, w1)" by (cases "processRule env rule w")
  then have "w1 = snd (listNodes env w)"
    using assms(4) processDryRun_world[of env rule w] by (simp add: processRule_def)
  then have w1: "I w1" using node_write_freeD(6)[OF assms(2,3)] by (metis prod.collapse)
  obtain e2 w2 where u: "updateRuleStatus env rule1 w1 = (e2, w2)" by (cases "updateRuleStatus env rule1 w1")
  have w2: "I w2"
    by (rule retry_keeps[OF assms(1) w1 updateStatusAttempt_no_node_write[OF assms(2)] u[unfolded updateRuleStatus_def]])
  obtain e3 w3 where d: "cleanupDeletedNodes env rule1 w2 = (e3, w3)" by (cases "cleanupDeletedNodes env rule1 w2")
  have w3: "I w3" by (rule cleanupDeletedNodes_no_node_write[OF assms(1,2) w2 d])
  show ?thesis using p u d w1 w2 w3 by (auto simp: reconcileProcessing_def split: option.split)
qed

lemma mem_node_write_free: "node_write_free mem_env (\<lambda>s. srvNodes s = ns)"
  by (auto simp: node_write_free_def mem_env_simps split: option.split)

theorem dry_run_writes_no_node_witness:
  "\<exists>s'. snd (reconcileProcessing mem_env (net_rule ''continuous'' True)
       (server_of [worker ''w1'' ''False'' []] [net_rule ''continuous'' True] [])) = s' \<and>
     srvNodes s' = [worker ''w1'' ''False'' []]"
  using dry_run_writes_no_node[OF mem_retry_contract mem_node_write_free,
      of "server_of [worker ''w1'' ''False'' []] [net_rule ''continuous'' True] []"
        "[worker ''w1'' ''False'' []]" "net_rule ''continuous'' True"]
  by (simp add: net_rule_def net_spec_def server_of_def)

text \<open>
  C18: A dry run predicts the run that follows: over the same nodes, with fewer than \<open>2 ^ 31\<close> of them and
  no node failing, as many nodes gain the taint as the dry run counted to add, and as many lose it as it
  counted to remove.
\<close>

theorem dry_run_predicts:
  assumes "taints_contract env tv" and "list_contract env tv" and "listNodes env w = (Inr ns, w1)"
    and "length (conditions (ruleSpec rule)) < 2 ^ 63" and "length ns < 2 ^ 31"
    and "processDryRun env rule w = (None, dry, v)" and "processAllNodesForRule env rule w = (e, rule', w')"
    and "\<forall>n \<in> set ns. find_key failNodeName (nodeName n) (failedNodes (ruleStatus rule')) = None"
  shows "(\<exists>a. taintsToAdd (dryRunOutcome (ruleStatus dry)) = Some a \<and>
      sint a = int (length (filter (\<lambda>n. \<not> hasTaintIn (tv w (nodeName n)) (taint_of rule) \<and>
        hasTaintIn (tv w' (nodeName n)) (taint_of rule)) ns))) \<and>
    (\<exists>d. taintsToRemove (dryRunOutcome (ruleStatus dry)) = Some d \<and>
      sint d = int (length (filter (\<lambda>n. hasTaintIn (tv w (nodeName n)) (taint_of rule) \<and>
        \<not> hasTaintIn (tv w' (nodeName n)) (taint_of rule)) ns)))"
proof -
  note c = processAllNodesForRule_contract[OF assms(1-3,7)]
  let ?t = "taint_of rule"
  have has: "hasTaintIn (tv w (nodeName n)) ?t \<longleftrightarrow> hasTaintBySpec n ?t" if "n \<in> set ns" for n
    using c(7) that by (simp add: hasTaintBySpec_def)
  have after: "hasTaintIn (tv w' (nodeName n)) ?t \<longleftrightarrow>
      (if ruleAppliesTo env rule n then wants_taint rule n else hasTaintBySpec n ?t)" if n: "n \<in> set ns" for n
  proof (cases "ruleAppliesTo env rule n")
    case True
    have "\<not> failed (tv w') rule' n" using assms(8) n by (simp add: failed_def)
    with c(4)[OF n True] have "settled (tv w') rule' n" by (simp add: outcome_def)
    then have "tv w' (nodeName n) = nodeTaints (steered rule n)" using steered_spec[OF c(6)] by (simp add: settled_def)
    with True steered_has[of rule n] show ?thesis by (simp add: hasTaintBySpec_def)
  next
    case False
    have "nodeName n \<notin> nodeName ` {m \<in> set ns. ruleAppliesTo env rule m}"
      using c(8) n False by (auto simp: distinct_map dest: inj_onD)
    from c(5)[OF this] False has[OF n] show ?thesis by simp
  qed
  have add: "filter (\<lambda>n. ruleAppliesTo env rule n \<and> would_add rule n) ns =
      filter (\<lambda>n. \<not> hasTaintIn (tv w (nodeName n)) ?t \<and> hasTaintIn (tv w' (nodeName n)) ?t) ns"
    by (rule filter_cong) (auto simp: has after would_add_def needs_action_def)
  have remove: "filter (\<lambda>n. ruleAppliesTo env rule n \<and> would_remove rule n) ns =
      filter (\<lambda>n. hasTaintIn (tv w (nodeName n)) ?t \<and> \<not> hasTaintIn (tv w' (nodeName n)) ?t) ns"
    by (rule filter_cong) (auto simp: has after would_remove_def needs_action_def)
  have "dryRunOutcome (ruleStatus dry) = \<lparr>affectedNodes = Some (cAffected (counts env rule ns)),
     taintsToAdd = Some (cAdd (counts env rule ns)), taintsToRemove = Some (cRemove (counts env rule ns)),
     riskyOperations = Some (cRisky (counts env rule ns)), summary = dryRunSummary (counts env rule ns)\<rparr>"
    using assms(6) processDryRun_ok[OF assms(4,3)] by auto
  then show ?thesis
    using count_exact[OF assms(5), of env rule "would_add rule", unfolded count_applied_def add]
      count_exact[OF assms(5), of env rule "would_remove rule", unfolded count_applied_def remove]
    by (simp add: counts_def count_applied_def add remove)
qed

theorem dry_run_predicts_witness:
  "\<exists>dry v rule' s' a. processDryRun mem_env (net_rule ''continuous'' False)
       (server_of [worker ''w1'' ''False'' []] [] []) = (None, dry, v) \<and>
     processAllNodesForRule mem_env (net_rule ''continuous'' False)
       (server_of [worker ''w1'' ''False'' []] [] []) = (None, rule', s') \<and>
     taintsToAdd (dryRunOutcome (ruleStatus dry)) = Some a \<and>
     sint a = int (length (filter (\<lambda>n. hasTaintIn (server_taints s' (nodeName n)) net_taint) [worker ''w1'' ''False'' []]))"
proof -
  let ?n = "worker ''w1'' ''False'' []" and ?r = "net_rule ''continuous'' False"
  let ?s = "server_of [?n] [] []"
  have list: "listNodes mem_env ?s = (Inr [?n], ?s)" by (simp add: server_of_def server_defs)
  have len: "length (conditions (ruleSpec ?r)) < 2 ^ 63" "length [?n] < 2 ^ 31" by (simp_all add: net_rule_def net_spec_def)
  obtain rule' s' where run: "processAllNodesForRule mem_env ?r ?s = (None, rule', s')"
    and ok: "failedNodes (ruleStatus rule') = []"
    by (simp add: processing_eval evaluation_eval sample_defs server_defs)
  obtain dry v where dry: "processDryRun mem_env ?r ?s = (None, dry, v)"
    using processDryRun_ok[OF len(1) list] by blast
  have "\<forall>n \<in> set [?n]. find_key failNodeName (nodeName n) (failedNodes (ruleStatus rule')) = None" by (simp add: ok)
  note th = dry_run_predicts[OF mem_taints_contract mem_list_contract, OF list len dry run this]
  have clean: "\<not> hasTaintIn (server_taints ?s (nodeName ?n)) net_taint" by (simp add: server_taints_def server_of_def worker_def)
  have t: "taint_of ?r = net_taint" by (simp add: net_rule_def net_spec_def)
  from th[THEN conjunct1] obtain a where "taintsToAdd (dryRunOutcome (ruleStatus dry)) = Some a"
    "sint a = int (length (filter (\<lambda>n. hasTaintIn (server_taints s' (nodeName n)) net_taint) [?n]))"
    unfolding t using clean by auto
  with run dry show ?thesis by blast
qed

end
