(* ===== verification/Webhook.thy ===== *)
theory Webhook
  imports Samples
begin

text \<open>
  The validating webhook (\<open>internal/webhook/nodereadinessgaterule_webhook.go\<close>): the checks on a
  rule's spec, the search for rules that conflict with it, and the three entry points of
  \<open>CustomValidator\<close>. Field errors keep their path, value and detail. The last part is the admission
  of rules as a step relation on the store of rules: what the webhook accepts, one request after the
  other, never holds two conflicting rules.
\<close>

subsection \<open>Field errors\<close>

text \<open>\<open>field.NewPath("spec").Child("conditions").Index(i)\<close> as a list of its elements.\<close>

datatype pathElement = Child string | Index nat

datatype fieldValue = StringValue string | SelectorValue labelSelector

datatype fieldError = Required "pathElement list" string | Invalid "pathElement list" fieldValue string

datatype webhookError = WrongType string | ValidationFailed "fieldError list"

text \<open>A \<open>runtime.Object\<close> that is a rule, or another type with the name \<open>%T\<close> prints.\<close>

datatype runtimeObject = RuleObject nodeReadinessRule | OtherType string

subsection \<open>validateSpec\<close>

text \<open>A text between single quotes.\<close>

definition quoted :: "string \<Rightarrow> string" where
  "quoted s = [CHR 0x27] @ s @ [CHR 0x27]"

definition specField :: "pathElement list" where
  "specField = [Child ''spec'']"

definition validateCondition :: "nat \<Rightarrow> conditionRequirement \<Rightarrow> fieldError list" where
  "validateCondition i c =
     (let condField = specField @ [Child ''conditions'', Index i];
          e1 = (if reqType c = [] then [Required (condField @ [Child ''type'']) ''condition type cannot be empty''] else []);
          e2 = (if requiredStatus c = [] then [Required (condField @ [Child ''requiredStatus'']) ''required status cannot be empty''] else [])
      in e1 @ e2)"

fun validateConditions :: "nat \<Rightarrow> conditionRequirement list \<Rightarrow> fieldError list" where
  "validateConditions i [] = []"
| "validateConditions i (c # cs) = validateCondition i c @ validateConditions (Suc i) cs"

definition validateSelector :: "'w env \<Rightarrow> labelSelector \<Rightarrow> fieldError list" where
  "validateSelector env s =
     (case labelSelectorAsSelector env s of
        Inl e \<Rightarrow> [Invalid (specField @ [Child ''nodeSelector'']) (SelectorValue s) (errorString e)]
      | Inr selector \<Rightarrow>
          if selEmpty selector
          then [Required (specField @ [Child ''nodeSelector'']) ''nodeSelector must not be empty''] else [])"

definition validateSpec :: "'w env \<Rightarrow> nodeReadinessRuleSpec \<Rightarrow> fieldError list" where
  "validateSpec env spec =
     (let taintField = specField @ [Child ''taint''];
          e1 = (if length (conditions spec) = 0
                then [Required (specField @ [Child ''conditions'']) ''at least one condition is required''] else []);
          e2 = validateConditions 0 (conditions spec);
          e3 = validateSelector env (nodeSelector spec);
          e4 = (if taintKey (ruleTaint spec) = []
                then [Required (taintField @ [Child ''key'']) ''taint key cannot be empty''] else []);
          e5 = (if taintEffect (ruleTaint spec) = []
                then [Required (taintField @ [Child ''effect'']) ''taint effect cannot be empty''] else []);
          e6 = (if enforcementMode spec \<noteq> EnforcementModeBootstrapOnly \<and>
                   enforcementMode spec \<noteq> EnforcementModeContinuous
                then [Invalid (specField @ [Child ''enforcementMode'']) (StringValue (enforcementMode spec))
                        (''must be '' @ quoted ''bootstrap-only'' @ '' or '' @ quoted ''continuous'')] else [])
      in e1 @ e2 @ e3 @ e4 @ e5 @ e6)"

subsection \<open>Conflicts\<close>

definition nodSelectorsOverlap :: "'w env \<Rightarrow> labelSelector \<Rightarrow> labelSelector \<Rightarrow> bool" where
  "nodSelectorsOverlap env selector1 selector2 =
     (case (labelSelectorAsSelector env selector1, labelSelectorAsSelector env selector2) of
        (Inr sel1, Inr sel2) \<Rightarrow> selString sel1 = selString sel2
      | _ \<Rightarrow> True)"

definition conflictDetail :: "nodeReadinessRule \<Rightarrow> nodeReadinessRule \<Rightarrow> string" where
  "conflictDetail rule existing =
     ''conflicts with existing rule '' @ quoted (ruleName existing) @ '' - same taint key '' @
     quoted (taintKey (ruleTaint (ruleSpec rule))) @ '' and effect '' @
     quoted (taintEffect (ruleTaint (ruleSpec rule))) @ '' with overlapping node selectors''"

fun conflictLoop :: "'w env \<Rightarrow> nodeReadinessRule \<Rightarrow> bool \<Rightarrow> nodeReadinessRule list \<Rightarrow> fieldError list" where
  "conflictLoop env rule isUpdate [] = []"
| "conflictLoop env rule isUpdate (existing # rest) =
     (if isUpdate \<and> ruleName existing = ruleName rule then conflictLoop env rule isUpdate rest
      else if taintKey (ruleTaint (ruleSpec existing)) = taintKey (ruleTaint (ruleSpec rule)) \<and>
              taintEffect (ruleTaint (ruleSpec existing)) = taintEffect (ruleTaint (ruleSpec rule))
      then if nodSelectorsOverlap env (nodeSelector (ruleSpec rule)) (nodeSelector (ruleSpec existing))
           then Invalid [Child ''spec'', Child ''taint'', Child ''key'']
                  (StringValue (taintKey (ruleTaint (ruleSpec rule)))) (conflictDetail rule existing)
                # conflictLoop env rule isUpdate rest
           else conflictLoop env rule isUpdate rest
      else conflictLoop env rule isUpdate rest)"

text \<open>When the rules cannot be listed, the operation is allowed.\<close>

definition validateTaintConflicts :: "'w env \<Rightarrow> nodeReadinessRule \<Rightarrow> bool \<Rightarrow> 'w \<Rightarrow> fieldError list \<times> 'w" where
  "validateTaintConflicts env rule isUpdate w =
     (case listRules env w of
        (Inl e, w') \<Rightarrow> ([], w')
      | (Inr rules, w') \<Rightarrow> (conflictLoop env rule isUpdate rules, w'))"

definition validateNodeReadinessRule :: "'w env \<Rightarrow> nodeReadinessRule \<Rightarrow> bool \<Rightarrow> 'w \<Rightarrow> fieldError list \<times> 'w" where
  "validateNodeReadinessRule env rule isUpdate w =
     (case validateTaintConflicts env rule isUpdate w of
        (errs, w') \<Rightarrow> (validateSpec env (ruleSpec rule) @ errs, w'))"

subsection \<open>Entry points\<close>

text \<open>The warnings they return are always nil, so only the error is modelled.\<close>

definition validateObject :: "'w env \<Rightarrow> runtimeObject \<Rightarrow> bool \<Rightarrow> 'w \<Rightarrow> webhookError option \<times> 'w" where
  "validateObject env obj isUpdate w =
     (case obj of
        OtherType name \<Rightarrow> (Some (WrongType name), w)
      | RuleObject rule \<Rightarrow>
          (case validateNodeReadinessRule env rule isUpdate w of
             (allErrs, w') \<Rightarrow>
               (if 0 < length allErrs then (Some (ValidationFailed allErrs), w') else (None, w'))))"

definition ValidateCreate :: "'w env \<Rightarrow> runtimeObject \<Rightarrow> 'w \<Rightarrow> webhookError option \<times> 'w" where
  "ValidateCreate env obj w = validateObject env obj False w"

definition ValidateUpdate :: "'w env \<Rightarrow> runtimeObject \<Rightarrow> runtimeObject \<Rightarrow> 'w \<Rightarrow> webhookError option \<times> 'w" where
  "ValidateUpdate env oldObj newObj w = validateObject env newObj True w"

definition ValidateDelete :: "'w env \<Rightarrow> runtimeObject \<Rightarrow> 'w \<Rightarrow> webhookError option \<times> 'w" where
  "ValidateDelete env obj w = (None, w)"

subsection \<open>What is accepted\<close>

definition valid_requirement :: "conditionRequirement \<Rightarrow> bool" where
  "valid_requirement c \<longleftrightarrow> reqType c \<noteq> [] \<and> requiredStatus c \<noteq> []"

definition valid_spec :: "'w env \<Rightarrow> nodeReadinessRuleSpec \<Rightarrow> bool" where
  "valid_spec env spec \<longleftrightarrow>
     conditions spec \<noteq> [] \<and> list_all valid_requirement (conditions spec) \<and>
     (\<exists>sel. labelSelectorAsSelector env (nodeSelector spec) = Inr sel \<and> \<not> selEmpty sel) \<and>
     taintKey (ruleTaint spec) \<noteq> [] \<and> taintEffect (ruleTaint spec) \<noteq> [] \<and>
     enforcementMode spec \<in> {EnforcementModeBootstrapOnly, EnforcementModeContinuous}"

lemma validateConditions_Nil_iff: "validateConditions i cs = [] \<longleftrightarrow> list_all valid_requirement cs"
  by (induction cs arbitrary: i) (auto simp: validateCondition_def valid_requirement_def Let_def)

lemma validateSelector_Nil_iff:
  "validateSelector env s = [] \<longleftrightarrow> (\<exists>sel. labelSelectorAsSelector env s = Inr sel \<and> \<not> selEmpty sel)"
  by (auto simp: validateSelector_def split: sum.splits)

lemma validateSpec_Nil_iff: "validateSpec env spec = [] \<longleftrightarrow> valid_spec env spec"
  by (auto simp: validateSpec_def Let_def validateConditions_Nil_iff validateSelector_Nil_iff valid_spec_def)

definition rulesConflict :: "'w env \<Rightarrow> nodeReadinessRule \<Rightarrow> nodeReadinessRule \<Rightarrow> bool" where
  "rulesConflict env r r' \<longleftrightarrow>
     taint_id (ruleTaint (ruleSpec r)) = taint_id (ruleTaint (ruleSpec r')) \<and>
     nodSelectorsOverlap env (nodeSelector (ruleSpec r)) (nodeSelector (ruleSpec r'))"

lemma nodSelectorsOverlap_sym: "nodSelectorsOverlap env a b = nodSelectorsOverlap env b a"
  by (auto simp: nodSelectorsOverlap_def split: sum.splits)

lemma rulesConflict_sym: "rulesConflict env r r' \<Longrightarrow> rulesConflict env r' r"
  by (simp add: rulesConflict_def nodSelectorsOverlap_sym)

lemma conflictLoop_Nil_iff:
  "conflictLoop env rule isUpdate rs = [] \<longleftrightarrow>
     (\<forall>r \<in> set rs. \<not> (isUpdate \<and> ruleName r = ruleName rule) \<longrightarrow> \<not> rulesConflict env rule r)"
  by (induction rs) (auto simp: rulesConflict_def)

lemma validateObject_None_iff:
  "fst (validateObject env (RuleObject rule) isUpdate w) = None \<longleftrightarrow>
     valid_spec env (ruleSpec rule) \<and>
     (\<forall>rs. fst (listRules env w) = Inr rs \<longrightarrow>
        (\<forall>r \<in> set rs. \<not> (isUpdate \<and> ruleName r = ruleName rule) \<longrightarrow> \<not> rulesConflict env rule r))"
  by (auto simp: validateObject_def validateNodeReadinessRule_def validateTaintConflicts_def
      validateSpec_Nil_iff conflictLoop_Nil_iff split: prod.splits sum.splits)

subsection \<open>The interface of an exclusive registry\<close>

text \<open>
  A registry of named items of which no two may conflict. Conflict is symmetric; an item that conflicts
  with none of the others can be entered under its name.
\<close>

definition exclusive :: "('r \<Rightarrow> 'r \<Rightarrow> bool) \<Rightarrow> ('r \<Rightarrow> string) \<Rightarrow> (string \<rightharpoonup> 'r) \<Rightarrow> bool" where
  "exclusive conflict name_of m \<longleftrightarrow> (\<forall>k r. m k = Some r \<longrightarrow> name_of r = k) \<and>
     (\<forall>k j r s. m k = Some r \<longrightarrow> m j = Some s \<longrightarrow> k \<noteq> j \<longrightarrow> \<not> conflict r s)"

locale exclusive_registry =
  fixes conflict :: "'r \<Rightarrow> 'r \<Rightarrow> bool" and name_of :: "'r \<Rightarrow> string"
  assumes conflict_sym: "conflict a b \<Longrightarrow> conflict b a"
begin

lemma exclusive_empty: "exclusive conflict name_of Map.empty"
  by (simp add: exclusive_def)

lemma exclusive_enter:
  assumes "exclusive conflict name_of m" and "\<And>s. s \<in> ran m \<Longrightarrow> name_of s \<noteq> name_of r \<Longrightarrow> \<not> conflict r s"
  shows "exclusive conflict name_of (m(name_of r \<mapsto> r))"
proof -
  let ?m = "m(name_of r \<mapsto> r)"
  have named: "name_of s = k" if "m k = Some s" for k s
    using that assms(1) by (simp add: exclusive_def)
  have apart: "\<not> conflict a b" if "m k = Some a" "m j = Some b" "k \<noteq> j" for k j a b
    using that assms(1) by (simp add: exclusive_def)
  have free: "\<not> conflict r s" if "m k = Some s" "k \<noteq> name_of r" for k s
    by (rule assms(2)) (use that named in \<open>auto simp: ran_def\<close>)
  then have free': "\<not> conflict s r" if "m k = Some s" "k \<noteq> name_of r" for k s
    using that conflict_sym by blast
  have "\<not> conflict a b" if "?m k = Some a" "?m j = Some b" "k \<noteq> j" for k j a b
    using that apart free free' by (auto split: if_splits)
  moreover have "name_of s = k" if "?m k = Some s" for k s
    using that named by (auto split: if_splits)
  ultimately show ?thesis unfolding exclusive_def by blast
qed

lemma exclusive_leave: "exclusive conflict name_of m \<Longrightarrow> exclusive conflict name_of (m(k := None))"
  unfolding exclusive_def by (auto split: if_splits)

end

interpretation registry: exclusive_registry "rulesConflict env" ruleName for env
  by unfold_locales (rule rulesConflict_sym)

subsection \<open>Admission\<close>

text \<open>
  The API server asks the webhook before it creates, replaces or deletes a rule of its store. The
  webhook reads the store through its client, here without delay and without failure.
\<close>

definition lists_store :: "'w env \<Rightarrow> 'w \<Rightarrow> (string \<rightharpoonup> nodeReadinessRule) \<Rightarrow> bool" where
  "lists_store env w store \<longleftrightarrow> (\<exists>rs. fst (listRules env w) = Inr rs \<and> set rs = ran store)"

inductive admission_step :: "'w env \<Rightarrow> (string \<rightharpoonup> nodeReadinessRule) \<Rightarrow> (string \<rightharpoonup> nodeReadinessRule) \<Rightarrow> bool"
  for env :: "'w env" where
  create: "store (ruleName r) = None \<Longrightarrow> lists_store env w store \<Longrightarrow>
     fst (ValidateCreate env (RuleObject r) w) = None \<Longrightarrow>
     admission_step env store (store(ruleName r \<mapsto> r))"
| update: "store (ruleName r) = Some old \<Longrightarrow> lists_store env w store \<Longrightarrow>
     fst (ValidateUpdate env (RuleObject old) (RuleObject r) w) = None \<Longrightarrow>
     admission_step env store (store(ruleName r \<mapsto> r))"
| delete: "store k = Some old \<Longrightarrow> fst (ValidateDelete env (RuleObject old) w) = None \<Longrightarrow>
     admission_step env store (store(k := None))"

inductive admitted :: "'w env \<Rightarrow> (string \<rightharpoonup> nodeReadinessRule) \<Rightarrow> bool" for env :: "'w env" where
  no_rules: "admitted env Map.empty"
| next_request: "admitted env store \<Longrightarrow> admission_step env store store' \<Longrightarrow> admitted env store'"

definition admission_inv :: "'w env \<Rightarrow> (string \<rightharpoonup> nodeReadinessRule) \<Rightarrow> bool" where
  "admission_inv env store \<longleftrightarrow> exclusive (rulesConflict env) ruleName store \<and> (\<forall>r \<in> ran store. valid_spec env (ruleSpec r))"

lemma ran_upd_subset: "ran (m(k \<mapsto> v)) \<subseteq> insert v (ran m)" "ran (m(k := None)) \<subseteq> ran m"
  by (auto simp: ran_def split: if_splits)

lemma admission_step_inv:
  assumes "admission_step env store store'" and "admission_inv env store"
  shows "admission_inv env store'"
  using assms(1)
proof cases
  case (create r w)
  then have ok: "valid_spec env (ruleSpec r)" "\<And>s. s \<in> ran store \<Longrightarrow> \<not> rulesConflict env r s"
    by (auto simp: ValidateCreate_def validateObject_None_iff lists_store_def)
  have "exclusive (rulesConflict env) ruleName (store(ruleName r \<mapsto> r))"
    by (rule registry.exclusive_enter) (use assms(2) ok in \<open>auto simp: admission_inv_def\<close>)
  with create(1) ok(1) assms(2) ran_upd_subset(1)[of store "ruleName r" r] show ?thesis
    unfolding admission_inv_def by blast
next
  case (update r old w)
  then have ok: "valid_spec env (ruleSpec r)"
    "\<And>s. s \<in> ran store \<Longrightarrow> ruleName s \<noteq> ruleName r \<Longrightarrow> \<not> rulesConflict env r s"
    by (auto simp: ValidateUpdate_def validateObject_None_iff lists_store_def)
  have "exclusive (rulesConflict env) ruleName (store(ruleName r \<mapsto> r))"
    by (rule registry.exclusive_enter) (use assms(2) ok in \<open>auto simp: admission_inv_def\<close>)
  with update(1) ok(1) assms(2) ran_upd_subset(1)[of store "ruleName r" r] show ?thesis
    unfolding admission_inv_def by blast
next
  case (delete k old w)
  with assms(2) ran_upd_subset(2)[of store k] registry.exclusive_leave[of env store k] show ?thesis
    unfolding admission_inv_def by blast
qed

lemma admitted_inv: "admitted env store \<Longrightarrow> admission_inv env store"
proof (induction rule: admitted.induct)
  case no_rules
  show ?case by (simp add: admission_inv_def registry.exclusive_empty)
next
  case (next_request store store')
  then show ?case by (blast intro: admission_step_inv)
qed

subsection \<open>Properties\<close>

text \<open>
  C24: The checks on a spec are complete and exact: there is no field error exactly when the spec has a
  condition, every condition a type and a required status, the selector parses to one that is not
  empty, the taint has a key and an effect, and the enforcement mode is one of the two.
\<close>

theorem validateSpec_exact:
  "validateSpec env spec = [] \<longleftrightarrow>
     conditions spec \<noteq> [] \<and>
     list_all (\<lambda>c. reqType c \<noteq> [] \<and> requiredStatus c \<noteq> []) (conditions spec) \<and>
     (case labelSelectorAsSelector env (nodeSelector spec) of Inl e \<Rightarrow> False | Inr sel \<Rightarrow> \<not> selEmpty sel) \<and>
     taintKey (ruleTaint spec) \<noteq> [] \<and> taintEffect (ruleTaint spec) \<noteq> [] \<and>
     enforcementMode spec \<in> {''bootstrap-only'', ''continuous''}"
  by (auto simp: validateSpec_Nil_iff valid_spec_def valid_requirement_def[abs_def]
      EnforcementModeBootstrapOnly_def EnforcementModeContinuous_def split: sum.splits)

lemma validateConditions_mem:
  "e \<in> set (validateConditions i cs) \<longleftrightarrow> (\<exists>j < length cs. e \<in> set (validateCondition (i + j) (cs ! j)))"
proof (induction cs arbitrary: i)
  case (Cons c cs)
  show ?case by (auto simp: Cons.IH less_Suc_eq_0_disj)
qed simp

lemma validateCondition_paths:
  "e \<in> set (validateCondition i c) \<longleftrightarrow>
     e = Required [Child ''spec'', Child ''conditions'', Index i, Child ''type''] ''condition type cannot be empty'' \<and> reqType c = [] \<or>
     e = Required [Child ''spec'', Child ''conditions'', Index i, Child ''requiredStatus''] ''required status cannot be empty''
       \<and> requiredStatus c = []"
  by (auto simp: validateCondition_def specField_def Let_def)

text \<open>
  Every faulty condition is reported under its own index, and only faulty ones: the error for the
  type of condition \<open>i\<close> is among the field errors of a spec exactly when the \<open>i\<close>-th condition exists
  and has no type, and likewise for the required status.
\<close>

lemma validateSpec_reports_conditions:
  "(Required [Child ''spec'', Child ''conditions'', Index i, Child ''type''] ''condition type cannot be empty''
       \<in> set (validateSpec env spec) \<longleftrightarrow>
     i < length (conditions spec) \<and> reqType (conditions spec ! i) = []) \<and>
   (Required [Child ''spec'', Child ''conditions'', Index i, Child ''requiredStatus''] ''required status cannot be empty''
       \<in> set (validateSpec env spec) \<longleftrightarrow>
     i < length (conditions spec) \<and> requiredStatus (conditions spec ! i) = [])"
proof -
  have "Required (p @ [Index i, Child c]) msg \<in> set (validateSpec env spec) \<longleftrightarrow>
      Required (p @ [Index i, Child c]) msg \<in> set (validateConditions 0 (conditions spec))" for p c msg
    by (auto simp: validateSpec_def validateSelector_def specField_def Let_def Cons_eq_append_conv split: sum.splits)
  from this[of "[Child ''spec'', Child ''conditions'']"]
  show ?thesis by (auto simp: validateConditions_mem validateCondition_paths)
qed

text \<open>
  C23: A create request is admitted exactly when the spec is valid and no listed rule has the same taint
  key and effect with overlapping selectors; an update ignores the rule of the same name. When the
  rules cannot be listed the conflict check is passed over.
\<close>

theorem webhook_accepts_exactly:
  "(fst (ValidateCreate env (RuleObject rule) w) = None \<longleftrightarrow>
     validateSpec env (ruleSpec rule) = [] \<and>
     (case fst (listRules env w) of
        Inl e \<Rightarrow> True
      | Inr rs \<Rightarrow> list_all (\<lambda>r. \<not> rulesConflict env rule r) rs)) \<and>
   (fst (ValidateUpdate env old (RuleObject rule) w) = None \<longleftrightarrow>
     validateSpec env (ruleSpec rule) = [] \<and>
     (case fst (listRules env w) of
        Inl e \<Rightarrow> True
      | Inr rs \<Rightarrow> list_all (\<lambda>r. \<not> rulesConflict env rule r) (filter (\<lambda>r. ruleName r \<noteq> ruleName rule) rs)))"
  unfolding ValidateCreate_def ValidateUpdate_def validateObject_None_iff validateSpec_Nil_iff
  by (auto simp: list_all_iff split: sum.splits)

text \<open>
  C13: Admission keeps the store exclusive: whatever sequence of creates, updates and deletes the webhook
  accepts while its client lists the store as it is, every rule is stored under its name with a valid spec,
  and of two stored rules with the same taint key and effect both selectors can be parsed, neither is empty
  and their texts differ. Selectors that are written differently and match a common node are admitted.
\<close>

theorem admitted_rules_exclusive:
  assumes "admitted env store"
  shows "(\<forall>k r. store k = Some r \<longrightarrow> ruleName r = k \<and> validateSpec env (ruleSpec r) = []) \<and>
    (\<forall>k j r s. store k = Some r \<longrightarrow> store j = Some s \<longrightarrow> k \<noteq> j \<longrightarrow>
      taintKey (ruleTaint (ruleSpec r)) = taintKey (ruleTaint (ruleSpec s)) \<longrightarrow>
      taintEffect (ruleTaint (ruleSpec r)) = taintEffect (ruleTaint (ruleSpec s)) \<longrightarrow>
      (\<exists>a b. labelSelectorAsSelector env (nodeSelector (ruleSpec r)) = Inr a \<and>
        labelSelectorAsSelector env (nodeSelector (ruleSpec s)) = Inr b \<and>
        \<not> selEmpty a \<and> \<not> selEmpty b \<and> selString a \<noteq> selString b))"
proof -
  have inv: "\<And>k r. store k = Some r \<Longrightarrow> ruleName r = k \<and> valid_spec env (ruleSpec r)"
    "\<And>k j r s. store k = Some r \<Longrightarrow> store j = Some s \<Longrightarrow> k \<noteq> j \<Longrightarrow> \<not> rulesConflict env r s"
    using admitted_inv[OF assms] by (auto simp: admission_inv_def exclusive_def ran_def)
  have "\<exists>a b. labelSelectorAsSelector env (nodeSelector (ruleSpec r)) = Inr a \<and>
      labelSelectorAsSelector env (nodeSelector (ruleSpec s)) = Inr b \<and>
      \<not> selEmpty a \<and> \<not> selEmpty b \<and> selString a \<noteq> selString b"
    if "store k = Some r" "store j = Some s" "k \<noteq> j" "taint_id (ruleTaint (ruleSpec r)) = taint_id (ruleTaint (ruleSpec s))" for k j r s
    using inv(1)[OF that(1)] inv(1)[OF that(2)] inv(2)[OF that(1-3)] that(4)
    by (auto simp: valid_spec_def rulesConflict_def nodSelectorsOverlap_def)
  then show ?thesis using inv(1) by (simp add: validateSpec_Nil_iff)
qed

text \<open>Two rules with the network taint, for the workers and for the control plane.\<close>

definition control_rule :: nodeReadinessRule where
  "control_rule = (net_rule ''continuous'' False)\<lparr>ruleName := ''control'', ruleSpec := (net_spec ''continuous'' False)
     \<lparr>nodeSelector := \<lparr>matchLabels = role_labels ''control'', matchExpressions = []\<rparr>\<rparr>\<rparr>"

theorem admitted_rules_exclusive_witness:
  "\<exists>store a b. store ''net'' = Some (net_rule ''continuous'' False) \<and> store ''control'' = Some control_rule \<and>
     admitted mem_env store \<and>
     labelSelectorAsSelector mem_env (nodeSelector (net_spec ''continuous'' False)) = Inr a \<and>
     labelSelectorAsSelector mem_env (nodeSelector (ruleSpec control_rule)) = Inr b \<and> selString a \<noteq> selString b"
proof -
  let ?r = "net_rule ''continuous'' False"
  have name: "ruleName ?r = ''net''" "ruleName control_rule = ''control''" "ruleSpec ?r = net_spec ''continuous'' False"
    by (simp_all add: net_rule_def control_rule_def)
  have valid: "valid_spec mem_env (ruleSpec ?r)" "valid_spec mem_env (ruleSpec control_rule)"
    by (simp_all add: valid_spec_def valid_requirement_def control_rule_def sample_defs mode_defs server_defs Let_def)
  have lists: "listRules mem_env (server_of [] rs []) = (Inr (dedup ruleName rs), server_of [] rs [])" for rs
    by (simp add: server_of_def server_defs)
  have apart: "\<not> rulesConflict mem_env control_rule ?r"
    by (simp add: rulesConflict_def nodSelectorsOverlap_def control_rule_def sample_defs server_defs Let_def)
  have one: "admission_step mem_env Map.empty (Map.empty(ruleName ?r \<mapsto> ?r))"
    by (rule admission_step.create[where w = "server_of [] [] []"])
      (simp_all add: lists lists_store_def ValidateCreate_def validateObject_None_iff valid)
  have two: "admission_step mem_env [''net'' \<mapsto> ?r] ([''net'' \<mapsto> ?r](ruleName control_rule \<mapsto> control_rule))"
    by (rule admission_step.create[where w = "server_of [] [?r] []"])
      (simp_all add: lists lists_store_def ValidateCreate_def validateObject_None_iff valid apart name)
  have adm: "admitted mem_env [''net'' \<mapsto> ?r, ''control'' \<mapsto> control_rule]"
    using admitted.next_request[OF admitted.next_request[OF admitted.no_rules one[unfolded name]] two[unfolded name]]
    by (simp add: fun_upd_twist)
  have "taintKey (ruleTaint (ruleSpec ?r)) = taintKey (ruleTaint (ruleSpec control_rule))"
    "taintEffect (ruleTaint (ruleSpec ?r)) = taintEffect (ruleTaint (ruleSpec control_rule))"
    by (simp_all add: net_rule_def control_rule_def)
  with admitted_rules_exclusive[OF adm, THEN conjunct2, THEN spec[of _ "''net''"], THEN spec[of _ "''control''"],
      THEN spec[of _ ?r], THEN spec[of _ control_rule]]
  obtain a b where "labelSelectorAsSelector mem_env (nodeSelector (ruleSpec ?r)) = Inr a"
    "labelSelectorAsSelector mem_env (nodeSelector (ruleSpec control_rule)) = Inr b" "selString a \<noteq> selString b" by auto
  with adm show ?thesis unfolding name(3)
    by (intro exI[of _ "[''net'' \<mapsto> ?r, ''control'' \<mapsto> control_rule]"]) auto
qed

end
