(* ===== verification/Version_Info.thy ===== *)
theory Version_Info
  imports Prelude
begin

text \<open>
  \<open>internal/info/version.go\<close>. The two package variables are set by the linker, so they are
  arguments.
\<close>

definition GetVersionParts :: "string \<Rightarrow> string \<Rightarrow> string list" where
  "GetVersionParts version gitCommit =
     (let v = [version] in if gitCommit \<noteq> [] then v @ [''commit: '' @ gitCommit] else v)"

definition GetVersionString :: "string \<Rightarrow> string \<Rightarrow> string list \<Rightarrow> string" where
  "GetVersionString version gitCommit more =
     (let v = GetVersionParts version gitCommit @ more in strings_Join v '', '')"

text \<open>The text begins with the version, and without a commit and further parts it is the version.\<close>

lemma GetVersionString_version:
  "\<exists>rest. GetVersionString version gitCommit more = version @ rest \<and> (rest = [] \<longleftrightarrow> gitCommit = [] \<and> more = [])"
  by (simp add: GetVersionString_def GetVersionParts_def strings_Join_Cons Let_def)

end
