(* ===== verification/System.thy ===== *)
theory System
  imports Node_Reconciler Rule_Outcomes Webhook Version_Info
begin

text \<open>
  The whole controller as a state machine over its in-memory state and the world: rule events, node
  events, the switch of the global dry run, and everything other clients do in between. controller-runtime
  runs one worker per controller by default; a step is one reconcile, which is how far the model goes:
  a rule event and a node event that overlap in time are taken one after the other. The second part says
  what a whole rule reconcile can do to the taints on the server.
\<close>

subsection \<open>Steps\<close>

inductive system_step :: "'w env \<Rightarrow> controller \<times> 'w \<Rightarrow> controller \<times> 'w \<Rightarrow> bool" for env :: "'w env" where
  rule_event: "ruleReconcile env c name w = (res, c', w') \<Longrightarrow> system_step env (c, w) (c', w')"
| node_event: "range_order (ruleCache c) order \<Longrightarrow> nodeReconcile env order c name w = (res, c', w') \<Longrightarrow>
     system_step env (c, w) (c', w')"
| switch_dry_run: "system_step env (c, w) (setGlobalDryRun c b, w)"
| elsewhere: "system_step env (c, w) (c, w')"

inductive system_reachable :: "'w env \<Rightarrow> controller \<times> 'w \<Rightarrow> bool" for env :: "'w env" where
  boot: "system_reachable env (newReadinessGateController, w)"
| advance: "system_reachable env s \<Longrightarrow> system_step env s s' \<Longrightarrow> system_reachable env s'"

text \<open>
  What the API server promises about the rules it returns: the name that was asked for, and status lists
  keyed by node name (\<open>+listType=map\<close>, \<open>+listMapKey=nodeName\<close> in the API types).
\<close>

definition schema_contract :: "'w env \<Rightarrow> bool" where
  "schema_contract env \<longleftrightarrow> (\<forall>k w r w'. getRule env k w = (Inr r, w') \<longrightarrow>
     ruleName r = k \<and> wf_status (ruleStatus r))"

text \<open>A cached rule was served by the API server and differs from what was served in its status only.\<close>

definition served :: "'w env \<Rightarrow> controller \<Rightarrow> bool" where
  "served env c \<longleftrightarrow> (\<forall>k r. getCachedRule c k = Some r \<longrightarrow>
     (\<exists>v r0 v'. getRule env k v = (Inr r0, v') \<and> same_rule r0 r))"

lemma served_update:
  assumes "served env c" and "getRule env (ruleName r) v = (Inr r0, v')" and "same_rule r0 r"
  shows "served env (updateRuleCache c r)"
  using assms unfolding served_def by (auto simp: cache.lookup_update)

lemma served_remove: "served env c \<Longrightarrow> served env (removeRuleFromCache c k)"
  by (auto simp: served_def cache.lookup_remove)

lemma ruleReconcile_invariant:
  assumes "schema_contract env" and "ruleReconcile env c name w = (res, c', w')" and "cache_ok c" and "served env c"
  shows "cache_ok c' \<and> served env c' \<and> globalDryRun c' = globalDryRun c"
proof -
  have upd: "cache_ok (updateRuleCache c rule) \<and> served env (updateRuleCache c rule)"
    if "getRule env name v = (Inr rule, v')" for rule v v'
  proof -
    have s: "ruleName rule = name" "wf_status (ruleStatus rule)" using that assms(1) by (auto simp: schema_contract_def)
    with cache_ok_update[OF assms(3) s(2)] served_update[OF assms(4), of rule v rule v'] that show ?thesis by simp
  qed
  from ruleReconcile_cache[OF assms(2)] upd show ?thesis
    using assms(3,4) by (auto intro: cache_ok_remove served_remove)
qed

lemma processRulesLoop_served:
  "processRulesLoop env ks c n w = (c', n', w') \<Longrightarrow> cache_ok c \<Longrightarrow> served env c \<Longrightarrow> served env c'"
proof (induction ks arbitrary: c n w)
  case Nil
  then show ?case by simp
next
  case (Cons k ks)
  show ?case
  proof (cases "fmlookup (ruleCache c) k")
    case None
    with Cons show ?thesis by simp
  next
    case (Some rule)
    obtain b w1 where b: "isBootstrapCompleted env (nodeName n) (ruleName rule) w = (b, w1)"
      by (cases "isBootstrapCompleted env (nodeName n) (ruleName rule) w")
    obtain r1 n1 w2 where ev: "evaluateOrRecord env rule n w1 = (r1, n1, w2)"
      by (cases "evaluateOrRecord env rule n w1")
    obtain err w3 where p: "retryOnConflict env (persistAttempt env r1 (nodeName n1)) w2 = (err, w3)"
      by (cases "retryOnConflict env (persistAttempt env r1 (nodeName n1)) w2")
    show ?thesis
    proof (cases "skipRule c rule b")
      case True
      with Cons Some b show ?thesis by simp
    next
      case False
      have hit: "getCachedRule c k = Some rule" using Some by (simp add: getCachedRule_def)
      have s: "same_rule rule r1" by (rule evaluateOrRecord_same_rule[OF ev])
      have r: "ruleName rule = k" "wf_status (ruleStatus rule)" using cache_okD[OF Cons.prems(2) hit] by simp_all
      then have name: "ruleName r1 = k" using s by (simp add: same_rule_def)
      from Cons.prems(3) hit obtain v r0 v' where "getRule env k v = (Inr r0, v')" "same_rule r0 rule"
        unfolding served_def by blast
      with served_update[OF Cons.prems(3), of r1 v r0 v'] s name same_rule_trans
      have "served env (writeThrough c k r1)" by (simp add: writeThrough_update)
      moreover have "cache_ok (writeThrough c k r1)"
        using cache_ok_update[OF Cons.prems(2) evaluateOrRecord_wf[OF ev r(2)]] name by (simp add: writeThrough_update)
      ultimately show ?thesis using Cons.IH Cons.prems(1) False Some b ev p by simp
    qed
  qed
qed

lemma nodeReconcile_invariant:
  assumes "nodeReconcile env order c name w = (res, c', w')" and "cache_ok c" and "served env c"
  shows "cache_ok c' \<and> served env c' \<and> globalDryRun c' = globalDryRun c"
proof -
  obtain r v where g: "getNode env name w = (r, v)" by (cases "getNode env name w")
  show ?thesis
  proof (cases r)
    case (Inl e)
    with assms g show ?thesis by (auto simp: nodeReconcile_def)
  next
    case (Inr n)
    obtain c1 n' w2 where loop: "processRulesLoop env (getApplicableRulesForNode env c n order) c n v = (c1, n', w2)"
      by (cases "processRulesLoop env (getApplicableRulesForNode env c n order) c n v")
    with assms(1) g Inr have "c' = c1" by (simp add: nodeReconcile_def processNodeAgainstAllRules_def)
    with processRulesLoop_cache_ok[OF loop assms(2)] processRulesLoop_served[OF loop assms(2,3)] show ?thesis by simp
  qed
qed

lemma reachable_invariant:
  assumes "schema_contract env" and "system_reachable env s"
  shows "cache_ok (fst s) \<and> served env (fst s)"
  using assms(2)
proof (induction rule: system_reachable.induct)
  case (boot w)
  then show ?case by (simp add: cache_ok_def served_def getCachedRule_def newReadinessGateController_def)
next
  case (advance s s')
  from advance.hyps(2) advance.IH show ?case
  proof (induction rule: system_step.induct)
    case (rule_event c name w res c' w')
    then have ok: "cache_ok c" "served env c" by simp_all
    show ?case using ruleReconcile_invariant[OF assms(1) rule_event(1) ok] by simp
  next
    case (node_event c order name w res c' w')
    then have ok: "cache_ok c" "served env c" by simp_all
    show ?case using nodeReconcile_invariant[OF node_event(2) ok] by simp
  next
    case (switch_dry_run c w b)
    then show ?case by (simp add: cache_ok_def served_def getCachedRule_def setGlobalDryRun_def)
  next
    case (elsewhere c w w')
    then show ?case by simp
  qed
qed

subsection \<open>What a rule reconcile does to the taints\<close>

text \<open>The taints of an identity are the same on every node before and after.\<close>

definition same_everywhere :: "taint \<Rightarrow> (string \<Rightarrow> taint list) \<Rightarrow> (string \<Rightarrow> taint list) \<Rightarrow> bool" where
  "same_everywhere t a b \<longleftrightarrow> (\<forall>k. same_id t (a k) = same_id t (b k))"

lemma same_everywhere_refl [simp]: "same_everywhere t a a"
  by (simp add: same_everywhere_def)

lemma same_everywhere_trans: "same_everywhere t a b \<Longrightarrow> same_everywhere t b c \<Longrightarrow> same_everywhere t a c"
  by (simp add: same_everywhere_def)

lemma sweep_post_same:
  assumes "sweep_post P u ns before clean after" and "taint_id u \<noteq> taint_id t"
  shows "same_everywhere t before after"
  unfolding same_everywhere_def
proof
  fix k
  from assms(1) have "after k = before k \<or> after k = other_taints u (before k)" unfolding sweep_post_def by blast
  then show "same_id t (before k) = same_id t (after k)" using same_id_other_taints[OF assms(2)] by auto
qed

lemma cleanupTaintsForRule_same:
  assumes con: "taints_contract env tv" "list_contract env tv" and run: "cleanupTaintsForRule env rule w = (e, w')"
    and t: "taint_id (taint_of rule) \<noteq> taint_id t"
  shows "same_everywhere t (tv w) (tv w')"
proof -
  obtain r v where l: "listNodes env w = (r, v)" by (cases "listNodes env w")
  show ?thesis
  proof (cases r)
    case (Inl x)
    with run l keepsD[OF taints_contractD(8)[OF con(1)] l] show ?thesis by (simp add: cleanupTaintsForRule_def)
  next
    case (Inr ns)
    show ?thesis by (rule sweep_post_same[OF cleanupTaintsForRule_post[OF con l[unfolded Inr] run] t])
  qed
qed

lemma cleanupNodesAfterSelectorChange_same:
  assumes con: "taints_contract env tv" "list_contract env tv"
    and run: "cleanupNodesAfterSelectorChange env oldRule rule w = (e, w')"
    and t: "taint_id (taint_of rule) \<noteq> taint_id t"
  shows "same_everywhere t (tv w) (tv w')"
proof -
  obtain r v where l: "listNodes env w = (r, v)" by (cases "listNodes env w")
  have v: "tv v = tv w" by (rule keepsD[OF taints_contractD(8)[OF con(1)] l])
  show ?thesis
  proof (cases r)
    case (Inl x)
    with run l v show ?thesis by (simp add: cleanupNodesAfterSelectorChange_def)
  next
    case (Inr ns)
    show ?thesis
    proof (cases "labelSelectorAsSelector env (nodeSelector (ruleSpec oldRule))")
      case Inl2: (Inl x)
      with run l Inr v show ?thesis by (simp add: cleanupNodesAfterSelectorChange_def)
    next
      case Inr2: (Inr sel)
      show ?thesis
        by (rule sweep_post_same[OF cleanupNodesAfterSelectorChange_post[OF con l[unfolded Inr] Inr2 run] t])
    qed
  qed
qed

lemma processAllNodesForRule_same:
  assumes con: "taints_contract env tv" "list_contract env tv" and run: "processAllNodesForRule env rule w = (e, rule', w')"
    and t: "taint_id (taint_of rule) \<noteq> taint_id t"
  shows "same_everywhere t (tv w) (tv w')"
proof -
  obtain r v where l: "listNodes env w = (r, v)" by (cases "listNodes env w")
  show ?thesis
  proof (cases r)
    case (Inl x)
    with run l keepsD[OF taints_contractD(8)[OF con(1)] l] show ?thesis by (simp add: processAllNodesForRule_def)
  next
    case (Inr ns)
    note c = processAllNodesForRule_contract[OF con l[unfolded Inr] run]
    show ?thesis unfolding same_everywhere_def
    proof
      fix k
      show "same_id t (tv w k) = same_id t (tv w' k)"
      proof (cases "k \<in> nodeName ` {n \<in> set ns. ruleAppliesTo env rule n}")
        case False
        with c(5) show ?thesis by simp
      next
        case True
        then obtain n where n: "n \<in> set ns" "ruleAppliesTo env rule n" "k = nodeName n" by blast
        from c(4)[OF n(1,2)] have "tv w' k = nodeTaints (steered rule n) \<or> tv w' k = nodeTaints n"
          using n(3) steered_spec[OF c(6)] by (auto simp: outcome_def settled_def failed_def)
        with steered_same_id[OF t, of n] c(7) n show ?thesis by auto
      qed
    qed
  qed
qed

lemma updateStatusAttempt_keeps:
  assumes "taints_contract env tv"
  shows "tv (snd (updateStatusAttempt env rule w)) = tv w"
proof -
  obtain r v where g: "getRule env (ruleName rule) w = (r, v)" by (cases "getRule env (ruleName rule) w")
  have v: "tv v = tv w" by (rule keepsD[OF taints_contractD(3)[OF assms] g])
  have "tv (snd (statusUpdate env x v)) = tv v" for x
    using taints_contractD(6)[OF assms, of x] by (simp add: keeps_def)
  with g v show ?thesis by (cases r) (simp_all add: updateStatusAttempt_def)
qed

lemma cleanupDeletedAttempt_keeps:
  assumes "taints_contract env tv"
  shows "tv (snd (cleanupDeletedAttempt env name m w)) = tv w"
proof -
  obtain r v where g: "getRule env name w = (r, v)" by (cases "getRule env name w")
  have v: "tv v = tv w" by (rule keepsD[OF taints_contractD(3)[OF assms] g])
  have "tv (snd (statusUpdate env x v)) = tv v" for x
    using taints_contractD(6)[OF assms, of x] by (simp add: keeps_def)
  with g v show ?thesis by (cases r) (simp_all add: cleanupDeletedAttempt_def Let_def)
qed

lemma updateRuleStatus_keeps:
  assumes "taints_contract env tv" and "updateRuleStatus env rule w = (e, w')"
  shows "tv w' = tv w"
  using retry_invariant[OF taints_contractD(1)[OF assms(1)], of "\<lambda>v. tv v = tv w" w "updateStatusAttempt env rule"]
    updateStatusAttempt_keeps[OF assms(1)] assms(2) by (simp add: updateRuleStatus_def)

lemma cleanupDeletedNodes_keeps:
  assumes "taints_contract env tv" and "cleanupDeletedNodes env rule w = (e, w')"
  shows "tv w' = tv w"
proof -
  obtain r v where l: "listNodes env w = (r, v)" by (cases "listNodes env w")
  have v: "tv v = tv w" by (rule keepsD[OF taints_contractD(8)[OF assms(1)] l])
  have "tv (snd (retryOnConflict env (cleanupDeletedAttempt env (ruleName rule) m) v)) = tv v" for m
    by (rule retry_invariant[OF taints_contractD(1)[OF assms(1)], of "\<lambda>u. tv u = tv v"])
      (simp_all add: cleanupDeletedAttempt_keeps[OF assms(1)])
  then have "tv u = tv v" if "retryOnConflict env (cleanupDeletedAttempt env (ruleName rule) m) v = (x, u)" for m x u
    using that by (metis snd_conv)
  with assms(2) l v show ?thesis
    by (cases r) (auto simp: cleanupDeletedNodes_def Let_def split: if_splits)
qed

lemma reconcileProcessing_same:
  assumes con: "taints_contract env tv" "list_contract env tv" and run: "reconcileProcessing env rule w = (res, w')"
    and t: "taint_id (taint_of rule) \<noteq> taint_id t"
  shows "same_everywhere t (tv w) (tv w')"
proof -
  obtain e1 rule1 w1 where p: "processRule env rule w = (e1, rule1, w1)" by (cases "processRule env rule w")
  have same: "same_everywhere t (tv w) (tv w1)"
  proof (cases "dryRun (ruleSpec rule)")
    case True
    with p processDryRun_world[of env rule w] have "w1 = snd (listNodes env w)" by (simp add: processRule_def)
    with taints_contractD(8)[OF con(1)] show ?thesis by (simp add: keeps_def)
  next
    case False
    with p have "processAllNodesForRule env (clearDryRun rule) w = (e1, rule1, w1)" by (simp add: processRule_def)
    from processAllNodesForRule_same[OF con this] t show ?thesis by (simp add: clearDryRun_def)
  qed
  obtain e2 w2 where u: "updateRuleStatus env rule1 w1 = (e2, w2)" by (cases "updateRuleStatus env rule1 w1")
  obtain e3 w3 where d: "cleanupDeletedNodes env rule1 w2 = (e3, w3)" by (cases "cleanupDeletedNodes env rule1 w2")
  have "tv w2 = tv w1" "tv w3 = tv w2"
    by (rule updateRuleStatus_keeps[OF con(1) u], rule cleanupDeletedNodes_keeps[OF con(1) d])
  moreover have "w' = w1 \<or> w' = w2 \<or> w' = w3"
    using run p u d by (auto simp: reconcileProcessing_def split: option.splits)
  ultimately show ?thesis using same by auto
qed

lemma reconcileDeletion_same:
  assumes con: "taints_contract env tv" "list_contract env tv" and run: "reconcileDeletion env c rule w = (res, c', w')"
    and t: "taint_id (taint_of rule) \<noteq> taint_id t"
  shows "same_everywhere t (tv w) (tv w')"
proof -
  obtain e w1 where cl: "cleanupTaintsForRule env rule w = (e, w1)" by (cases "cleanupTaintsForRule env rule w")
  obtain r w2 where u: "updateRule env (removeFinalizer rule finalizerName) w1 = (r, w2)"
    by (cases "updateRule env (removeFinalizer rule finalizerName) w1")
  have "tv w2 = tv w1" by (rule keepsD[OF taints_contractD(5)[OF con(1)] u])
  moreover have "w' = w \<or> w' = w1 \<or> w' = w2"
    using run cl u by (auto simp: reconcileDeletion_def split: if_splits option.splits sum.splits)
  ultimately show ?thesis using cleanupTaintsForRule_same[OF con cl t] by auto
qed

lemma ensureFinalizer_keeps:
  assumes "taints_contract env tv" and "ensureFinalizer env name rule w = (r, w')"
  shows "tv w' = tv w"
proof -
  obtain a v where u: "updateRule env (addFinalizer rule finalizerName) w = (a, v)"
    by (cases "updateRule env (addFinalizer rule finalizerName) w")
  obtain b v2 where g: "getRule env name v = (b, v2)" by (cases "getRule env name v")
  have "tv v = tv w" "tv v2 = tv v"
    by (rule keepsD[OF taints_contractD(5)[OF assms(1)] u], rule keepsD[OF taints_contractD(3)[OF assms(1)] g])
  with assms(2) u g show ?thesis by (auto simp: ensureFinalizer_def split: if_splits sum.splits)
qed

lemma reconcileSelectorChange_same:
  assumes con: "taints_contract env tv" "list_contract env tv"
    and run: "reconcileSelectorChange env c rule w = (e, w')" and t: "taint_id (taint_of rule) \<noteq> taint_id t"
  shows "same_everywhere t (tv w) (tv w')"
  using run cleanupNodesAfterSelectorChange_same[OF con _ t]
  by (auto simp: reconcileSelectorChange_def split: option.splits if_splits)

lemma ruleReconcile_same:
  assumes con: "taints_contract env tv" "list_contract env tv"
    and t: "\<And>r v v'. getRule env name v = (Inr r, v') \<Longrightarrow> taint_id (taint_of r) \<noteq> taint_id t"
    and run: "ruleReconcile env c name w = (res, c', w')"
  shows "same_everywhere t (tv w) (tv w')"
proof -
  obtain r w1 where g: "getRule env name w = (r, w1)" by (cases "getRule env name w")
  have w1: "tv w1 = tv w" by (rule keepsD[OF taints_contractD(3)[OF con(1)] g])
  show ?thesis
  proof (cases r)
    case (Inl e)
    with run g w1 show ?thesis by (auto simp: ruleReconcile_def split: if_splits)
  next
    case (Inr rule0)
    note g0 = g[unfolded Inr]
    show ?thesis
    proof (cases "deletionTimestamp rule0 = None")
      case False
      with run ruleReconcile_deleting[OF g0] have "reconcileDeletion env c rule0 w1 = (res, c', w')" by simp
      from reconcileDeletion_same[OF con this t[OF g0]] w1 show ?thesis by simp
    next
      case True
      obtain f w2 where f: "ensureFinalizer env name rule0 w1 = (f, w2)" by (cases "ensureFinalizer env name rule0 w1")
      have w2: "tv w2 = tv w" using ensureFinalizer_keeps[OF con(1) f] w1 by simp
      show ?thesis
      proof (cases f)
        case (Inl x)
        with run g0 True f w2 show ?thesis by (simp add: ruleReconcile_def)
      next
        case Inr2: (Inr rule)
        have tr: "taint_id (taint_of rule) \<noteq> taint_id t" using ensureFinalizer_got[OF f[unfolded Inr2] g0] t by blast
        obtain e w3 where s: "reconcileSelectorChange env c rule w2 = (e, w3)" by (cases "reconcileSelectorChange env c rule w2")
        obtain res' w4 where p: "reconcileProcessing env rule w3 = (res', w4)" by (cases "reconcileProcessing env rule w3")
        have "w' = w3 \<or> w' = w4"
          using run g0 True f Inr2 s p by (auto simp: ruleReconcile_def split: option.splits)
        with reconcileSelectorChange_same[OF con s tr] reconcileProcessing_same[OF con p tr] w2
        show ?thesis by (auto intro: same_everywhere_trans)
      qed
    qed
  qed
qed

end
