(* ===== verification/Feedback.thy ===== *)
theory Feedback
  imports System
begin

text \<open>
  The node reconciler as a closed loop. A patch of a node's taints is itself an update event of that node,
  so the reconciler triggers itself; this theory shows that the loop ends. While the API server answers, a
  pass over the rules is a fold of the specification \<open>steered\<close> over the rules that are evaluated, and a
  second pass finds nothing to do, writes no node and so raises no event.
\<close>

subsection \<open>A server that answers\<close>

text \<open>
  \<open>available env name U\<close>: in a world where \<open>U\<close> holds the node can be read and patched, and every call
  leads to such a world again. \<open>stable_node env tv n\<close>: whenever a node of the name of \<open>n\<close> is read or
  listed, or is the answer of a patch, it shows the conditions and labels of \<open>n\<close>, and a read shows the
  taints the server holds; other clients leave them alone.
\<close>

definition available :: "'w env \<Rightarrow> string \<Rightarrow> ('w \<Rightarrow> bool) \<Rightarrow> bool" where
  "available env name U \<longleftrightarrow> (\<forall>w. U w \<longrightarrow>
     (\<forall>k. U (snd (getRule env k w))) \<and> (\<forall>r. U (snd (statusUpdate env r w))) \<and>
     (\<forall>k. U (snd (getNode env k w))) \<and> (\<forall>n. U (snd (updateNode env n w))) \<and> U (snd (clockNow env w)) \<and>
     (\<exists>n w'. getNode env name w = (Inr n, w')) \<and>
     (\<forall>base new. nodeName new = name \<longrightarrow> (\<exists>n w'. patchNode env base new w = (Inr n, w') \<and> U w')))"

definition stable_node :: "'w env \<Rightarrow> ('w \<Rightarrow> string \<Rightarrow> taint list) \<Rightarrow> node \<Rightarrow> bool" where
  "stable_node env tv n \<longleftrightarrow>
     (\<forall>k w m w'. getNode env k w = (Inr m, w') \<longrightarrow> nodeName m = k \<and>
        (k = nodeName n \<longrightarrow> nodeTaints m = tv w k \<and> nodeConditions m = nodeConditions n \<and> nodeLabels m = nodeLabels n)) \<and>
     (\<forall>w ms w' m. listNodes env w = (Inr ms, w') \<longrightarrow> m \<in> set ms \<longrightarrow> nodeName m = nodeName n \<longrightarrow>
        nodeConditions m = nodeConditions n \<and> nodeLabels m = nodeLabels n) \<and>
     (\<forall>base new w m w'. patchNode env base new w = (Inr m, w') \<longrightarrow> nodeName new = nodeName n \<longrightarrow>
        nodeConditions m = nodeConditions n)"

lemma stable_nodeD:
  assumes "stable_node env tv n"
  shows "getNode env k w = (Inr m, w') \<Longrightarrow> nodeName m = k"
    "getNode env (nodeName n) w = (Inr m, w') \<Longrightarrow>
      nodeTaints m = tv w (nodeName n) \<and> nodeConditions m = nodeConditions n \<and> nodeLabels m = nodeLabels n"
    "listNodes env w = (Inr ms, w') \<Longrightarrow> m \<in> set ms \<Longrightarrow> nodeName m = nodeName n \<Longrightarrow>
      nodeConditions m = nodeConditions n \<and> nodeLabels m = nodeLabels n"
    "patchNode env base new w = (Inr m, w') \<Longrightarrow> nodeName new = nodeName n \<Longrightarrow> nodeConditions m = nodeConditions n"
  using assms unfolding stable_node_def by blast+

lemma availableD:
  assumes "available env name U" and "U w"
  shows "getRule env k w = (a, w1) \<Longrightarrow> U w1" "statusUpdate env r w = (b, w1) \<Longrightarrow> U w1"
    "getNode env k w = (d, w1) \<Longrightarrow> U w1" "updateNode env n w = (e, w1) \<Longrightarrow> U w1" "clockNow env w = (g, w1) \<Longrightarrow> U w1"
    "\<exists>n w'. getNode env name w = (Inr n, w')"
    "nodeName new = name \<Longrightarrow> \<exists>n w'. patchNode env base new w = (Inr n, w') \<and> U w'"
  using assms unfolding available_def by (metis snd_conv)+

lemma available_keeps:
  assumes "available env name U" and "U w"
  shows "U (snd (getRule env k w))" "U (snd (statusUpdate env r w))" "U (snd (getNode env k w))"
    "U (snd (updateNode env n w))" "U (snd (clockNow env w))"
  using assms by (simp_all add: available_def)

subsection \<open>One evaluation\<close>

text \<open>Without any assumption on failures: what the node in hand and the server's taints can become.\<close>

lemma evaluateOrRecord_any:
  assumes con: "taints_contract env tv" and run: "evaluateOrRecord env rule n w = (r1, n1, w1)"
  shows "nodeName n1 = nodeName n" "nodeTaints n1 = nodeTaints (steered rule n)"
    "tv w1 = tv w \<or> needs_action rule n \<and> tv w1 = (tv w)(nodeName n := nodeTaints (steered rule n))"
proof -
  obtain e r2 n2 w2 where ev: "evaluateRuleForNode env rule n w = (e, r2, n2, w2)"
    by (cases "evaluateRuleForNode env rule n w")
  have "n1 = n2" "tv w1 = tv w2"
    using run ev clock_keeps[OF con] by (auto simp: evaluateOrRecord_def recordNodeFailure_eq split: option.splits)
  with evaluateRuleForNode_any(1-3)[OF con ev] show "nodeName n1 = nodeName n" "nodeTaints n1 = nodeTaints (steered rule n)"
    "tv w1 = tv w \<or> needs_action rule n \<and> tv w1 = (tv w)(nodeName n := nodeTaints (steered rule n))"
    by (simp_all split: if_splits)
qed

text \<open>The node in hand keeps the stable conditions.\<close>

lemma evaluateOrRecord_stable:
  assumes st: "stable_node env tv n0" and run: "evaluateOrRecord env rule n w = (r1, n1, w1)"
    and n: "nodeName n = nodeName n0" "nodeConditions n = nodeConditions n0"
  shows "nodeConditions n1 = nodeConditions n0"
proof -
  obtain r v where p: "patchNode env n (steered rule n) w = (r, v)" by (cases "patchNode env n (steered rule n) w")
  have "nodeConditions m = nodeConditions n0" if "r = Inr m" for m
    by (rule stable_nodeD(4)[OF st p[unfolded that]]) (use n in simp)
  with run p n show ?thesis
    by (cases r) (auto simp: evaluateOrRecord_def evaluateRuleForNode_eq record_evaluation_eq recordNodeFailure_eq
      split: if_splits option.splits)
qed

lemma markAttempt_up:
  assumes "available env name U" and "U w"
  shows "U (snd (markAttempt env k key w))"
proof -
  obtain r v where g: "getNode env k w = (r, v)" by (cases "getNode env k w")
  have "U v" by (rule availableD(3)[OF assms g])
  with available_keeps(4)[OF assms(1)] g show ?thesis by (cases r) (simp_all add: markAttempt_def Let_def)
qed

lemma after_patch_up:
  assumes "retry_contract env" and "available env name U" and "U w"
  shows "U (after_patch env rule n n' w)"
  unfolding after_patch_def markBootstrapCompleted_def
  using retry_invariant[OF assms(1), of U w] assms(3) markAttempt_up[OF assms(2)] by simp

text \<open>While the server answers, an evaluation succeeds.\<close>

lemma evaluateOrRecord_up:
  assumes con: "taints_contract env tv" and up: "available env name U" and "U w" and "nodeName n = name"
    and run: "evaluateOrRecord env rule n w = (r1, n1, w1)"
  shows "U w1" and "tv w name = nodeTaints n \<Longrightarrow> tv w1 = (tv w)(name := nodeTaints (steered rule n))"
proof -
  note retry = taints_contractD(1)[OF con]
  obtain e r2 n2 w2 where ev: "evaluateRuleForNode env rule n w = (e, r2, n2, w2)"
    by (cases "evaluateRuleForNode env rule n w")
  have name: "nodeName (steered rule n) = name" using assms(4) by simp
  from availableD(7)[OF up assms(3) name] obtain m v where p: "patchNode env n (steered rule n) w = (Inr m, v)" "U v"
    by blast
  have e: "e = None \<and> U w2"
    using ev p available_keeps(5)[OF up assms(3)] available_keeps(5)[OF up after_patch_up[OF retry up p(2)]]
    by (cases "needs_action rule n") (auto simp: evaluateRuleForNode_eq record_evaluation_eq)
  with run ev have w: "w1 = w2" by (auto simp: evaluateOrRecord_def)
  with e show "U w1" by simp
  assume "tv w name = nodeTaints n"
  with evaluateRuleForNode_contract(3)[OF con ev] e assms(4) w
  show "tv w1 = (tv w)(name := nodeTaints (steered rule n))" by simp
qed

lemma isBootstrapCompleted_up:
  "available env name U \<Longrightarrow> U w \<Longrightarrow> isBootstrapCompleted env k rule w = (b, w1) \<Longrightarrow> U w1"
  by (auto simp: isBootstrapCompleted_def split: prod.splits sum.splits dest: availableD(3))

lemma persist_up:
  assumes "retry_contract env" and "available env name U" and "U w"
    and "retryOnConflict env (persistAttempt env rule k) w = (e, w1)"
  shows "U w1"
proof -
  have "U (snd (persistAttempt env rule k v))" if "U v" for v
  proof -
    obtain r u where g: "getRule env (ruleName rule) v = (r, u)" by (cases "getRule env (ruleName rule) v")
    have "U u" by (rule availableD(1)[OF assms(2) that g])
    with available_keeps(2)[OF assms(2)] g show ?thesis
      by (cases r) (simp_all add: persistAttempt_def split: option.split)
  qed
  with retry_invariant[OF assms(1), of U w "persistAttempt env rule k"] assms(3,4) show ?thesis by simp
qed

subsection \<open>A pass over the rules as a fold\<close>

text \<open>\<open>steered\<close> reads the conditions and the taints of a node only.\<close>

lemma steered_like:
  assumes "nodeConditions n = nodeConditions m" and "nodeTaints n = nodeTaints m"
  shows "nodeTaints (steered r n) = nodeTaints (steered r m)"
  using ready_cong[OF assms(1), of r] hasTaintBySpec_cong[OF assms(2), of "taint_of r"] assms(2)
  by (simp add: steered_cases dropTaint_def appendTaint_def)

lemma fold_steered_fields [simp]:
  "nodeName (fold steered rs n) = nodeName n" "nodeConditions (fold steered rs n) = nodeConditions n"
  "nodeLabels (fold steered rs n) = nodeLabels n"
  by (induction rs arbitrary: n) simp_all

lemma fold_steered_like:
  "nodeConditions n = nodeConditions m \<Longrightarrow> nodeTaints n = nodeTaints m \<Longrightarrow>
   nodeTaints (fold steered rs n) = nodeTaints (fold steered rs m)"
proof (induction rs arbitrary: n m)
  case Nil
  then show ?case by simp
next
  case (Cons r rs)
  then have "nodeTaints (fold steered rs (steered r n)) = nodeTaints (fold steered rs (steered r m))"
    by (intro Cons.IH steered_like) simp_all
  then show ?case by simp
qed

lemma fold_steered_foreign:
  "\<forall>r \<in> set rs. taint_id (taint_of r) \<noteq> taint_id t \<Longrightarrow> same_id t (nodeTaints (fold steered rs n)) = same_id t (nodeTaints n)"
  by (induction rs arbitrary: n) (simp_all add: steered_same_id)

lemma fold_steered_idle: "\<forall>r \<in> set rs. \<not> needs_action r n \<Longrightarrow> fold steered rs n = n"
proof (induction rs)
  case (Cons r rs)
  then have "steered r n = n" by (auto simp: needs_action_def steered_cases wants_taint_def)
  with Cons show ?case by simp
qed simp

lemma wants_taint_cong: "nodeConditions n = nodeConditions m \<Longrightarrow> wants_taint r n = wants_taint r m"
  by (simp add: wants_taint_def ready_cong[of n m])

lemma fold_steered_settles:
  assumes "r \<in> set rs" and "\<forall>s \<in> set rs. s \<noteq> r \<longrightarrow> taint_id (taint_of s) \<noteq> taint_id (taint_of r)"
  shows "hasTaintIn (nodeTaints (fold steered rs n)) (taint_of r) \<longleftrightarrow> wants_taint r n"
  using assms
proof (induction rs arbitrary: n)
  case Nil
  then show ?case by simp
next
  case (Cons s rs)
  have wants: "wants_taint r (steered s n) = wants_taint r n" by (rule wants_taint_cong) simp
  show ?case
  proof (cases "r \<in> set rs")
    case True
    with Cons.IH[of "steered s n"] Cons.prems(2) wants show ?thesis by simp
  next
    case False
    with Cons.prems have s: "s = r" "\<forall>s \<in> set rs. taint_id (taint_of s) \<noteq> taint_id (taint_of r)" by auto
    have "hasTaintIn (nodeTaints (fold steered rs (steered r n))) (taint_of r) \<longleftrightarrow> hasTaintIn (nodeTaints (steered r n)) (taint_of r)"
      unfolding hasTaintIn_same_id fold_steered_foreign[OF s(2)] ..
    also have "\<dots> \<longleftrightarrow> wants_taint r n" using steered_has[of r n] by (simp add: hasTaintBySpec_def)
    finally show ?thesis using s(1) by simp
  qed
qed

text \<open>The rules a pass is sure to evaluate, whatever marks the node carries.\<close>

definition always_evaluated :: "controller \<Rightarrow> nodeReadinessRule \<Rightarrow> bool" where
  "always_evaluated c = due c UNIV"

lemma always_evaluated_iff:
  "always_evaluated c r \<longleftrightarrow> active c r \<and> enforcementMode (ruleSpec r) \<noteq> ''bootstrap-only''"
  by (auto simp: always_evaluated_def due_def mode_defs)

lemma active_writeThrough [simp]: "active (writeThrough c k r) = active c" "always_evaluated (writeThrough c k r) = always_evaluated c"
  by (simp_all add: fun_eq_iff active_def always_evaluated_def due_def writeThrough_def)

lemma processRulesLoop_up:
  assumes con: "taints_contract env tv" and up: "available env name U"
    and st: "stable_node env tv n0" and n0: "nodeName n0 = name"
    and "processRulesLoop env ks c n w = (c', n', w')" and "distinct ks"
    and "U w" and "nodeName n = name" and "tv w name = nodeTaints n" and "nodeConditions n = nodeConditions n0"
  shows "U w' \<and> (\<exists>rs. tv w' = (tv w)(name := nodeTaints (fold steered rs n)) \<and>
    (\<forall>r \<in> set rs. \<exists>k \<in> set ks. fmlookup (ruleCache c) k = Some r \<and> active c r) \<and>
    (\<forall>k \<in> set ks. \<forall>r. fmlookup (ruleCache c) k = Some r \<longrightarrow> always_evaluated c r \<longrightarrow> r \<in> set rs))"
  using assms(5-)
proof (induction ks arbitrary: c n w)
  case Nil
  then show ?case by (auto intro!: exI[of _ "[]"] simp: fun_eq_iff)
next
  case (Cons k ks)
  have k: "k \<notin> set ks" "distinct ks" using Cons.prems(2) by simp_all
  show ?case
  proof (cases "fmlookup (ruleCache c) k")
    case None
    with Cons.prems(1) have run: "processRulesLoop env ks c n w = (c', n', w')" by simp
    from Cons.IH[OF run k(2) Cons.prems(3-6)] None show ?thesis by auto
  next
    case (Some rule)
    obtain b w1 where b: "isBootstrapCompleted env (nodeName n) (ruleName rule) w = (b, w1)"
      by (cases "isBootstrapCompleted env (nodeName n) (ruleName rule) w")
    have tv1: "tv w1 = tv w" by (rule isBootstrapCompleted_keeps[OF con b])
    have u1: "U w1" by (rule isBootstrapCompleted_up[OF up Cons.prems(3) b])
    have cur1: "tv w1 name = nodeTaints n" using tv1 Cons.prems(5) by simp
    show ?thesis
    proof (cases "skipRule c rule b")
      case True
      with Cons.prems(1) Some b have run: "processRulesLoop env ks c n w1 = (c', n', w')" by simp
      have "\<not> always_evaluated c rule" using True by (auto simp: skipRule_def always_evaluated_iff active_def mode_defs)
      with Cons.IH[OF run k(2) u1 Cons.prems(4) cur1 Cons.prems(6)] Some show ?thesis unfolding tv1 by auto
    next
      case False
      obtain r1 n1 w2 where ev: "evaluateOrRecord env rule n w1 = (r1, n1, w2)"
        by (cases "evaluateOrRecord env rule n w1")
      obtain err w3 where p: "retryOnConflict env (persistAttempt env r1 (nodeName n1)) w2 = (err, w3)"
        by (cases "retryOnConflict env (persistAttempt env r1 (nodeName n1)) w2")
      let ?c = "writeThrough c k r1"
      have run: "processRulesLoop env ks ?c n1 w3 = (c', n', w')" using Cons.prems(1) False Some b ev p by simp
      note any = evaluateOrRecord_any[OF con ev]
      note one = evaluateOrRecord_up[OF con up u1 Cons.prems(4) ev]
      have u3: "U w3" by (rule persist_up[OF taints_contractD(1)[OF con] up one(1) p])
      have tv3: "tv w3 = (tv w)(name := nodeTaints (steered rule n))"
        using persist_keeps[OF con p] one(2)[OF cur1] tv1 by simp
      have n1: "nodeName n1 = name" "tv w3 name = nodeTaints n1" using any(1,2) Cons.prems(4) tv3 by simp_all
      have c1: "nodeConditions n1 = nodeConditions n0"
        by (rule evaluateOrRecord_stable[OF st ev]) (use Cons.prems(4,6) n0 in simp_all)
      from Cons.IH[OF run k(2) u3 n1 c1] obtain rs where u: "U w'"
        and rs: "tv w' = (tv w3)(name := nodeTaints (fold steered rs n1))"
          "\<forall>r \<in> set rs. \<exists>j \<in> set ks. fmlookup (ruleCache ?c) j = Some r \<and> active c r"
          "\<forall>j \<in> set ks. \<forall>r. fmlookup (ruleCache ?c) j = Some r \<longrightarrow> always_evaluated c r \<longrightarrow> r \<in> set rs"
        unfolding active_writeThrough by blast
      have look: "fmlookup (ruleCache ?c) j = fmlookup (ruleCache c) j" if "j \<in> set ks" for j
        using that k(1) by (auto simp: writeThrough_def)
      have "nodeTaints (fold steered rs n1) = nodeTaints (fold steered rs (steered rule n))"
        by (rule fold_steered_like) (simp_all add: any c1 Cons.prems(6))
      with rs(1) tv3 have "tv w' = (tv w)(name := nodeTaints (fold steered (rule # rs) n))" by simp
      moreover have "active c rule" using False by (simp add: skipRule_def active_def)
      ultimately show ?thesis using u rs(2,3) look Some
        by (intro conjI exI[of _ "rule # rs"]) auto
    qed
  qed
qed

text \<open>What a pass does to the cache: specifications stay.\<close>

definition cached_spec :: "controller \<Rightarrow> string \<Rightarrow> nodeReadinessRuleSpec option" where
  "cached_spec c k = map_option ruleSpec (fmlookup (ruleCache c) k)"

lemma processRulesLoop_specs:
  "processRulesLoop env ks c n w = (c', n', w') \<Longrightarrow> cached_spec c' = cached_spec c \<and> globalDryRun c' = globalDryRun c"
proof (induction ks arbitrary: c n w)
  case Nil
  then show ?case by simp
next
  case (Cons k ks)
  show ?case
  proof (cases "fmlookup (ruleCache c) k")
    case None
    with Cons show ?thesis by simp
  next
    case (Some rule)
    obtain b w1 where b: "isBootstrapCompleted env (nodeName n) (ruleName rule) w = (b, w1)"
      by (cases "isBootstrapCompleted env (nodeName n) (ruleName rule) w")
    obtain r1 n1 w2 where ev: "evaluateOrRecord env rule n w1 = (r1, n1, w2)"
      by (cases "evaluateOrRecord env rule n w1")
    obtain err w3 where p: "retryOnConflict env (persistAttempt env r1 (nodeName n1)) w2 = (err, w3)"
      by (cases "retryOnConflict env (persistAttempt env r1 (nodeName n1)) w2")
    have "ruleSpec r1 = ruleSpec rule" using evaluateOrRecord_same_rule[OF ev] by (simp add: same_rule_def)
    then have "cached_spec (writeThrough c k r1) = cached_spec c" "globalDryRun (writeThrough c k r1) = globalDryRun c"
      using Some by (simp_all add: fun_eq_iff cached_spec_def writeThrough_def)
    with Cons Some b ev p show ?thesis by (cases "skipRule c rule b") simp_all
  qed
qed

subsection \<open>A reconcile of the node\<close>

text \<open>The node as it is served in a world: what is stable of it, with the server's taints.\<close>

definition node_now :: "('w \<Rightarrow> string \<Rightarrow> taint list) \<Rightarrow> 'w \<Rightarrow> node \<Rightarrow> node" where
  "node_now tv w n = n\<lparr>nodeTaints := tv w (nodeName n)\<rparr>"

lemma node_now_fields [simp]:
  "nodeName (node_now tv w n) = nodeName n" "nodeConditions (node_now tv w n) = nodeConditions n"
  "nodeLabels (node_now tv w n) = nodeLabels n" "nodeTaints (node_now tv w n) = tv w (nodeName n)"
  by (simp_all add: node_now_def)

lemma nodeReconcile_specs:
  assumes "nodeReconcile env order c name w = (res, c', w')"
  shows "cached_spec c' = cached_spec c \<and> globalDryRun c' = globalDryRun c"
proof -
  obtain r v where g: "getNode env name w = (r, v)" by (cases "getNode env name w")
  show ?thesis
  proof (cases r)
    case (Inl e)
    with assms g show ?thesis by (auto simp: nodeReconcile_def)
  next
    case (Inr n)
    obtain c1 n1 w2 where loop: "processRulesLoop env (getApplicableRulesForNode env c n order) c n v = (c1, n1, w2)"
      by (cases "processRulesLoop env (getApplicableRulesForNode env c n order) c n v")
    with assms g Inr have "c' = c1" by (simp add: nodeReconcile_def processNodeAgainstAllRules_def)
    with processRulesLoop_specs[OF loop] show ?thesis by simp
  qed
qed

lemma nodeReconcile_up:
  assumes con: "taints_contract env tv" and up: "available env (nodeName n) U" and st: "stable_node env tv n"
    and "U w" and order: "range_order (ruleCache c) order"
    and run: "nodeReconcile env order c (nodeName n) w = (res, c', w')"
  shows "U w' \<and> (\<exists>rs. tv w' = (tv w)(nodeName n := nodeTaints (fold steered rs (node_now tv w n))) \<and>
    (\<forall>r \<in> set rs. \<exists>k. getCachedRule c k = Some r \<and> ruleAppliesTo env r n \<and> active c r) \<and>
    (\<forall>k r. getCachedRule c k = Some r \<longrightarrow> ruleAppliesTo env r n \<longrightarrow> always_evaluated c r \<longrightarrow> r \<in> set rs))"
proof -
  from availableD(6)[OF up assms(4)] obtain m v where g: "getNode env (nodeName n) w = (Inr m, v)" by blast
  have m: "nodeName m = nodeName n" "nodeTaints m = tv w (nodeName n)" "nodeConditions m = nodeConditions n"
    "nodeLabels m = nodeLabels n" using stable_nodeD(1,2)[OF st g] by simp_all
  have v: "U v" "tv v = tv w" by (rule availableD(3)[OF up assms(4) g], rule keepsD[OF taints_contractD(7)[OF con] g])
  let ?ks = "getApplicableRulesForNode env c m order"
  obtain c1 n1 w2 where loop: "processRulesLoop env ?ks c m v = (c1, n1, w2)"
    by (cases "processRulesLoop env ?ks c m v")
  have w': "w' = w2" using run g loop by (simp add: nodeReconcile_def processNodeAgainstAllRules_def)
  have dist: "distinct ?ks" using order by (simp add: range_order_def getApplicableRulesForNode_distinct)
  have applies: "ruleAppliesTo env r m = ruleAppliesTo env r n" for r by (rule ruleAppliesTo_cong[OF refl m(4)])
  have mem: "k \<in> set ?ks \<longleftrightarrow> (\<exists>r. getCachedRule c k = Some r \<and> ruleAppliesTo env r n)" for k
    using getApplicableRulesForNode_iff[OF order] applies by blast
  have cur: "tv v (nodeName n) = nodeTaints m" using v(2) m(2) by simp
  from processRulesLoop_up[OF con up st refl loop dist v(1) m(1) cur m(3)] obtain rs where rs: "U w2"
    "tv w2 = (tv v)(nodeName n := nodeTaints (fold steered rs m))"
    "\<forall>r \<in> set rs. \<exists>k \<in> set ?ks. fmlookup (ruleCache c) k = Some r \<and> active c r"
    "\<forall>k \<in> set ?ks. \<forall>r. fmlookup (ruleCache c) k = Some r \<longrightarrow> always_evaluated c r \<longrightarrow> r \<in> set rs" by blast
  have "nodeTaints (fold steered rs m) = nodeTaints (fold steered rs (node_now tv w n))"
    by (rule fold_steered_like) (simp_all add: m)
  moreover have "\<exists>k. getCachedRule c k = Some r \<and> ruleAppliesTo env r n \<and> active c r" if r: "r \<in> set rs" for r
  proof -
    from rs(3) r obtain k where k: "k \<in> set ?ks" "fmlookup (ruleCache c) k = Some r" "active c r" by blast
    from mem k(1) obtain s where "getCachedRule c k = Some s" "ruleAppliesTo env s n" by blast
    with k show ?thesis by (auto simp: getCachedRule_def)
  qed
  moreover have "r \<in> set rs" if "getCachedRule c k = Some r" "ruleAppliesTo env r n" "always_evaluated c r" for k r
    using rs(4) mem that by (auto simp: getCachedRule_def)
  ultimately show ?thesis using rs(1,2) w' v(2) by auto
qed

subsection \<open>The loop\<close>

text \<open>
  The rounds of the loop: the node is reconciled; if the node then differs from what it was, in a way the
  event predicate lets through, the update event is the next round. \<open>order\<close> is the order in which each
  round ranges over the cache, and running out of the given number of rounds is \<open>None\<close>.
\<close>

fun settle :: "'w env \<Rightarrow> (controller \<Rightarrow> string list) \<Rightarrow> nat \<Rightarrow> controller \<Rightarrow> string \<Rightarrow> 'w \<Rightarrow> (controller \<times> 'w) option" where
  "settle env order 0 c name w = None"
| "settle env order (Suc rounds) c name w =
     (case getNode env name w of
        (Inl e, w1) \<Rightarrow> Some (c, w1)
      | (Inr old, w1) \<Rightarrow>
          (case nodeReconcile env (order c) c name w1 of
             (res, c', w2) \<Rightarrow>
               (case getNode env name w2 of
                  (Inl e, w3) \<Rightarrow> Some (c', w3)
                | (Inr new, w3) \<Rightarrow>
                    if nodeUpdateFunc old new then settle env order rounds c' name w3 else Some (c', w3))))"

text \<open>
  Rules whose taints have a known effect and a key that does not end in \<open>Prefer\<close> keep the taint list one
  that \<open>taintsEqual\<close> tells from any other.
\<close>

definition admissible_taint :: "taint \<Rightarrow> bool" where
  "admissible_taint t \<longleftrightarrow> taintEffect t \<in> set taint_effects \<and> \<not> suffix ''Prefer'' (taintKey t)"

lemma steered_wf_taints:
  assumes "wf_taints (nodeTaints n)" and "admissible_taint (taint_of r)"
  shows "wf_taints (nodeTaints (steered r n))"
proof -
  have "wf_taints (nodeTaints (appendTaint n (taint_of r)))" if "\<not> hasTaintBySpec n (taint_of r)"
    using assms that by (auto simp: wf_taints_def admissible_taint_def hasTaintBySpec_def hasTaintIn_iff)
  moreover have "wf_taints (nodeTaints (dropTaint n (taint_of r)))"
    using assms(1) by (auto simp: wf_taints_def dropTaint_def filterTaints_eq distinct_map_filter)
  ultimately show ?thesis using assms(1) by (simp add: steered_cases)
qed

lemma fold_steered_wf_taints:
  "wf_taints (nodeTaints n) \<Longrightarrow> \<forall>r \<in> set rs. admissible_taint (taint_of r) \<Longrightarrow> wf_taints (nodeTaints (fold steered rs n))"
  by (induction rs arbitrary: n) (simp_all add: steered_wf_taints)

lemma nodeUpdateFunc_same:
  assumes "wf_conditions (nodeConditions a)" and "wf_taints (nodeTaints a)" and "nodeTaints b = nodeTaints a"
    and "nodeConditions b = nodeConditions a" and "nodeLabels b = nodeLabels a"
  shows "\<not> nodeUpdateFunc a b"
  using assms conds.same_iff[OF assms(1,1)] taints.same_iff[OF assms(2,2)]
  by (simp add: nodeUpdateFunc_def labelsEqual_def fmpred_go_index_refl)

text \<open>
  Reconciling once leaves every rule that applies satisfied; reconciling again then changes no taint.
  \<open>calm c n ts\<close>: no active rule of the cache that applies to the node needs an action when it has the
  taints \<open>ts\<close>.
\<close>

definition calm :: "'w env \<Rightarrow> controller \<Rightarrow> node \<Rightarrow> taint list \<Rightarrow> bool" where
  "calm env c n ts \<longleftrightarrow> (\<forall>k r. getCachedRule c k = Some r \<longrightarrow> ruleAppliesTo env r n \<longrightarrow> active c r \<longrightarrow>
     (hasTaintIn ts (taint_of r) \<longleftrightarrow> wants_taint r n))"

lemma calm_specs:
  assumes "calm env c n ts" and "cached_spec c' = cached_spec c" and "globalDryRun c' = globalDryRun c"
  shows "calm env c' n ts"
  unfolding calm_def
proof (intro allI impI)
  fix k r assume r: "getCachedRule c' k = Some r" "ruleAppliesTo env r n" "active c' r"
  have "cached_spec c' k = Some (ruleSpec r)" using r(1) by (simp add: cached_spec_def getCachedRule_def)
  then obtain s where s: "getCachedRule c k = Some s" "ruleSpec s = ruleSpec r"
    unfolding assms(2) by (auto simp: cached_spec_def getCachedRule_def)
  have "ruleAppliesTo env s n" "active c s"
    using r(2,3) ruleAppliesTo_spec[OF s(2), of env] s(2) assms(3) by (simp_all add: active_def)
  with assms(1) s(1) have "hasTaintIn ts (taint_of s) \<longleftrightarrow> wants_taint s n" unfolding calm_def by blast
  then show "hasTaintIn ts (taint_of r) \<longleftrightarrow> wants_taint r n" using wants_taint_spec[OF s(2), of n] s(2) by simp
qed

lemma nodeReconcile_calms:
  assumes con: "taints_contract env tv" and up: "available env (nodeName n) U" and st: "stable_node env tv n"
    and w: "U w" and order: "range_order (ruleCache c) order"
    and run: "nodeReconcile env order c (nodeName n) w = (res, c', w')"
    and apart: "\<forall>j k r s. getCachedRule c j = Some r \<longrightarrow> getCachedRule c k = Some s \<longrightarrow> j \<noteq> k \<longrightarrow>
      ruleAppliesTo env r n \<longrightarrow> ruleAppliesTo env s n \<longrightarrow> taint_id (taint_of r) \<noteq> taint_id (taint_of s)"
    and modes: "\<forall>k r. getCachedRule c k = Some r \<longrightarrow> ruleAppliesTo env r n \<longrightarrow>
      enforcementMode (ruleSpec r) \<noteq> ''bootstrap-only''"
  shows "calm env c n (tv w' (nodeName n))"
proof -
  from nodeReconcile_up[OF con up st w order run] obtain rs where rs:
    "tv w' = (tv w)(nodeName n := nodeTaints (fold steered rs (node_now tv w n)))"
    "\<forall>r \<in> set rs. \<exists>k. getCachedRule c k = Some r \<and> ruleAppliesTo env r n \<and> active c r"
    "\<forall>k r. getCachedRule c k = Some r \<longrightarrow> ruleAppliesTo env r n \<longrightarrow> always_evaluated c r \<longrightarrow> r \<in> set rs" by blast
  show ?thesis unfolding calm_def
  proof (intro allI impI)
    fix k r assume r: "getCachedRule c k = Some r" "ruleAppliesTo env r n" "active c r"
    with modes have "always_evaluated c r" by (auto simp: always_evaluated_iff)
    with rs(3) r have inn: "r \<in> set rs" by blast
    have "\<forall>s \<in> set rs. s \<noteq> r \<longrightarrow> taint_id (taint_of s) \<noteq> taint_id (taint_of r)"
    proof (intro ballI impI)
      fix s assume s: "s \<in> set rs" "s \<noteq> r"
      with rs(2) obtain j where j: "getCachedRule c j = Some s" "ruleAppliesTo env s n" by blast
      with s(2) r(1) have "j \<noteq> k" by auto
      with apart j r show "taint_id (taint_of s) \<noteq> taint_id (taint_of r)" by blast
    qed
    from fold_steered_settles[OF inn this, of "node_now tv w n"] wants_taint_cong[of "node_now tv w n" n r]
    show "hasTaintIn (tv w' (nodeName n)) (taint_of r) \<longleftrightarrow> wants_taint r n" by (simp add: rs(1))
  qed
qed

lemma nodeReconcile_calm:
  assumes con: "taints_contract env tv" and up: "available env (nodeName n) U" and st: "stable_node env tv n"
    and w: "U w" and order: "range_order (ruleCache c) order"
    and run: "nodeReconcile env order c (nodeName n) w = (res, c', w')" and "calm env c n (tv w (nodeName n))"
  shows "tv w' = tv w"
proof -
  from nodeReconcile_up[OF con up st w order run] obtain rs where rs:
    "tv w' = (tv w)(nodeName n := nodeTaints (fold steered rs (node_now tv w n)))"
    "\<forall>r \<in> set rs. \<exists>k. getCachedRule c k = Some r \<and> ruleAppliesTo env r n \<and> active c r" by blast
  have "\<not> needs_action r (node_now tv w n)" if r: "r \<in> set rs" for r
  proof -
    from rs(2) r obtain k where "getCachedRule c k = Some r" "ruleAppliesTo env r n" "active c r" by blast
    with assms(7) have "hasTaintIn (tv w (nodeName n)) (taint_of r) \<longleftrightarrow> wants_taint r n" unfolding calm_def by blast
    with wants_taint_cong[of "node_now tv w n" n r] show ?thesis by (simp add: needs_action_def hasTaintBySpec_def)
  qed
  then have "fold steered rs (node_now tv w n) = node_now tv w n" by (intro fold_steered_idle) blast
  with rs(1) show ?thesis by simp
qed

text \<open>What a read of the node shows while the server answers.\<close>

lemma read_stable:
  assumes "taints_contract env tv" and "available env (nodeName n) U" and "stable_node env tv n" and "U w"
  shows "\<exists>m w'. getNode env (nodeName n) w = (Inr m, w') \<and> U w' \<and> tv w' = tv w \<and> nodeTaints m = tv w (nodeName n) \<and>
    nodeConditions m = nodeConditions n \<and> nodeLabels m = nodeLabels n"
  using availableD(3,6)[OF assms(2,4)] stable_nodeD(2)[OF assms(3)] keepsD[OF taints_contractD(7)[OF assms(1)]] by blast

text \<open>A calm node is at rest after one round, which changes no taint.\<close>

lemma settle_calm:
  assumes con: "taints_contract env tv" and up: "available env (nodeName n) U" and st: "stable_node env tv n" and "U w"
    and ord: "\<And>c. range_order (ruleCache c) (order c)" and "calm env c n (tv w (nodeName n))"
    and wf: "wf_conditions (nodeConditions n)" "wf_taints (tv w (nodeName n))"
  shows "\<exists>c' w'. settle env order (Suc rounds) c (nodeName n) w = Some (c', w') \<and> tv w' = tv w \<and>
    cached_spec c' = cached_spec c \<and> globalDryRun c' = globalDryRun c"
proof -
  from read_stable[OF con up st assms(4)] obtain old w1 where old: "getNode env (nodeName n) w = (Inr old, w1)" "U w1"
    "tv w1 = tv w" "nodeTaints old = tv w (nodeName n)" "nodeConditions old = nodeConditions n"
    "nodeLabels old = nodeLabels n" by blast
  obtain res c1 w2 where r: "nodeReconcile env (order c) c (nodeName n) w1 = (res, c1, w2)"
    by (cases "nodeReconcile env (order c) c (nodeName n) w1")
  have tv2: "tv w2 = tv w1"
    by (rule nodeReconcile_calm[OF con up st old(2) ord r]) (use assms(6) old(3) in simp)
  have "U w2" using nodeReconcile_up[OF con up st old(2) ord r] by blast
  from read_stable[OF con up st this] obtain new w3 where new: "getNode env (nodeName n) w2 = (Inr new, w3)"
    "tv w3 = tv w2" "nodeTaints new = tv w2 (nodeName n)" "nodeConditions new = nodeConditions n"
    "nodeLabels new = nodeLabels n" by blast
  have "\<not> nodeUpdateFunc old new"
    by (rule nodeUpdateFunc_same) (use new tv2 old wf in simp_all)
  with old(1) r new(1) have "settle env order (Suc rounds) c (nodeName n) w = Some (c1, w3)" by simp
  with nodeReconcile_specs[OF r] new(2) tv2 old(3) show ?thesis by (intro exI[of _ c1] exI[of _ w3]) simp
qed

subsection \<open>Properties\<close>

text \<open>
  C6: The node reconciler's feedback loop ends. While the API server answers and other clients leave the
  node alone, reconciling a node and following the update events this causes takes at most two rounds,
  whatever the order in which each ranges over the cache. The rules that apply to the node must have
  different taints, each with one of the three effects and a key that does not end in \<open>Prefer\<close>, as the
  node's own taints must, and none may be bootstrap-only; nothing is asked of the labels. What the loop ends
  with is right: every such rule that is not a dry run has its taint exactly when one of its conditions is
  not met.
\<close>

theorem node_feedback_ends:
  assumes "taints_contract env tv" and "available env (nodeName n) U" and "stable_node env tv n" and "U w"
    and "\<forall>c. range_order (ruleCache c) (order c)"
    and "\<forall>j k r s. getCachedRule c j = Some r \<longrightarrow> getCachedRule c k = Some s \<longrightarrow> j \<noteq> k \<longrightarrow>
      ruleAppliesTo env r n \<longrightarrow> ruleAppliesTo env s n \<longrightarrow> taint_id (taint_of r) \<noteq> taint_id (taint_of s)"
    and "\<forall>k r. getCachedRule c k = Some r \<longrightarrow> ruleAppliesTo env r n \<longrightarrow>
      enforcementMode (ruleSpec r) \<noteq> ''bootstrap-only'' \<and> admissible_taint (taint_of r)"
    and "wf_conditions (nodeConditions n)" and "wf_taints (tv w (nodeName n))"
  shows "\<exists>c' w'. settle env order (Suc (Suc rounds)) c (nodeName n) w = Some (c', w') \<and>
    (\<forall>k r. getCachedRule c' k = Some r \<longrightarrow> ruleAppliesTo env r n \<longrightarrow>
      \<not> dryRun (ruleSpec r) \<longrightarrow> \<not> globalDryRun c \<longrightarrow>
      (hasTaintIn (tv w' (nodeName n)) (taint_of r) \<longleftrightarrow>
        \<not> list_all (\<lambda>c. getConditionStatus n (reqType c) = requiredStatus c) (conditions (ruleSpec r))))"
proof -
  let ?k = "nodeName n"
  note con = assms(1) and up = assms(2) and st = assms(3)
  have ord: "range_order (ruleCache d) (order d)" for d using assms(5) by blast
  have right: "hasTaintIn ts (taint_of r) \<longleftrightarrow>
      \<not> list_all (\<lambda>c. getConditionStatus n (reqType c) = requiredStatus c) (conditions (ruleSpec r))"
    if "calm env d n ts" "getCachedRule d k = Some r" "ruleAppliesTo env r n" "\<not> dryRun (ruleSpec r)" "\<not> globalDryRun d"
    for d ts k r
    using that unfolding calm_def by (auto simp: active_def wants_taint_def ready_def satisfiedBy_def[abs_def])
  from read_stable[OF con up st assms(4)] obtain old w1 where old: "getNode env ?k w = (Inr old, w1)" "U w1"
    "tv w1 = tv w" by blast
  obtain res c1 w2 where r1: "nodeReconcile env (order c) c ?k w1 = (res, c1, w2)"
    by (cases "nodeReconcile env (order c) c ?k w1")
  have calm: "calm env c n (tv w2 ?k)"
    by (rule nodeReconcile_calms[OF con up st old(2) ord r1 assms(6)]) (use assms(7) in blast)
  note spec1 = nodeReconcile_specs[OF r1]
  have calm1: "calm env c1 n (tv w2 ?k)" by (rule calm_specs[OF calm]) (use spec1 in simp_all)
  from nodeReconcile_up[OF con up st old(2) ord r1] obtain rs where u2: "U w2"
    and rs: "tv w2 = (tv w1)(?k := nodeTaints (fold steered rs (node_now tv w1 n)))"
      "\<forall>r \<in> set rs. \<exists>k. getCachedRule c k = Some r \<and> ruleAppliesTo env r n \<and> active c r" by blast
  have "\<forall>r \<in> set rs. admissible_taint (taint_of r)" using rs(2) assms(7) by blast
  from fold_steered_wf_taints[OF _ this, of "node_now tv w1 n"] assms(9) old(3) rs(1)
  have wf: "wf_taints (tv w2 ?k)" by simp
  from read_stable[OF con up st u2] obtain new w3 where new: "getNode env ?k w2 = (Inr new, w3)" "U w3"
    "tv w3 = tv w2" by blast
  show ?thesis
  proof (cases "nodeUpdateFunc old new")
    case False
    with old(1) r1 new(1) have "settle env order (Suc (Suc rounds)) c ?k w = Some (c1, w3)" by simp
    with right[OF calm1] new(3) spec1 show ?thesis by (intro exI[of _ c1] exI[of _ w3]) simp
  next
    case True
    have "calm env c1 n (tv w3 ?k)" "wf_taints (tv w3 ?k)" using calm1 wf new(3) by simp_all
    from settle_calm[OF con up st new(2) ord this(1) assms(8) this(2), of rounds] obtain c2 w4 where
      r2: "settle env order (Suc rounds) c1 ?k w3 = Some (c2, w4)" "tv w4 = tv w3"
        "cached_spec c2 = cached_spec c1" "globalDryRun c2 = globalDryRun c1" by blast
    have calm2: "calm env c2 n (tv w2 ?k)" by (rule calm_specs[OF calm1 r2(3,4)])
    have "settle env order (Suc (Suc rounds)) c ?k w = Some (c2, w4)" using True old(1) r1 new(1) r2(1) by simp
    with right[OF calm2] r2(2,4) new(3) spec1 show ?thesis by (intro exI[of _ c2] exI[of _ w4]) simp
  qed
qed

text \<open>
  A server on which the conditions and labels of one node are fixed, and the network rule is the only one
  it serves.
\<close>

definition show_stable :: "node \<Rightarrow> node \<Rightarrow> node" where
  "show_stable n m = (if nodeName m = nodeName n
     then m\<lparr>nodeConditions := nodeConditions n, nodeLabels := nodeLabels n\<rparr> else m)"

definition calm_env :: "node \<Rightarrow> server env" where
  "calm_env n = mem_env\<lparr>
     getNode := (\<lambda>k s. case getNode mem_env k s of (Inl e, s) \<Rightarrow> (Inl e, s) | (Inr m, s) \<Rightarrow> (Inr (show_stable n m), s)),
     listNodes := (\<lambda>s. (Inr (map (show_stable n) (dedup nodeName (srvNodes s))), s)),
     patchNode := (\<lambda>base new s. case patchNode mem_env base new s of (Inl e, s) \<Rightarrow> (Inl e, s) | (Inr m, s) \<Rightarrow> (Inr (show_stable n m), s)),
     getRule := (\<lambda>k s. (if k = ''net'' then Inr (net_rule ''continuous'' False) else Inl notFound, s))\<rparr>"

lemma show_stable_fields [simp]:
  "nodeName (show_stable n m) = nodeName m" "nodeTaints (show_stable n m) = nodeTaints m"
  "nodeName m = nodeName n \<Longrightarrow> nodeConditions (show_stable n m) = nodeConditions n"
  "nodeName m = nodeName n \<Longrightarrow> nodeLabels (show_stable n m) = nodeLabels n"
  by (simp_all add: show_stable_def)

lemma calm_env_simps:
  "getNode (calm_env n) k s = (case find_key nodeName k (srvNodes s) of None \<Rightarrow> (Inl notFound, s) | Some m \<Rightarrow> (Inr (show_stable n m), s))"
  "listNodes (calm_env n) s = (Inr (map (show_stable n) (dedup nodeName (srvNodes s))), s)"
  "getRule (calm_env n) k s = (if k = ''net'' then Inr (net_rule ''continuous'' False) else Inl notFound, s)"
  "patchNode (calm_env n) base new s = (case mem_patch base new s of (Inl e, s) \<Rightarrow> (Inl e, s) | (Inr m, s) \<Rightarrow> (Inr (show_stable n m), s))"
  "updateNode (calm_env n) = updateNode mem_env"
  "statusUpdate (calm_env n) = statusUpdate mem_env" "clockNow (calm_env n) = clockNow mem_env"
  "retryOnConflict (calm_env n) = retryOnConflict mem_env" "updateRule (calm_env n) = updateRule mem_env"
  "listRules (calm_env n) = listRules mem_env" "labelSelectorAsSelector (calm_env n) = mem_selector"
  by (simp_all add: calm_env_def mem_env_simps split: option.split)

lemma calm_contracts:
  "taints_contract (calm_env n) server_taints" "list_contract (calm_env n) server_taints" "stable_node (calm_env n) server_taints n"
proof -
  have patch: "patch_contract (calm_env n) server_taints"
    unfolding patch_contract_def
  proof (intro allI)
    fix base new s
    obtain r s' where p: "mem_patch base new s = (r, s')" by (cases "mem_patch base new s")
    from spec[OF spec[OF spec[OF mem_patch_contract[unfolded patch_contract_def], of base], of new], of s]
    show "case patchNode (calm_env n) base new s of
        (Inl e, s') \<Rightarrow> server_taints s' = server_taints s
      | (Inr m, s') \<Rightarrow> nodeName m = nodeName new \<and> nodeTaints m = server_taints s' (nodeName new) \<and>
          server_taints s' = (if nodeTaints base = nodeTaints new then server_taints s
            else (server_taints s)(nodeName new := nodeTaints new))"
      by (cases r) (simp_all add: calm_env_simps mem_env_simps(7) p)
  qed
  have update: "update_contract (calm_env n) server_taints"
    unfolding update_contract_def
  proof (intro exI[of _ server_version] conjI allI impI)
    fix m s s' assume "updateNode (calm_env n) m s = (None, s')"
    then have "mem_update m s = (None, s')" by (simp add: calm_env_simps mem_env_simps)
    note up = mem_update_None[OF this]
    show "nodeResourceVersion m \<in> {[], server_version s (nodeName m)}" by (rule up(1))
    show "server_taints s' = (server_taints s)(nodeName m := nodeTaints m)" by (rule up(2))
  qed (auto simp: keeps_def calm_env_simps mem_env_simps server_taints_def server_version_def dest: mem_update_Some find_key_SomeD
      split: option.splits)
  show "taints_contract (calm_env n) server_taints"
    using mem_taints_contract patch update
    by (auto simp: taints_contract_def calm_env_simps retry_contract_def keeps_def split: option.split)
  have comp: "nodeName \<circ> show_stable n = nodeName" by (simp add: fun_eq_iff)
  show "list_contract (calm_env n) server_taints"
    using mem_list_contract unfolding list_contract_def calm_env_simps mem_env_simps by (auto simp: comp)
  have "nodeName m = nodeName new" if "mem_patch base new s = (Inr m, s')" for base new s m s'
    using patch_ok(1)[OF mem_patch_contract, unfolded mem_env_simps, OF that] .
  then show "stable_node (calm_env n) server_taints n"
    by (auto simp: stable_node_def calm_env_simps server_taints_def split: option.splits prod.splits sum.splits dest: find_key_SomeD)
qed

definition answering :: "string \<Rightarrow> server \<Rightarrow> bool" where
  "answering name s \<longleftrightarrow> srvFaults s = [] \<and> find_key nodeName name (srvNodes s) \<noteq> None"

lemma answering_update: "answering name s \<Longrightarrow> answering name (snd (mem_update n s))"
  by (cases "mem_update n s"; cases "fst (mem_update n s)")
    (auto simp: answering_def mem_update_None dest: mem_update_Some)

lemma calm_available: "available (calm_env n) name (answering name)"
  unfolding available_def
proof (intro allI impI conjI)
  fix m s assume "answering name s"
  then show "answering name (snd (updateNode (calm_env n) m s))"
    by (simp add: calm_env_simps mem_env_simps answering_update)
qed (auto simp: answering_def calm_env_simps mem_env_simps mem_patch_def update_key_find split: option.splits)

theorem node_feedback_ends_witness:
  "\<exists>order c' s'. settle (calm_env (worker ''w1'' ''False'' [])) order 2
       (updateRuleCache newReadinessGateController (net_rule ''continuous'' False)) ''w1''
       (server_of [worker ''w1'' ''False'' []] [] []) = Some (c', s')"
proof -
  let ?n = "worker ''w1'' ''False'' []" and ?r = "net_rule ''continuous'' False"
  let ?c = "updateRuleCache newReadinessGateController ?r" and ?s = "server_of [?n] [] []"
  have cached: "getCachedRule ?c k = (if k = ''net'' then Some ?r else None)" for k
    by (simp add: cache.lookup_update net_rule_def) (simp add: getCachedRule_def newReadinessGateController_def)
  have only: "getCachedRule ?c k = Some r \<longleftrightarrow> k = ''net'' \<and> r = ?r" for k r unfolding cached by auto
  have "\<exists>ks. range_order (ruleCache c) ks" for c :: controller
    using finite_distinct_list[OF finite_fset[of "fmdom (ruleCache c)"]] by (auto simp: range_order_def)
  then have "\<forall>c. \<exists>ks. range_order (ruleCache (c :: controller)) ks" by blast
  from choice[OF this] obtain order where order: "\<forall>c. range_order (ruleCache (c :: controller)) (order c)" by blast
  have up: "answering (nodeName ?n) ?s" by (simp add: answering_def server_of_def worker_def)
  have apart: "\<forall>j k r s. getCachedRule ?c j = Some r \<longrightarrow> getCachedRule ?c k = Some s \<longrightarrow> j \<noteq> k \<longrightarrow>
      ruleAppliesTo (calm_env ?n) r ?n \<longrightarrow> ruleAppliesTo (calm_env ?n) s ?n \<longrightarrow> taint_id (taint_of r) \<noteq> taint_id (taint_of s)"
  proof (intro allI impI)
    fix j k r s assume hit: "getCachedRule ?c j = Some r" "getCachedRule ?c k = Some s" and "j \<noteq> k"
    moreover from hit have "j = ''net''" "k = ''net''" unfolding only by simp_all
    ultimately show "taint_id (taint_of r) \<noteq> taint_id (taint_of s)" by simp
  qed
  have modes: "\<forall>k r. getCachedRule ?c k = Some r \<longrightarrow> ruleAppliesTo (calm_env ?n) r ?n \<longrightarrow>
      enforcementMode (ruleSpec r) \<noteq> ''bootstrap-only'' \<and> admissible_taint (taint_of r)"
  proof (intro allI impI)
    fix k r assume "getCachedRule ?c k = Some r"
    then have "r = ?r" unfolding only by simp
    then show "enforcementMode (ruleSpec r) \<noteq> ''bootstrap-only'' \<and> admissible_taint (taint_of r)"
      by (simp add: net_rule_def net_spec_def net_taint_def admissible_taint_def taint_effects_def suffix_def)
  qed
  have wf: "wf_conditions (nodeConditions ?n)" "wf_taints (server_taints ?s (nodeName ?n))"
    by (simp_all add: wf_conditions_def wf_taints_def server_taints_def server_of_def worker_def)
  have "\<exists>c' s'. settle (calm_env ?n) order (Suc (Suc 0)) ?c (nodeName ?n) ?s = Some (c', s')"
    using node_feedback_ends[where env = "calm_env ?n" and n = ?n and U = "answering (nodeName ?n)" and tv = server_taints
        and order = order and rounds = 0 and c = ?c and w = ?s,
      OF calm_contracts(1) calm_available calm_contracts(3) up order apart modes wf] by blast
  moreover have "nodeName ?n = ''w1''" by (simp add: worker_def)
  ultimately show ?thesis unfolding numeral_2_eq_2 by metis
qed

end
