(* ===== verification/Liveness.thy ===== *)
theory Liveness
  imports Feedback
begin

text \<open>
  What the controller comes to in the long run. Steps of \<open>System\<close> follow each other without end, in any
  order and with failures in between; a rule stays in force and its node keeps its conditions. If again
  and again the node is reconciled while the API server answers, the rule's taint is right from some point
  on. The first part shows that no step makes a right taint wrong, the second that a reconcile of the node
  makes it right.
\<close>

subsection \<open>Steps\<close>

text \<open>
  The steps of the system, where what other clients do leaves the taints with the identity of \<open>t\<close> on the
  node named \<open>name\<close>.
\<close>

inductive calm_step :: "'w env \<Rightarrow> ('w \<Rightarrow> string \<Rightarrow> taint list) \<Rightarrow> string \<Rightarrow> taint \<Rightarrow>
    controller \<times> 'w \<Rightarrow> controller \<times> 'w \<Rightarrow> bool"
  for env :: "'w env" and tv :: "'w \<Rightarrow> string \<Rightarrow> taint list" and name :: string and t :: taint where
  calm_rule_event: "ruleReconcile env c k w = (res, c', w') \<Longrightarrow> calm_step env tv name t (c, w) (c', w')"
| calm_node_event: "range_order (ruleCache c) order \<Longrightarrow> nodeReconcile env order c x w = (res, c', w') \<Longrightarrow>
     calm_step env tv name t (c, w) (c', w')"
| calm_switch: "calm_step env tv name t (c, w) (setGlobalDryRun c b, w)"
| calm_elsewhere: "same_id t (tv w' name) = same_id t (tv w name) \<Longrightarrow> calm_step env tv name t (c, w) (c, w')"

inductive_cases calm_stepE: "calm_step env tv name t (c, w) (c', w')"

lemma calm_step_system: "calm_step env tv name t s s' \<Longrightarrow> system_step env s s'"
  by (induction rule: calm_step.induct) (auto intro: system_step.intros)

subsection \<open>Node events keep a right taint\<close>

lemma processRulesLoop_other:
  assumes con: "taints_contract env tv"
    and "processRulesLoop env ks c m w = (c', m', w')" and "j \<noteq> nodeName m"
  shows "tv w' j = tv w j"
  using assms(2-)
proof (induction ks arbitrary: c m w)
  case Nil
  then show ?case by simp
next
  case (Cons k ks)
  show ?case
  proof (cases "fmlookup (ruleCache c) k")
    case None
    with Cons show ?thesis by simp
  next
    case (Some rule)
    obtain b w1 where b: "isBootstrapCompleted env (nodeName m) (ruleName rule) w = (b, w1)"
      by (cases "isBootstrapCompleted env (nodeName m) (ruleName rule) w")
    have tv1: "tv w1 = tv w" by (rule isBootstrapCompleted_keeps[OF con b])
    obtain r1 m1 w2 where ev: "evaluateOrRecord env rule m w1 = (r1, m1, w2)" by (cases "evaluateOrRecord env rule m w1")
    obtain err w3 where p: "retryOnConflict env (persistAttempt env r1 (nodeName m1)) w2 = (err, w3)"
      by (cases "retryOnConflict env (persistAttempt env r1 (nodeName m1)) w2")
    note any = evaluateOrRecord_any[OF con ev]
    have "tv w3 j = tv w j" using any(3) Cons.prems(2) tv1 persist_keeps[OF con p] by auto
    with Cons tv1 Some b ev p any(1) show ?thesis by (cases "skipRule c rule b") simp_all
  qed
qed

text \<open>
  Whatever fails in between: if no evaluated rule with the identity of \<open>t\<close> needs an action on the node in
  hand, and node and server agree on \<open>t\<close>, the loop changes no taint of that identity.
\<close>

lemma processRulesLoop_keeps_id:
  assumes con: "taints_contract env tv"
    and st: "stable_node env tv n"
    and "processRulesLoop env ks c m w = (c', m', w')" and "distinct ks"
    and "nodeName m = nodeName n" and "nodeConditions m = nodeConditions n"
    and "same_id t (nodeTaints m) = same_id t (tv w (nodeName m))"
    and "\<forall>j \<in> set ks. \<forall>r. fmlookup (ruleCache c) j = Some r \<longrightarrow> taint_id (taint_of r) = taint_id t \<longrightarrow> \<not> needs_action r m"
  shows "same_id t (tv w' (nodeName m)) = same_id t (tv w (nodeName m))"
  using assms(3-)
proof (induction ks arbitrary: c m w)
  case Nil
  then show ?case by simp
next
  case (Cons k ks)
  have k: "k \<notin> set ks" "distinct ks" using Cons.prems(2) by simp_all
  show ?case
  proof (cases "fmlookup (ruleCache c) k")
    case None
    with Cons show ?thesis by simp
  next
    case (Some rule)
    obtain b w1 where b: "isBootstrapCompleted env (nodeName m) (ruleName rule) w = (b, w1)"
      by (cases "isBootstrapCompleted env (nodeName m) (ruleName rule) w")
    have tv1: "tv w1 = tv w" by (rule isBootstrapCompleted_keeps[OF con b])
    show ?thesis
    proof (cases "skipRule c rule b")
      case True
      with Cons.prems(1) Some b have run: "processRulesLoop env ks c m w1 = (c', m', w')" by simp
      from Cons.IH[OF run k(2) Cons.prems(3,4)] Cons.prems(5,6) tv1 show ?thesis by simp
    next
      case False
      obtain r1 m1 w2 where ev: "evaluateOrRecord env rule m w1 = (r1, m1, w2)"
        by (cases "evaluateOrRecord env rule m w1")
      obtain err w3 where p: "retryOnConflict env (persistAttempt env r1 (nodeName m1)) w2 = (err, w3)"
        by (cases "retryOnConflict env (persistAttempt env r1 (nodeName m1)) w2")
      let ?c = "writeThrough c k r1"
      have run: "processRulesLoop env ks ?c m1 w3 = (c', m', w')" using Cons.prems(1) False Some b ev p by simp
      note any = evaluateOrRecord_any[OF con ev]
      have tv3: "tv w3 = tv w2" by (rule persist_keeps[OF con p])
      have idle: "nodeTaints (steered rule m) = nodeTaints m" if "\<not> needs_action rule m"
        using that by (auto simp: needs_action_def steered_cases wants_taint_def)
      have c1: "nodeName m1 = nodeName n" "nodeConditions m1 = nodeConditions n" "nodeConditions m1 = nodeConditions m"
        using evaluateOrRecord_stable[OF st ev Cons.prems(3,4)] any(1) Cons.prems(3,4) by simp_all
      have hand: "same_id t (nodeTaints m1) = same_id t (nodeTaints m)"
        using Cons.prems(6) Some idle steered_same_id[of rule t m] any(2)
        by (cases "taint_id (taint_of rule) = taint_id t") simp_all
      have here: "same_id t (tv w3 (nodeName m)) = same_id t (tv w (nodeName m))"
        using any(2,3) hand Cons.prems(5) tv1 tv3 by auto
      have calm: "\<forall>j \<in> set ks. \<forall>r. fmlookup (ruleCache ?c) j = Some r \<longrightarrow> taint_id (taint_of r) = taint_id t \<longrightarrow>
          \<not> needs_action r m1"
      proof (intro ballI allI impI)
        fix j r assume j: "j \<in> set ks" "fmlookup (ruleCache ?c) j = Some r" "taint_id (taint_of r) = taint_id t"
        then have "fmlookup (ruleCache c) j = Some r" using k(1) by (auto simp: writeThrough_def split: if_splits)
        with Cons.prems(6) j have "\<not> needs_action r m" by simp
        moreover have "hasTaintBySpec m1 (taint_of r) = hasTaintBySpec m (taint_of r)"
          using hand j(3) by (simp add: hasTaintBySpec_def hasTaintIn_same_id same_id_def)
        ultimately show "\<not> needs_action r m1" using wants_taint_cong[OF c1(3), of r] by (simp add: needs_action_def)
      qed
      have "same_id t (nodeTaints m1) = same_id t (tv w3 (nodeName m1))" using hand here Cons.prems(5) any(1) by simp
      from Cons.IH[OF run k(2) c1(1,2) this calm] here any(1) show ?thesis by simp
    qed
  qed
qed

text \<open>
  The right taint of a rule \<open>r0\<close> on the node \<open>n\<close>, and a controller that enforces the specification of
  \<open>r0\<close> under its name and has no other rule with its taint.
\<close>

definition right_taint :: "('w \<Rightarrow> string \<Rightarrow> taint list) \<Rightarrow> nodeReadinessRule \<Rightarrow> node \<Rightarrow> 'w \<Rightarrow> bool" where
  "right_taint tv r0 n w \<longleftrightarrow> (hasTaintIn (tv w (nodeName n)) (taint_of r0) \<longleftrightarrow> wants_taint r0 n)"

definition enforces :: "controller \<Rightarrow> nodeReadinessRule \<Rightarrow> bool" where
  "enforces c r0 \<longleftrightarrow> \<not> globalDryRun c \<and> cached_spec c (ruleName r0) = Some (ruleSpec r0) \<and>
     (\<forall>j r. j \<noteq> ruleName r0 \<longrightarrow> getCachedRule c j = Some r \<longrightarrow> taint_id (taint_of r) \<noteq> taint_id (taint_of r0))"

lemma right_taint_same_id:
  "same_id (taint_of r0) (tv w' (nodeName n)) = same_id (taint_of r0) (tv w (nodeName n)) \<Longrightarrow>
   right_taint tv r0 n w \<Longrightarrow> right_taint tv r0 n w'"
  by (simp add: right_taint_def hasTaintIn_same_id)

lemma enforcesD:
  assumes "enforces c r0"
  shows "\<exists>r. getCachedRule c (ruleName r0) = Some r \<and> ruleSpec r = ruleSpec r0"
    "getCachedRule c j = Some r \<Longrightarrow> taint_id (taint_of r) = taint_id (taint_of r0) \<Longrightarrow> ruleSpec r = ruleSpec r0"
proof -
  show cached: "\<exists>r. getCachedRule c (ruleName r0) = Some r \<and> ruleSpec r = ruleSpec r0"
    using assms by (auto simp: enforces_def cached_spec_def getCachedRule_def)
  assume "getCachedRule c j = Some r" "taint_id (taint_of r) = taint_id (taint_of r0)"
  with assms cached show "ruleSpec r = ruleSpec r0"
    unfolding enforces_def by (cases "j = ruleName r0") auto
qed

lemma nodeReconcile_keeps_right:
  assumes con: "taints_contract env tv" and st: "stable_node env tv n" and "enforces c r0"
    and order: "range_order (ruleCache c) order" and run: "nodeReconcile env order c x w = (res, c', w')"
    and right: "right_taint tv r0 n w"
  shows "right_taint tv r0 n w'"
proof -
  obtain g v where g: "getNode env x w = (g, v)" by (cases "getNode env x w")
  have v: "tv v = tv w" by (rule keepsD[OF taints_contractD(7)[OF con] g])
  show ?thesis
  proof (cases g)
    case (Inl e)
    with run g v right show ?thesis by (simp add: nodeReconcile_def right_taint_def)
  next
    case (Inr m)
    let ?ks = "getApplicableRulesForNode env c m order" and ?t = "taint_of r0"
    obtain c1 m1 w2 where loop: "processRulesLoop env ?ks c m v = (c1, m1, w2)" by (cases "processRulesLoop env ?ks c m v")
    have w': "w' = w2" using run g Inr loop by (simp add: nodeReconcile_def processNodeAgainstAllRules_def)
    have dist: "distinct ?ks" using order by (simp add: range_order_def getApplicableRulesForNode_distinct)
    have name: "nodeName m = x" using stable_nodeD(1)[OF st] g Inr by simp
    show ?thesis
    proof (cases "x = nodeName n")
      case True
      have m: "nodeTaints m = tv w x" "nodeConditions m = nodeConditions n"
        using stable_nodeD(2)[OF st] g Inr True by simp_all
      have calm: "\<forall>j \<in> set ?ks. \<forall>r. fmlookup (ruleCache c) j = Some r \<longrightarrow> taint_id (taint_of r) = taint_id ?t \<longrightarrow> \<not> needs_action r m"
      proof (intro ballI allI impI)
        fix j r assume "fmlookup (ruleCache c) j = Some r" "taint_id (taint_of r) = taint_id ?t"
        then have "ruleSpec r = ruleSpec r0" using enforcesD(2)[OF assms(3)] by (simp add: getCachedRule_def)
        with right m wants_taint_cong[OF m(2), of r] wants_taint_spec[of r r0 n] True show "\<not> needs_action r m"
          by (simp add: needs_action_def right_taint_def hasTaintBySpec_def)
      qed
      have "same_id ?t (nodeTaints m) = same_id ?t (tv v (nodeName m))" using m(1) v name by simp
      from processRulesLoop_keeps_id[OF con st loop dist name[unfolded True] m(2) this calm] w' v name True right show ?thesis
        by (intro right_taint_same_id[OF _ right]) simp
    next
      case False
      have "tv w2 (nodeName n) = tv v (nodeName n)"
        by (rule processRulesLoop_other[OF con loop]) (use name False in simp)
      with w' v right show ?thesis by (simp add: right_taint_def)
    qed
  qed
qed

subsection \<open>Rule events keep a right taint\<close>

lemma nodeSelectorChanged_refl: "\<not> nodeSelectorChanged s s"
  by (simp add: nodeSelectorChanged_def stringMapEqual_def fmpred_go_index_refl Let_def)
    (meson fmdom_notI option.exhaust)

text \<open>
  The rule the API server serves under the name of \<open>r0\<close> has its specification and is not being deleted;
  rules it serves under other names have other taints.
\<close>

definition served_rule :: "'w env \<Rightarrow> nodeReadinessRule \<Rightarrow> bool" where
  "served_rule env r0 \<longleftrightarrow>
     (\<forall>v r v'. getRule env (ruleName r0) v = (Inr r, v') \<longrightarrow>
        ruleName r = ruleName r0 \<and> ruleSpec r = ruleSpec r0 \<and> deletionTimestamp r = None) \<and>
     (\<forall>k v r v'. k \<noteq> ruleName r0 \<longrightarrow> getRule env k v = (Inr r, v') \<longrightarrow> taint_id (taint_of r) \<noteq> taint_id (taint_of r0))"

lemma processRule_keeps_right:
  assumes con: "taints_contract env tv" "list_contract env tv" and st: "stable_node env tv n"
    and spec: "ruleSpec rule = ruleSpec r0" and run: "processRule env rule w = (e, rule', w')"
    and right: "right_taint tv r0 n w"
  shows "right_taint tv r0 n w'"
proof -
  obtain l v where l: "listNodes env w = (l, v)" by (cases "listNodes env w")
  have v: "tv v = tv w" by (rule keepsD[OF taints_contractD(8)[OF con(1)] l])
  show ?thesis
  proof (cases "dryRun (ruleSpec rule)")
    case True
    with run l processDryRun_world[of env rule w] have "w' = v" by (simp add: processRule_def)
    with v right show ?thesis by (simp add: right_taint_def)
  next
    case False
    let ?rule = "clearDryRun rule"
    have spec': "ruleSpec ?rule = ruleSpec r0" using spec by (simp add: clearDryRun_def)
    from False run have p: "processAllNodesForRule env ?rule w = (e, rule', w')" by (simp add: processRule_def)
    show ?thesis
    proof (cases l)
      case (Inl x)
      with p l v right show ?thesis by (auto simp: processAllNodesForRule_def right_taint_def)
    next
      case (Inr ns)
      note k = processAllNodesForRule_contract[OF con l[unfolded Inr] p]
      show ?thesis
      proof (cases "nodeName n \<in> nodeName ` {m \<in> set ns. ruleAppliesTo env ?rule m}")
        case False
        from k(5)[OF this] right show ?thesis by (simp add: right_taint_def)
      next
        case True
        then obtain m where m: "m \<in> set ns" "ruleAppliesTo env ?rule m" "nodeName m = nodeName n" by auto
        have cond: "nodeConditions m = nodeConditions n"
          using stable_nodeD(3)[OF st, of w ns v m] l Inr m by simp
        have spec2: "ruleSpec rule' = ruleSpec r0" using k(6) spec' by simp
        have "tv w' (nodeName n) = nodeTaints (steered r0 m) \<or> tv w' (nodeName n) = tv w (nodeName n)"
          using k(4)[OF m(1,2)] k(7) m(1,3) steered_spec[OF spec2] by (auto simp: outcome_def settled_def failed_def)
        with right steered_has[of r0 m] wants_taint_cong[OF cond, of r0] show ?thesis
          by (auto simp: right_taint_def hasTaintBySpec_def)
      qed
    qed
  qed
qed

lemma ruleReconcile_keeps_right:
  assumes con: "taints_contract env tv" "list_contract env tv" and st: "stable_node env tv n" and srv: "served_rule env r0"
    and enf: "enforces c r0" and run: "ruleReconcile env c k w = (res, c', w')" and right: "right_taint tv r0 n w"
  shows "right_taint tv r0 n w'"
proof (cases "k = ruleName r0")
  case False
  have "taint_id (taint_of r) \<noteq> taint_id (taint_of r0)" if "getRule env k v = (Inr r, v')" for r v v'
    using srv that False unfolding served_rule_def by blast
  from ruleReconcile_same[OF con this run] show ?thesis
    by (intro right_taint_same_id[OF _ right]) (simp add: same_everywhere_def)
next
  case True
  have keep: "right_taint tv r0 n u" if "tv u = tv v" "right_taint tv r0 n v" for u v
    using that by (simp add: right_taint_def)
  have srvD: "ruleName r = k" "ruleSpec r = ruleSpec r0" "deletionTimestamp r = None"
    if "getRule env k v = (Inr r, v')" for r v v'
    using srv that True unfolding served_rule_def by blast+
  obtain g w1 where g: "getRule env k w = (g, w1)" by (cases "getRule env k w")
  have w1: "right_taint tv r0 n w1" by (rule keep[OF keepsD[OF taints_contractD(3)[OF con(1)] g] right])
  show ?thesis
  proof (cases g)
    case (Inl e)
    with run g w1 show ?thesis by (auto simp: ruleReconcile_def split: if_splits)
  next
    case (Inr rule0)
    note g0 = g[unfolded Inr]
    obtain f w2 where f: "ensureFinalizer env k rule0 w1 = (f, w2)" by (cases "ensureFinalizer env k rule0 w1")
    have w2: "right_taint tv r0 n w2" by (rule keep[OF ensureFinalizer_keeps[OF con(1) f] w1])
    show ?thesis
    proof (cases f)
      case (Inl e)
      with run g0 srvD(3)[OF g0] f w2 show ?thesis by (simp add: ruleReconcile_def)
    next
      case Inr2: (Inr rule)
      from ensureFinalizer_got[OF f[unfolded Inr2] g0] obtain u u' where "getRule env k u = (Inr rule, u')" by blast
      note rule = srvD(1,2)[OF this]
      from enforcesD(1)[OF enf] True rule have quiet: "reconcileSelectorChange env c rule w2 = (None, w2)"
        by (auto simp: reconcileSelectorChange_def nodeSelectorChanged_refl)
      obtain e rule1 w3 where p: "processRule env rule w2 = (e, rule1, w3)" by (cases "processRule env rule w2")
      have w3: "right_taint tv r0 n w3" by (rule processRule_keeps_right[OF con st rule(2) p w2])
      obtain e2 w4 where s: "updateRuleStatus env rule1 w3 = (e2, w4)" by (cases "updateRuleStatus env rule1 w3")
      obtain e3 w5 where d: "cleanupDeletedNodes env rule1 w4 = (e3, w5)" by (cases "cleanupDeletedNodes env rule1 w4")
      have w4: "right_taint tv r0 n w4" by (rule keep[OF updateRuleStatus_keeps[OF con(1) s] w3])
      have w5: "right_taint tv r0 n w5" by (rule keep[OF cleanupDeletedNodes_keeps[OF con(1) d] w4])
      have "w' = w3 \<or> w' = w4 \<or> w' = w5"
        using run g0 srvD(3)[OF g0] f Inr2 quiet p s d
        by (auto simp: ruleReconcile_def reconcileProcessing_def split: option.splits)
      with w3 w4 w5 show ?thesis by auto
    qed
  qed
qed

lemma calm_step_keeps_right:
  assumes con: "taints_contract env tv" "list_contract env tv" and st: "stable_node env tv n" and srv: "served_rule env r0"
    and enf: "enforces (fst s) r0" and step: "calm_step env tv (nodeName n) (taint_of r0) s s'"
    and right: "right_taint tv r0 n (snd s)"
  shows "right_taint tv r0 n (snd s')"
  using step enf right
proof (induction rule: calm_step.induct)
  case (calm_rule_event c k w res c' w')
  then show ?case using ruleReconcile_keeps_right[OF con st srv _ calm_rule_event(1)] by simp
next
  case (calm_node_event c order x w res c' w')
  then show ?case using nodeReconcile_keeps_right[OF con(1) st _ calm_node_event(1,2)] by simp
next
  case (calm_switch c w b)
  then show ?case by simp
next
  case (calm_elsewhere w' w c)
  then show ?case using right_taint_same_id[of r0 tv w' n w] by simp
qed

subsection \<open>A reconcile of the node makes it right\<close>

lemma nodeReconcile_makes_right:
  assumes con: "taints_contract env tv" and up: "available env (nodeName n) U" and st: "stable_node env tv n"
    and "U w" and order: "range_order (ruleCache c) order"
    and run: "nodeReconcile env order c (nodeName n) w = (res, c', w')" and enf: "enforces c r0"
    and r0: "ruleAppliesTo env r0 n" "enforcementMode (ruleSpec r0) \<noteq> ''bootstrap-only''" "\<not> dryRun (ruleSpec r0)"
  shows "right_taint tv r0 n w'"
proof -
  from nodeReconcile_up[OF con up st assms(4) order run] obtain rs where rs:
    "tv w' = (tv w)(nodeName n := nodeTaints (fold steered rs (node_now tv w n)))"
    "\<forall>r \<in> set rs. \<exists>k. getCachedRule c k = Some r \<and> ruleAppliesTo env r n \<and> active c r"
    "\<forall>k r. getCachedRule c k = Some r \<longrightarrow> ruleAppliesTo env r n \<longrightarrow> always_evaluated c r \<longrightarrow> r \<in> set rs" by blast
  from enforcesD(1)[OF enf] obtain r where r: "getCachedRule c (ruleName r0) = Some r" "ruleSpec r = ruleSpec r0" by blast
  have "always_evaluated c r" using r(2) r0(2,3) enf by (simp add: always_evaluated_iff active_def enforces_def)
  moreover have "ruleAppliesTo env r n" using ruleAppliesTo_spec[OF r(2), of env] r0(1) by simp
  ultimately have inn: "r \<in> set rs" using rs(3) r(1) by blast
  have "\<forall>s \<in> set rs. s \<noteq> r \<longrightarrow> taint_id (taint_of s) \<noteq> taint_id (taint_of r)"
  proof (intro ballI impI)
    fix s assume s: "s \<in> set rs" "s \<noteq> r"
    with rs(2) obtain j where j: "getCachedRule c j = Some s" by blast
    with s(2) r(1) have "j \<noteq> ruleName r0" by auto
    with j r(2) enf show "taint_id (taint_of s) \<noteq> taint_id (taint_of r)" unfolding enforces_def by auto
  qed
  from fold_steered_settles[OF inn this, of "node_now tv w n"] wants_taint_cong[of "node_now tv w n" n r]
  show ?thesis by (simp add: right_taint_def rs(1) r(2) wants_taint_spec[OF r(2), of n])
qed

subsection \<open>Properties\<close>

text \<open>
  C5: A taint is right in the end, and stays so. Take any endless run of rule events, node events and
  switches of the dry run, with failures anywhere, in which the controller enforces a continuous rule that
  applies to a node, the node keeps its conditions and labels, no other rule has the rule's taint and
  other clients leave that taint of the node alone. If again and again the node is reconciled while the
  API server answers, then from some point on the server's node has the taint exactly when one of the
  rule's conditions is not met.
\<close>

theorem taint_right_in_the_end:
  assumes "taints_contract env tv" and "list_contract env tv" and "stable_node env tv n" and "served_rule env r0"
    and "available env (nodeName n) U"
    and "\<forall>i. calm_step env tv (nodeName n) (taint_of r0) (run i) (run (Suc i))"
    and "\<forall>i. enforces (fst (run i)) r0"
    and "ruleAppliesTo env r0 n" and "enforcementMode (ruleSpec r0) \<noteq> ''bootstrap-only''" and "\<not> dryRun (ruleSpec r0)"
    and "\<forall>i. \<exists>j. i \<le> j \<and> U (snd (run j)) \<and> (\<exists>order res. range_order (ruleCache (fst (run j))) order \<and>
      nodeReconcile env order (fst (run j)) (nodeName n) (snd (run j)) = (res, run (Suc j)))"
  shows "\<exists>i. \<forall>j. i \<le> j \<longrightarrow> (hasTaintIn (tv (snd (run j)) (nodeName n)) (taint_of r0) \<longleftrightarrow>
    \<not> list_all (\<lambda>c. getConditionStatus n (reqType c) = requiredStatus c) (conditions (ruleSpec r0)))"
proof -
  from assms(11) obtain i order res where i: "U (snd (run i))" "range_order (ruleCache (fst (run i))) order"
    "nodeReconcile env order (fst (run i)) (nodeName n) (snd (run i)) = (res, run (Suc i))" by blast
  have enf: "enforces (fst (run j)) r0" for j using assms(7) by blast
  obtain c' w' where next_state: "run (Suc i) = (c', w')" by (cases "run (Suc i)")
  have "right_taint tv r0 n w'"
    by (rule nodeReconcile_makes_right[OF assms(1,5,3) i(1,2) i(3)[unfolded next_state] enf assms(8-10)])
  then have start: "right_taint tv r0 n (snd (run (Suc i)))" by (simp add: next_state)
  have "right_taint tv r0 n (snd (run (Suc i + d)))" for d
  proof (induction d)
    case 0
    then show ?case using start by simp
  next
    case (Suc d)
    have step: "calm_step env tv (nodeName n) (taint_of r0) (run (Suc i + d)) (run (Suc (Suc i + d)))" using assms(6) by blast
    from calm_step_keeps_right[OF assms(1-4) enf step Suc.IH] show ?case by simp
  qed
  then have right: "right_taint tv r0 n (snd (run j))" if "Suc i \<le> j" for j
    using that by (metis le_add_diff_inverse)
  show ?thesis
  proof (intro exI allI impI)
    fix j assume "Suc i \<le> j"
    from right[OF this] show "hasTaintIn (tv (snd (run j)) (nodeName n)) (taint_of r0) \<longleftrightarrow>
        \<not> list_all (\<lambda>c. getConditionStatus n (reqType c) = requiredStatus c) (conditions (ruleSpec r0))"
      by (simp add: right_taint_def wants_taint_def ready_def satisfiedBy_def[abs_def])
  qed
qed

text \<open>A run: the network rule is cached and the one worker reconciled again and again.\<close>

definition calm_worker :: node where
  "calm_worker = worker ''w1'' ''False'' []"

fun calm_run :: "nat \<Rightarrow> controller \<times> server" where
  "calm_run 0 = (updateRuleCache newReadinessGateController (net_rule ''continuous'' False), server_of [calm_worker] [] [])"
| "calm_run (Suc i) = snd (nodeReconcile (calm_env calm_worker) [''net''] (fst (calm_run i)) ''w1'' (snd (calm_run i)))"

lemma range_order_net:
  assumes "cached_spec c = cached_spec (fst (calm_run 0))"
  shows "range_order (ruleCache c) [''net'']"
proof -
  have start: "cached_spec (fst (calm_run 0)) k \<noteq> None \<longleftrightarrow> k = ''net''" for k
    by (simp add: cached_spec_def updateRuleCache_def newReadinessGateController_def net_rule_def)
  have "k |\<in>| fmdom (ruleCache c) \<longleftrightarrow> cached_spec c k \<noteq> None" for k
    by (simp add: cached_spec_def fmlookup_dom_iff)
  then have "k |\<in>| fmdom (ruleCache c) \<longleftrightarrow> k = ''net''" for k unfolding assms start .
  then have "fset (fmdom (ruleCache c)) = {''net''}" by (intro set_eqI) simp
  then show ?thesis by (simp add: range_order_def)
qed

lemma calm_run_invariant:
  "cached_spec (fst (calm_run i)) = cached_spec (fst (calm_run 0)) \<and> globalDryRun (fst (calm_run i)) = False \<and>
   answering ''w1'' (snd (calm_run i))"
proof (induction i)
  case 0
  then show ?case
    by (simp add: answering_def server_of_def calm_worker_def worker_def updateRuleCache_def newReadinessGateController_def)
next
  case (Suc i)
  obtain res c' s' where run: "nodeReconcile (calm_env calm_worker) [''net''] (fst (calm_run i)) ''w1'' (snd (calm_run i)) =
      (res, c', s')"
    by (cases "nodeReconcile (calm_env calm_worker) [''net''] (fst (calm_run i)) ''w1'' (snd (calm_run i))")
  have name: "''w1'' = nodeName calm_worker" by (simp add: calm_worker_def worker_def)
  have order: "range_order (ruleCache (fst (calm_run i))) [''net'']" using Suc.IH range_order_net by blast
  have "answering ''w1'' s'"
    using nodeReconcile_up[OF calm_contracts(1) calm_available calm_contracts(3) _ order run[unfolded name]] Suc.IH
    unfolding name by blast
  with Suc.IH nodeReconcile_specs[OF run] run show ?case by simp
qed

lemma calm_run_enforces: "enforces (fst (calm_run i)) (net_rule ''continuous'' False)"
proof -
  note inv = calm_run_invariant[of i]
  have name: "ruleName (net_rule ''continuous'' False) = ''net''" by (simp add: net_rule_def)
  have none: "getCachedRule (fst (calm_run i)) j = None" if "j \<noteq> ''net''" for j
  proof -
    have "cached_spec (fst (calm_run i)) j = None"
      unfolding conjunct1[OF inv] using that
      by (simp add: cached_spec_def updateRuleCache_def newReadinessGateController_def net_rule_def)
    then show ?thesis by (simp add: cached_spec_def getCachedRule_def)
  qed
  have "cached_spec (fst (calm_run i)) ''net'' = Some (ruleSpec (net_rule ''continuous'' False))"
    unfolding conjunct1[OF inv]
    by (simp add: cached_spec_def updateRuleCache_def newReadinessGateController_def name)
  with inv none show ?thesis by (simp add: enforces_def name)
qed

theorem taint_right_in_the_end_witness:
  "\<exists>i. \<forall>j. i \<le> j \<longrightarrow> hasTaintIn (server_taints (snd (calm_run j)) ''w1'') net_taint"
proof -
  let ?r = "net_rule ''continuous'' False" and ?e = "calm_env calm_worker"
  have name: "nodeName calm_worker = ''w1''" by (simp add: calm_worker_def worker_def)
  have served: "served_rule ?e ?r"
    by (auto simp: served_rule_def calm_env_simps net_rule_def split: if_splits)
  have order: "range_order (ruleCache (fst (calm_run i))) [''net'']" for i
    using calm_run_invariant[of i] range_order_net by blast
  have next_run: "nodeReconcile ?e [''net''] (fst (calm_run i)) (nodeName calm_worker) (snd (calm_run i)) =
      (fst (nodeReconcile ?e [''net''] (fst (calm_run i)) ''w1'' (snd (calm_run i))), calm_run (Suc i))" for i
    by (simp add: name)
  have "calm_step ?e server_taints (nodeName calm_worker) (taint_of ?r) (fst (calm_run i), snd (calm_run i))
      (fst (calm_run (Suc i)), snd (calm_run (Suc i)))" for i
    by (rule calm_step.calm_node_event[OF order]) (use next_run[of i] in \<open>simp only: prod.collapse\<close>)
  then have steps: "\<forall>i. calm_step ?e server_taints (nodeName calm_worker) (taint_of ?r) (calm_run i) (calm_run (Suc i))" by simp
  have applies: "ruleAppliesTo ?e ?r calm_worker"
    by (simp add: ruleAppliesTo_def calm_env_simps calm_worker_def sample_defs server_defs Let_def)
  have mode: "enforcementMode (ruleSpec ?r) \<noteq> ''bootstrap-only''" "\<not> dryRun (ruleSpec ?r)"
    by (simp_all add: net_rule_def net_spec_def)
  have fair: "\<forall>i. \<exists>j. i \<le> j \<and> answering (nodeName calm_worker) (snd (calm_run j)) \<and>
      (\<exists>order res. range_order (ruleCache (fst (calm_run j))) order \<and>
        nodeReconcile ?e order (fst (calm_run j)) (nodeName calm_worker) (snd (calm_run j)) = (res, calm_run (Suc j)))"
    using order next_run calm_run_invariant unfolding name by blast
  have enf: "\<forall>i. enforces (fst (calm_run i)) ?r" using calm_run_enforces by blast
  have "\<not> list_all (\<lambda>c. getConditionStatus calm_worker (reqType c) = requiredStatus c) (conditions (ruleSpec ?r))"
    by (simp add: getConditionStatus_def calm_worker_def sample_defs)
  moreover have "taint_of ?r = net_taint" by (simp add: net_rule_def net_spec_def)
  ultimately show ?thesis
    using taint_right_in_the_end[where env = ?e and n = calm_worker and tv = server_taints and ?r0.0 = ?r
        and U = "answering (nodeName calm_worker)" and run = calm_run,
      OF calm_contracts(1,2,3) served calm_available steps enf applies mode fair] unfolding name by simp
qed

end
