(* ===== verification/Hazards.thy ===== *)
theory Hazards
  imports Feedback
begin

text \<open>
  What a failed patch, and a patch made from an old copy of a node, leave behind. The status never forgets
  a failure; a change that was refused lives on in the node in hand and is carried out with the next
  rule's patch; and since a patch replaces the node's taint list as a whole and asks for no resource
  version, it undoes what others did to the list in the meantime.
\<close>

subsection \<open>Failures in the status\<close>

lemma replaceFailure_names: "failNodeName ` set (replaceFailure f fs) = insert (failNodeName f) (failNodeName ` set fs)"
  by (auto simp: replaceFailure_def)

lemma evaluateOrRecord_failures:
  assumes "evaluateOrRecord env rule n w = (rule', n', w')"
  shows "failNodeName ` set (failedNodes (ruleStatus rule)) \<subseteq> failNodeName ` set (failedNodes (ruleStatus rule'))"
proof -
  obtain e r1 n1 w1 where ev: "evaluateRuleForNode env rule n w = (e, r1, n1, w1)"
    by (cases "evaluateRuleForNode env rule n w")
  have f: "failedNodes (ruleStatus r1) = failedNodes (ruleStatus rule)" by (rule evaluateRuleForNode_failures[OF ev])
  show ?thesis
  proof (cases e)
    case None
    with assms ev f show ?thesis by (simp add: evaluateOrRecord_def)
  next
    case (Some x)
    with assms ev f show ?thesis by (auto simp: evaluateOrRecord_def recordNodeFailure_eq replaceFailure_names)
  qed
qed

lemma processAllNodesLoop_failures:
  "processAllNodesLoop env rule ns applied w = (rule', applied', w') \<Longrightarrow>
   failNodeName ` set (failedNodes (ruleStatus rule)) \<subseteq> failNodeName ` set (failedNodes (ruleStatus rule'))"
proof (induction ns arbitrary: rule applied w)
  case Nil
  then show ?case by simp
next
  case (Cons n ns)
  obtain r1 n1 w1 where ev: "evaluateOrRecord env rule n w = (r1, n1, w1)" by (cases "evaluateOrRecord env rule n w")
  from evaluateOrRecord_failures[OF ev] Cons ev show ?case
    by (cases "ruleAppliesTo env rule n") (fastforce simp: Let_def)+
qed

text \<open>
  C40: A failure stays in the status for good. Whatever the client does, processing a rule takes no node off
  the list of failed nodes: not one whose evaluation succeeds this time, nor one that is gone from the
  cluster. The entry of the node on the list can only be replaced by a later failure.
\<close>

theorem failures_outlive_success:
  assumes "processAllNodesForRule env rule w = (e, rule', w')"
  shows "failNodeName ` set (failedNodes (ruleStatus rule)) \<subseteq> failNodeName ` set (failedNodes (ruleStatus rule'))"
proof -
  obtain l v where l: "listNodes env w = (l, v)" by (cases "listNodes env w")
  show ?thesis
  proof (cases l)
    case (Inl x)
    with assms l show ?thesis by (simp add: processAllNodesForRule_def)
  next
    case (Inr ns)
    obtain rule1 applied where run: "processAllNodesLoop env rule ns [] v = (rule1, applied, w')"
      and st: "failedNodes (ruleStatus rule') = failedNodes (ruleStatus rule1)"
      by (rule processAllNodesForRule_run[OF assms l[unfolded Inr]]) simp
    show ?thesis unfolding st by (rule processAllNodesLoop_failures[OF run])
  qed
qed

text \<open>A failure of the one worker, recorded before; now every patch succeeds.\<close>

definition failed_before :: nodeReadinessRule where
  "failed_before = (net_rule ''continuous'' False)\<lparr>ruleStatus := no_status\<lparr>failedNodes :=
     [\<lparr>failNodeName = ''w1'', failReason = ''EvaluationError'', failMessage = ''denied'', failLastEvaluationTime = 0\<rparr>]\<rparr>\<rparr>"

theorem failures_outlive_success_witness:
  "\<exists>rule' s'. processAllNodesForRule mem_env failed_before (server_of [worker ''w1'' ''False'' []] [] []) = (None, rule', s') \<and>
     hasTaintIn (server_taints s' ''w1'') net_taint \<and> ''w1'' \<in> failNodeName ` set (failedNodes (ruleStatus rule'))"
proof -
  let ?s = "server_of [worker ''w1'' ''False'' []] [] []"
  obtain rule' s' where run: "processAllNodesForRule mem_env failed_before ?s = (None, rule', s')"
    and tainted: "hasTaintIn (server_taints s' ''w1'') net_taint"
    by (simp add: processing_eval evaluation_eval failed_before_def sample_defs server_defs server_taints_def)
  have "''w1'' \<in> failNodeName ` set (failedNodes (ruleStatus failed_before))" by (simp add: failed_before_def)
  with failures_outlive_success[OF run] run tainted show ?thesis by blast
qed

subsection \<open>Patches from an old copy\<close>

text \<open>
  C38: Lost updates. When an evaluation has to act, its patch writes the whole taint list of the copy of
  the node it was given. A taint that another client put on the node after that copy was read is gone when
  the evaluation has succeeded, although the rule has nothing to do with it; and a taint that was taken
  off in the meantime is back.
\<close>

theorem stale_patch_rewrites_taints:
  assumes "taints_contract env tv" and "evaluateRuleForNode env rule n w = (None, rule', n', w')"
    and "hasTaintBySpec n (taint_of rule) \<longleftrightarrow>
      list_all (\<lambda>c. getConditionStatus n (reqType c) = requiredStatus c) (conditions (ruleSpec rule))"
    and "taint_id t \<noteq> taint_id (taint_of rule)"
  shows "hasTaintIn (tv w' (nodeName n)) t \<longleftrightarrow> hasTaintBySpec n t"
proof -
  have "ready rule n \<longleftrightarrow> list_all (\<lambda>c. getConditionStatus n (reqType c) = requiredStatus c) (conditions (ruleSpec rule))"
    by (simp add: ready_def satisfiedBy_def[abs_def])
  with assms(3) have "needs_action rule n" by (simp add: needs_action_def wants_taint_def)
  with evaluateRuleForNode_any(3)[OF assms(1,2)]
  have "tv w' (nodeName n) = nodeTaints (steered rule n)" by simp
  with steered_same_id[OF assms(4)[symmetric], of n] show ?thesis
    by (simp add: hasTaintIn_same_id hasTaintBySpec_def)
qed

text \<open>The kubelet's disk taint arrives between the read of the node and the patch.\<close>

theorem stale_patch_rewrites_taints_witness:
  "\<exists>rule' n' s'. evaluateRuleForNode mem_env (net_rule ''continuous'' False) (worker ''w1'' ''False'' [])
       (server_of [worker ''w1'' ''False'' [disk_taint]] [] []) = (None, rule', n', s') \<and>
     \<not> hasTaintIn (server_taints s' ''w1'') disk_taint"
proof -
  let ?n = "worker ''w1'' ''False'' []" and ?r = "net_rule ''continuous'' False"
  let ?s = "server_of [worker ''w1'' ''False'' [disk_taint]] [] []"
  obtain rule' n' s' where run: "evaluateRuleForNode mem_env ?r ?n ?s = (None, rule', n', s')"
    by (simp add: evaluation_eval sample_defs server_defs)
  have act: "hasTaintBySpec ?n (taint_of ?r) \<longleftrightarrow>
      list_all (\<lambda>c. getConditionStatus ?n (reqType c) = requiredStatus c) (conditions (ruleSpec ?r))"
    by (simp add: hasTaintBySpec_def getConditionStatus_def sample_defs)
  have ids: "taint_id disk_taint \<noteq> taint_id (taint_of ?r)" by (simp add: sample_defs)
  have "\<not> hasTaintBySpec ?n disk_taint" "nodeName ?n = ''w1''" by (simp_all add: hasTaintBySpec_def worker_def)
  with stale_patch_rewrites_taints[OF mem_taints_contract run act ids] run show ?thesis by auto
qed

subsection \<open>A refused change carried out later\<close>

text \<open>
  C39: When the patch for one rule fails, its change stays in the node in hand, and the next rule of the
  same pass that has to act carries it out with its own patch: the server's node then has, for the first
  rule too, the taint as that rule wants it, while the first rule's status says that its evaluation
  failed and keeps the evaluation of the time before.
\<close>

theorem refused_change_carried_out:
  assumes "taints_contract env tv" and "tv w (nodeName n) = nodeTaints n"
    and "evaluateRuleForNode env r1 n w = (Some e, r1', n1, w1)"
    and "evaluateRuleForNode env r2 n1 w1 = (None, r2', n2, w2)"
    and "taint_id (taint_of r1) \<noteq> taint_id (taint_of r2)"
    and "hasTaintBySpec n1 (taint_of r2) \<longleftrightarrow>
      list_all (\<lambda>c. getConditionStatus n1 (reqType c) = requiredStatus c) (conditions (ruleSpec r2))"
  shows "r1' = r1 \<and>
    (hasTaintIn (tv w1 (nodeName n)) (taint_of r1) \<longleftrightarrow> hasTaintBySpec n (taint_of r1)) \<and>
    (hasTaintIn (tv w2 (nodeName n)) (taint_of r1) \<longleftrightarrow> \<not> hasTaintBySpec n (taint_of r1))"
proof -
  note err = evaluateRuleForNode_error[OF assms(3)]
  have n1: "n1 = steered r1 n" "nodeName n1 = nodeName n" using err by simp_all
  have "ready r2 n1 \<longleftrightarrow> list_all (\<lambda>c. getConditionStatus n1 (reqType c) = requiredStatus c) (conditions (ruleSpec r2))"
    by (simp add: ready_def satisfiedBy_def[abs_def])
  with assms(6) have "needs_action r2 n1" by (simp add: needs_action_def wants_taint_def)
  with evaluateRuleForNode_any(3)[OF assms(1,4)] n1(2)
  have tv2: "tv w2 (nodeName n) = nodeTaints (steered r2 n1)" by simp
  have "hasTaintIn (tv w2 (nodeName n)) (taint_of r1) \<longleftrightarrow> hasTaintBySpec n1 (taint_of r1)"
    using steered_same_id[OF assms(5)[symmetric], of n1] by (simp add: tv2 hasTaintIn_same_id hasTaintBySpec_def)
  also have "\<dots> \<longleftrightarrow> \<not> hasTaintBySpec n (taint_of r1)"
    using steered_has[of r1 n] err by (simp add: n1(1) needs_action_def)
  finally have carried: "hasTaintIn (tv w2 (nodeName n)) (taint_of r1) \<longleftrightarrow> \<not> hasTaintBySpec n (taint_of r1)" .
  have "tv w1 = tv w" by (rule evaluateRuleForNode_contract(4)[OF assms(1,3,2)]) simp
  with assms(2) carried err show ?thesis by (simp add: hasTaintBySpec_def)
qed

text \<open>A second rule with the disk taint; the first patch is denied, the second goes through.\<close>

definition disk_rule :: nodeReadinessRule where
  "disk_rule = (net_rule ''continuous'' False)\<lparr>ruleName := ''disk'', ruleSpec := (net_spec ''continuous'' False)\<lparr>ruleTaint := disk_taint\<rparr>\<rparr>"

theorem refused_change_carried_out_witness:
  "\<exists>e r1' n1 s1 r2' n2 s2.
     evaluateRuleForNode mem_env (net_rule ''continuous'' False) (worker ''w1'' ''False'' [])
       (server_of [worker ''w1'' ''False'' []] [] [Some denied]) = (Some e, r1', n1, s1) \<and>
     evaluateRuleForNode mem_env disk_rule n1 s1 = (None, r2', n2, s2) \<and>
     \<not> hasTaintIn (server_taints s1 ''w1'') net_taint \<and> hasTaintIn (server_taints s2 ''w1'') net_taint"
proof -
  let ?n = "worker ''w1'' ''False'' []" and ?r = "net_rule ''continuous'' False"
  let ?s = "server_of [?n] [] [Some denied]"
  obtain e r1' n1 s1 where run1: "evaluateRuleForNode mem_env ?r ?n ?s = (Some e, r1', n1, s1)"
    and n1: "n1 = appendTaint ?n net_taint" and s1: "s1 = server_of [?n] [] []"
    by (simp add: evaluation_eval appendTaint_def sample_defs server_defs)
  obtain r2' n2 s2 where run2: "evaluateRuleForNode mem_env disk_rule n1 s1 = (None, r2', n2, s2)"
    by (simp add: n1 s1 evaluation_eval appendTaint_def disk_rule_def sample_defs server_defs)
  have cur: "server_taints ?s (nodeName ?n) = nodeTaints ?n" by (simp add: server_taints_def sample_defs)
  have ids: "taint_id (taint_of ?r) \<noteq> taint_id (taint_of disk_rule)" by (simp add: disk_rule_def sample_defs)
  have act: "hasTaintBySpec n1 (taint_of disk_rule) \<longleftrightarrow>
      list_all (\<lambda>c. getConditionStatus n1 (reqType c) = requiredStatus c) (conditions (ruleSpec disk_rule))"
    by (simp add: n1 hasTaintBySpec_def getConditionStatus_def appendTaint_def disk_rule_def sample_defs)
  have names: "nodeName ?n = ''w1''" "taint_of ?r = net_taint" "\<not> hasTaintBySpec ?n net_taint"
    by (simp_all add: worker_def net_rule_def net_spec_def hasTaintBySpec_def)
  from refused_change_carried_out[OF mem_taints_contract, OF cur run1 run2 ids act]
  have "\<not> hasTaintIn (server_taints s1 ''w1'') net_taint" "hasTaintIn (server_taints s2 ''w1'') net_taint"
    unfolding names using names(3) by simp_all
  with run1 run2 show ?thesis by blast
qed

end
