(* ===== verification/Schema.thy ===== *)
theory Schema
  imports System
begin

text \<open>
  The schema of the resource, as the markers of \<open>api/v1alpha1/nodereadinessrule_types.go\<close> declare it
  for the fields of spec and status, and what the controller's work is worth against it: a status that
  processing produces is one the API server accepts, as long as its lists stay below their declared
  length, exactly when no error message in it is longer than the schema allows, which the code does not
  see to; and once a rule applies to more nodes than that, its status can no longer be stored.
\<close>

subsection \<open>The markers\<close>

definition status_values :: "string set" where
  "status_values = {ConditionTrue, ConditionFalse, ConditionUnknown}"

text \<open>\<open>MaxLength=253\<close>, \<open>MinLength=1\<close> and the pattern of a DNS subdomain: labels between dots.\<close>

definition alphanumeric :: "char \<Rightarrow> bool" where
  "alphanumeric c \<longleftrightarrow> c \<in> set ''abcdefghijklmnopqrstuvwxyz0123456789''"

definition dns_label :: "string \<Rightarrow> bool" where
  "dns_label s \<longleftrightarrow> s \<noteq> [] \<and> alphanumeric (hd s) \<and> alphanumeric (last s) \<and>
     list_all (\<lambda>c. alphanumeric c \<or> c = CHR ''-'') s"

fun dots :: "string \<Rightarrow> string \<Rightarrow> string list" where
  "dots [] acc = [acc]"
| "dots (c # cs) acc = (if c = CHR ''.'' then acc # dots cs [] else dots cs (acc @ [c]))"

definition schema_name :: "string \<Rightarrow> bool" where
  "schema_name s \<longleftrightarrow> s \<noteq> [] \<and> length s \<le> 253 \<and> list_all dns_label (dots s [])"

definition schema_condition_type :: "string \<Rightarrow> bool" where
  "schema_condition_type s \<longleftrightarrow> s \<noteq> [] \<and> length s \<le> 316"

definition schema_spec :: "nodeReadinessRuleSpec \<Rightarrow> bool" where
  "schema_spec sp \<longleftrightarrow> 1 \<le> length (conditions sp) \<and> length (conditions sp) \<le> 32 \<and>
     distinct (map reqType (conditions sp)) \<and>
     enforcementMode sp \<in> {[], EnforcementModeBootstrapOnly, EnforcementModeContinuous} \<and>
     (\<forall>c \<in> set (conditions sp). schema_condition_type (reqType c) \<and> requiredStatus c \<in> status_values)"

definition schema_result :: "conditionEvaluationResult \<Rightarrow> bool" where
  "schema_result r \<longleftrightarrow> schema_condition_type (resType r) \<and> resCurrentStatus r \<in> status_values \<and>
     resRequiredStatus r \<in> status_values"

text \<open>A required list or time that is empty or zero is left out of the object, and then refused.\<close>

definition schema_evaluation :: "nodeEvaluation \<Rightarrow> bool" where
  "schema_evaluation e \<longleftrightarrow> schema_name (evalNodeName e) \<and> conditionResults e \<noteq> [] \<and> length (conditionResults e) \<le> 5000 \<and>
     distinct (map resType (conditionResults e)) \<and> (\<forall>r \<in> set (conditionResults e). schema_result r) \<and>
     taintStatus e \<in> {TaintStatusPresent, TaintStatusAbsent} \<and> evalLastEvaluationTime e \<noteq> zeroTime"

text \<open>
  An empty reason or message is left out of the object, so the length of a present one counts. What is asked
  of a failure but the length of its message is named of its own.
\<close>

definition failure_fits :: "nodeFailure \<Rightarrow> bool" where
  "failure_fits f \<longleftrightarrow> schema_name (failNodeName f) \<and> length (failReason f) \<le> 256 \<and> failLastEvaluationTime f \<noteq> zeroTime"

definition schema_failure :: "nodeFailure \<Rightarrow> bool" where
  "schema_failure f \<longleftrightarrow> failure_fits f \<and> length (failMessage f) \<le> 10240"

text \<open>
  The struct is left out when it is zero (\<open>omitzero\<close>); otherwise it has a summary, and so the one
  property that \<open>MinProperties=1\<close> asks for.
\<close>

definition schema_dry_run :: "dryRunResults \<Rightarrow> bool" where
  "schema_dry_run d \<longleftrightarrow> d = emptyDryRunResults \<or> (summary d \<noteq> [] \<and> length (summary d) \<le> 4096 \<and>
     (\<forall>x \<in> {affectedNodes d, taintsToAdd d, taintsToRemove d, riskyOperations d}. case x of None \<Rightarrow> True | Some n \<Rightarrow> 0 \<le> sint n))"

text \<open>
  A zero \<open>observedGeneration\<close> is left out; a present one is positive. A status of which everything is left
  out is itself left out, so \<open>MinProperties=1\<close> asks for nothing more.
\<close>

definition schema_status :: "nodeReadinessRuleStatus \<Rightarrow> bool" where
  "schema_status st \<longleftrightarrow> 0 \<le> sint (observedGeneration st) \<and>
     distinct (appliedNodes st) \<and> length (appliedNodes st) \<le> 5000 \<and> (\<forall>n \<in> set (appliedNodes st). length n \<le> 253) \<and>
     distinct (map failNodeName (failedNodes st)) \<and> length (failedNodes st) \<le> 5000 \<and>
     (\<forall>f \<in> set (failedNodes st). schema_failure f) \<and>
     distinct (map evalNodeName (nodeEvaluations st)) \<and> length (nodeEvaluations st) \<le> 5000 \<and>
     (\<forall>e \<in> set (nodeEvaluations st). schema_evaluation e) \<and>
     schema_dry_run (dryRunOutcome st)"

definition status_names :: "nodeReadinessRuleStatus \<Rightarrow> string set" where
  "status_names st = evalNodeName ` set (nodeEvaluations st) \<union> failNodeName ` set (failedNodes st)"

text \<open>
  A node as the API server serves it. \<open>bookkeeping_contract\<close>: the answer of a patch is the node of the
  request, and the clock has left the zero time.
\<close>

definition schema_node :: "node \<Rightarrow> bool" where
  "schema_node n \<longleftrightarrow> schema_name (nodeName n) \<and> (\<forall>c \<in> set (nodeConditions n). condStatus c \<in> status_values)"

definition bookkeeping_contract :: "'w env \<Rightarrow> bool" where
  "bookkeeping_contract env \<longleftrightarrow>
     (\<forall>base new w n w'. patchNode env base new w = (Inr n, w') \<longrightarrow> nodeName n = nodeName new) \<and>
     (\<forall>w. fst (clockNow env w) \<noteq> zeroTime)"

lemma bookkeeping_contractD:
  assumes "bookkeeping_contract env"
  shows "patchNode env base new w = (Inr n, w') \<Longrightarrow> nodeName n = nodeName new" "fst (clockNow env w) \<noteq> zeroTime"
  using assms unfolding bookkeeping_contract_def by blast+

subsection \<open>What an evaluation records\<close>

lemma getConditionStatus_values:
  assumes "schema_node n"
  shows "getConditionStatus n t \<in> status_values"
proof (cases "find_key condType t (nodeConditions n)")
  case None
  then show ?thesis by (simp add: getConditionStatus_def conditionStatusIn_find_key status_values_def)
next
  case (Some c)
  with assms find_key_SomeD[OF Some] show ?thesis
    by (auto simp: getConditionStatus_def conditionStatusIn_find_key schema_node_def)
qed

lemma conditionResults_schema:
  assumes "schema_node n" and "schema_spec sp"
  shows "map (conditionResult n) (conditions sp) \<noteq> []" "length (map (conditionResult n) (conditions sp)) \<le> 5000"
    "distinct (map resType (map (conditionResult n) (conditions sp)))"
    "\<forall>r \<in> set (map (conditionResult n) (conditions sp)). schema_result r"
proof -
  have "map resType (map (conditionResult n) cs) = map reqType cs" for cs
    by (simp add: conditionResult_def comp_def)
  then show "distinct (map resType (map (conditionResult n) (conditions sp)))" using assms(2) by (simp only: schema_spec_def)
  show "map (conditionResult n) (conditions sp) \<noteq> []" using assms(2) by (auto simp: schema_spec_def)
  show "length (map (conditionResult n) (conditions sp)) \<le> 5000" using assms(2) by (simp add: schema_spec_def)
  show "\<forall>r \<in> set (map (conditionResult n) (conditions sp)). schema_result r"
    using assms(2) getConditionStatus_values[OF assms(1)]
    by (auto simp: schema_result_def conditionResult_def schema_spec_def)
qed

lemma setEvaluation_mem:
  assumes "e \<in> set (setEvaluation name rs st t es)"
  shows "e \<in> set es \<or>
    e = \<lparr>evalNodeName = name, conditionResults = rs, taintStatus = st, evalLastEvaluationTime = t\<rparr>"
  using assms
proof (induction es)
  case Nil
  then show ?case by simp
next
  case (Cons x es)
  show ?case
  proof (cases "evalNodeName x = name")
    case True
    have "x\<lparr>conditionResults := rs, taintStatus := st, evalLastEvaluationTime := t\<rparr> =
        \<lparr>evalNodeName = name, conditionResults = rs, taintStatus = st, evalLastEvaluationTime = t\<rparr>"
      using True by (cases x) simp
    with Cons.prems True show ?thesis by auto
  next
    case False
    with Cons show ?thesis by auto
  qed
qed

text \<open>The entries of a status all fit, messages apart, and are those of the nodes in a given set.\<close>

definition entries_fit :: "string set \<Rightarrow> nodeReadinessRuleStatus \<Rightarrow> bool" where
  "entries_fit A st \<longleftrightarrow> wf_status st \<and> status_names st \<subseteq> A \<and>
     (\<forall>f \<in> set (failedNodes st). failure_fits f) \<and> (\<forall>e \<in> set (nodeEvaluations st). schema_evaluation e)"

lemma entries_fit_evaluation:
  assumes fit: "entries_fit A st" and n: "schema_node n" "nodeName n \<in> A" and sp: "schema_spec sp"
    and ts: "ts \<in> {TaintStatusPresent, TaintStatusAbsent}" and t: "t \<noteq> zeroTime"
  shows "entries_fit A (st\<lparr>nodeEvaluations := setEvaluation (nodeName n) (map (conditionResult n) (conditions sp)) ts t (nodeEvaluations st)\<rparr>)"
proof -
  let ?new = "\<lparr>evalNodeName = nodeName n, conditionResults = map (conditionResult n) (conditions sp), taintStatus = ts,
    evalLastEvaluationTime = t\<rparr>"
  have d: "distinct (map evalNodeName (nodeEvaluations st))" using fit by (simp add: entries_fit_def wf_status_def)
  have new: "schema_evaluation ?new"
    using conditionResults_schema[OF n(1) sp] ts t n(1) by (simp add: schema_evaluation_def schema_node_def)
  have mem: "e \<in> set (nodeEvaluations st) \<or> e = ?new"
    if "e \<in> set (setEvaluation (nodeName n) (map (conditionResult n) (conditions sp)) ts t (nodeEvaluations st))" for e
    using setEvaluation_mem[OF that] by blast
  have "distinct (map evalNodeName (setEvaluation (nodeName n) (map (conditionResult n) (conditions sp)) ts t (nodeEvaluations st)))"
    using evaluations.distinct_store[OF d, of "nodeName n" "(map (conditionResult n) (conditions sp), ts, t)"] by simp
  moreover have "\<forall>e \<in> set (setEvaluation (nodeName n) (map (conditionResult n) (conditions sp)) ts t (nodeEvaluations st)).
      schema_evaluation e \<and> evalNodeName e \<in> A"
  proof
    fix e assume "e \<in> set (setEvaluation (nodeName n) (map (conditionResult n) (conditions sp)) ts t (nodeEvaluations st))"
    from mem[OF this] show "schema_evaluation e \<and> evalNodeName e \<in> A"
      using fit new n(2) by (auto simp: entries_fit_def status_names_def)
  qed
  ultimately show ?thesis using fit unfolding entries_fit_def wf_status_def status_names_def by auto
qed

lemma entries_fit_failure:
  assumes fit: "entries_fit A st" and n: "schema_name k" "k \<in> A" and t: "t \<noteq> zeroTime"
  shows "entries_fit A (st\<lparr>failedNodes := replaceFailure (mkFailure k (''EvaluationError'', message, t)) (failedNodes st)\<rparr>)"
proof -
  have f: "failNodeName (mkFailure k (''EvaluationError'', message, t)) = k" "failure_fits (mkFailure k (''EvaluationError'', message, t))"
    using n(1) t by (simp_all add: mkFailure_def failure_fits_def)
  have "distinct (map failNodeName (replaceFailure (mkFailure k (''EvaluationError'', message, t)) (failedNodes st)))"
    using failures.distinct_store[of "failedNodes st"] fit by (simp add: entries_fit_def wf_status_def)
  with fit f n(2) show ?thesis
    by (auto simp: entries_fit_def wf_status_def status_names_def replaceFailure_def)
qed

lemma evaluateOrRecord_fit:
  assumes run: "evaluateOrRecord env rule n w = (rule', n', w')" and fit: "entries_fit A (ruleStatus rule)"
    and n: "schema_node n" "nodeName n \<in> A" and sp: "schema_spec (ruleSpec rule)" and p: "bookkeeping_contract env"
  shows "entries_fit A (ruleStatus rule')"
proof -
  have rec: "entries_fit A (ruleStatus (fst (record_evaluation env rule n m v)))" if "nodeName m = nodeName n" for m v
    using entries_fit_evaluation[OF fit n sp _ bookkeeping_contractD(2)[OF p], of "taintStatusOf m (taint_of rule)" v]
    by (simp add: record_evaluation_eq that taintStatusOf_def)
  obtain e r1 n1 w1 where ev: "evaluateRuleForNode env rule n w = (e, r1, n1, w1)"
    by (cases "evaluateRuleForNode env rule n w")
  show ?thesis
  proof (cases e)
    case None
    with run ev have r: "rule' = r1" by (auto simp: evaluateOrRecord_def)
    show ?thesis
    proof (cases "needs_action rule n")
      case False
      with ev None rec[of n w] r show ?thesis by (simp add: evaluateRuleForNode_eq split: prod.splits)
    next
      case True
      obtain a v where pa: "patchNode env n (steered rule n) w = (a, v)" by (cases "patchNode env n (steered rule n) w")
      with ev None True obtain m where a: "a = Inr m" by (cases a) (auto simp: evaluateRuleForNode_eq)
      have "nodeName m = nodeName (steered rule n)" by (rule bookkeeping_contractD(1)[OF p pa[unfolded a]])
      then have "nodeName m = nodeName n" by simp
      from rec[OF this, of "after_patch env rule n m v"] ev None True pa a r show ?thesis
        by (simp add: evaluateRuleForNode_eq split: prod.splits)
    qed
  next
    case (Some x)
    from evaluateRuleForNode_error[OF ev[unfolded Some]] have c: "r1 = rule" "n1 = steered rule n" by simp_all
    from entries_fit_failure[OF fit _ n(2) bookkeeping_contractD(2)[OF p]] n(1) run ev Some c(1,2) show ?thesis
      by (auto simp: evaluateOrRecord_def recordNodeFailure_eq schema_node_def)
  qed
qed

lemma processAllNodesLoop_fit:
  assumes "bookkeeping_contract env"
  shows "processAllNodesLoop env rule ns applied w = (rule', applied', w') \<Longrightarrow> entries_fit A (ruleStatus rule) \<Longrightarrow>
    \<forall>n \<in> set ns. schema_node n \<and> nodeName n \<in> A \<Longrightarrow> schema_spec (ruleSpec rule) \<Longrightarrow> entries_fit A (ruleStatus rule')"
proof (induction ns arbitrary: rule applied w)
  case Nil
  then show ?case by simp
next
  case (Cons n ns)
  obtain r1 n1 w1 where ev: "evaluateOrRecord env rule n w = (r1, n1, w1)" by (cases "evaluateOrRecord env rule n w")
  show ?case
  proof (cases "ruleAppliesTo env rule n")
    case False
    with Cons show ?thesis by simp
  next
    case True
    have "entries_fit A (ruleStatus r1)"
      by (rule evaluateOrRecord_fit[OF ev Cons.prems(2) _ _ Cons.prems(4) assms]) (use Cons.prems(3) in simp_all)
    moreover have "ruleSpec r1 = ruleSpec rule" using evaluateOrRecord_same_rule[OF ev] by (simp add: same_rule_def)
    ultimately show ?thesis using Cons.IH[of r1 "applied @ [nodeName n]" w1] Cons.prems True ev by (simp add: Let_def)
  qed
qed

subsection \<open>The dry-run results\<close>

lemma decimal_nat_length: "0 < k \<Longrightarrow> n < 10 ^ k \<Longrightarrow> length (decimal_nat n) \<le> k"
proof (induction k arbitrary: n)
  case 0
  then show ?case by simp
next
  case (Suc k)
  show ?case
  proof (cases "n < 10")
    case True
    then show ?thesis by (simp add: decimal_nat.simps[of n])
  next
    case False
    with Suc.prems have "n div 10 < 10 ^ k" "0 < k" by (auto simp: less_mult_imp_div_less intro: gr0I)
    from Suc.IH[OF this(2,1)] False show ?thesis by (simp add: decimal_nat.simps[of n])
  qed
qed

lemma sprint_int32_length: "0 < sint (x :: int32) \<Longrightarrow> length (sprint_int (sint x)) \<le> 10"
proof -
  assume pos: "0 < sint x"
  have "sint x < 2 ^ (LENGTH(32) - 1)" by (rule sint_lt)
  then have "nat (sint x) < 10 ^ 10" by simp
  from decimal_nat_length[OF _ this] pos show ?thesis by (simp add: sprint_int_def)
qed

lemma dryRunSummary_length: "dryRunSummary c \<noteq> [] \<and> length (dryRunSummary c) \<le> 4096"
proof -
  have l: "length (sprint_int (sint x)) \<le> 10" if "0 <s x" for x :: int32
    using that by (intro sprint_int32_length) (simp add: word_sless_alt)
  show ?thesis
    using l[of "cAdd c"] l[of "cRemove c"] l[of "cRisky c"]
    by (cases "0 <s cAdd c"; cases "0 <s cRemove c"; cases "0 <s cRisky c")
      (auto simp: dryRunSummary_def Let_def)
qed

subsection \<open>Properties\<close>

lemma length_by_names:
  assumes "distinct (map key xs)" and "key ` set xs \<subseteq> A" and "finite A" and "card A \<le> m"
  shows "length xs \<le> m"
proof -
  have "length xs = card (key ` set xs)" using distinct_card[OF assms(1)] by simp
  also have "\<dots> \<le> card A" by (rule card_mono[OF assms(3,2)])
  finally show ?thesis using assms(4) by simp
qed

text \<open>
  C15: What processing leaves in a status is of the type the schema declares, but for the length of error
  messages, which the code does not bound. From a rule and nodes as the API server admits them, dry run or
  not, with at most 5000 nodes listed or already in the status, all counts and lists are within their
  bounds, every list has one entry per key, and every name, condition type, status and taint status is one
  of those allowed; the status is accepted exactly when no recorded message is longer than 10240.
\<close>

theorem status_fits_schema:
  assumes "schema_spec (ruleSpec rule)" and "schema_status (ruleStatus rule)" and "0 \<le> sint (generation rule)"
    and "bookkeeping_contract env"
    and "listNodes env w = (Inr nodes, w1)" and "distinct (map nodeName nodes) \<and> (\<forall>n \<in> set nodes. schema_node n) \<and>
      card (status_names (ruleStatus rule) \<union> nodeName ` set nodes) \<le> 5000"
    and "processRule env rule w = (None, rule', w')"
  shows "schema_status (ruleStatus rule') \<longleftrightarrow> (\<forall>f \<in> set (failedNodes (ruleStatus rule')). length (failMessage f) \<le> 10240)"
proof -
  note l = assms(5) and ns = assms(6)
  let ?A = "status_names (ruleStatus rule) \<union> nodeName ` set nodes"
  have fin: "finite ?A" by (simp add: status_names_def)
  have len: "length nodes \<le> 5000"
    by (rule length_by_names[of nodeName nodes ?A]) (use ns fin in auto)
  show ?thesis
  proof (cases "dryRun (ruleSpec rule)")
    case True
    have c: "length (conditions (ruleSpec rule)) < 2 ^ 63" using assms(1) by (simp add: schema_spec_def)
    have n: "length nodes < 2 ^ 31" using len by simp
    have "schema_dry_run (dryRunOutcome (ruleStatus rule'))"
      using assms(7) True processDryRun_ok[OF c l] dryRunSummary_length
      by (auto simp: processRule_def schema_dry_run_def counts_def count_exact[OF n])
    with assms(2,7) True processDryRun_ok[OF c l] show ?thesis
      by (auto simp: processRule_def schema_status_def schema_failure_def)
  next
    case False
    with assms(7) have "processAllNodesForRule env (clearDryRun rule) w = (None, rule', w')" by (simp add: processRule_def)
    from processAllNodesForRule_run[OF this l] obtain rule1 applied where
      loop: "processAllNodesLoop env (clearDryRun rule) nodes [] w1 = (rule1, applied, w')"
      and st: "ruleStatus rule' = (ruleStatus rule1)\<lparr>observedGeneration := generation rule1, appliedNodes := applied,
        dryRunOutcome := (if dryRun (ruleSpec rule1) then dryRunOutcome (ruleStatus rule1) else emptyDryRunResults)\<rparr>" .
    have same: "same_rule (clearDryRun rule) rule1" by (rule processAllNodesLoop_same_rule[OF loop])
    have fit: "entries_fit ?A (ruleStatus (clearDryRun rule))"
      using assms(2) by (auto simp: clearDryRun_def entries_fit_def wf_status_def schema_status_def schema_failure_def status_names_def)
    have fit1: "entries_fit ?A (ruleStatus rule1)"
      by (rule processAllNodesLoop_fit[OF assms(4) loop fit]) (use ns assms(1) in \<open>auto simp: clearDryRun_def\<close>)
    have app: "applied = map nodeName (filter (ruleAppliesTo env (clearDryRun rule)) nodes)"
      using processAllNodesLoop_applied[OF loop] by simp
    have a1: "distinct applied" using ns app by (simp add: distinct_map_filter)
    have "length applied \<le> length nodes" using app by simp
    then have a2: "length applied \<le> 5000" using len by simp
    have a3: "\<forall>n \<in> set applied. length n \<le> 253" using ns app by (auto simp: schema_node_def schema_name_def)
    have f: "length (failedNodes (ruleStatus rule1)) \<le> 5000" "length (nodeEvaluations (ruleStatus rule1)) \<le> 5000"
      by (rule length_by_names[of _ _ ?A, OF _ _ fin]; use fit1 ns in \<open>auto simp: entries_fit_def wf_status_def status_names_def\<close>)+
    have g: "0 \<le> sint (generation rule1)" "\<not> dryRun (ruleSpec rule1)"
      using same assms(3) False by (simp_all add: same_rule_def clearDryRun_def)
    show ?thesis
      unfolding st schema_status_def using fit1 a1 a2 a3 f g
      by (simp add: entries_fit_def wf_status_def schema_dry_run_def schema_failure_def)
  qed
qed

text \<open>An error message that is too long makes the status one the API server refuses.\<close>

lemma long_message_refused:
  assumes "evaluateRuleForNode env rule n w = (Some e, rule0, n0, w0)" and "10240 < length (errorString e)"
    and "evaluateOrRecord env rule n w = (rule', n', w')"
  shows "\<not> schema_status (ruleStatus rule')"
proof -
  from evaluateRuleForNode_error[OF assms(1)] have r: "rule0 = rule" "nodeName n0 = nodeName n" by simp_all
  let ?f = "mkFailure (nodeName n) (''EvaluationError'', errorString e, fst (clockNow env w0))"
  have "?f \<in> set (failedNodes (ruleStatus rule'))"
    using assms(1,3) r by (auto simp: evaluateOrRecord_def recordNodeFailure_eq replaceFailure_def)
  moreover have "\<not> schema_failure ?f" using assms(2) by (simp add: schema_failure_def mkFailure_def)
  ultimately show ?thesis by (auto simp: schema_status_def)
qed

text \<open>A client that serves one node and accepts every patch, with a clock that has left zero.\<close>

definition one_node_env :: "server env" where
  "one_node_env = mem_env\<lparr>listNodes := (\<lambda>s. (Inr [worker ''w1'' ''False'' []], s)), patchNode := (\<lambda>base new s. (Inr new, s)),
     clockNow := (\<lambda>s. (1, s))\<rparr>"

theorem status_fits_schema_witness:
  "\<exists>rule' s'. processRule one_node_env (net_rule ''continuous'' False) (server_of [] [] []) = (None, rule', s') \<and>
     schema_status (ruleStatus rule')"
proof -
  let ?r = "net_rule ''continuous'' False" and ?s = "server_of [] [] []"
  obtain rule' s' where run: "processRule one_node_env ?r ?s = (None, rule', s')" and ok: "failedNodes (ruleStatus rule') = []"
    by (simp add: processRule_def processing_eval evaluation_eval one_node_env_def mem_env_simps sample_defs mode_defs mem_selector_def)
  have spec: "schema_spec (ruleSpec ?r)"
    by (simp add: schema_spec_def net_rule_def net_spec_def schema_condition_type_def status_values_def mode_defs)
  have st: "schema_status (ruleStatus ?r)"
    by (simp add: schema_status_def net_rule_def no_status_def schema_dry_run_def)
  have gen: "0 \<le> sint (generation ?r)" by (simp add: net_rule_def)
  have patch: "bookkeeping_contract one_node_env" by (simp add: bookkeeping_contract_def one_node_env_def zeroTime_def)
  have node: "schema_node (worker ''w1'' ''False'' [])"
    by (simp add: schema_node_def worker_def net_condition_def schema_name_def dns_label_def alphanumeric_def
        status_values_def mode_defs)
  have list: "listNodes one_node_env ?s = (Inr [worker ''w1'' ''False'' []], ?s)" by (simp add: one_node_env_def)
  have nodes: "distinct (map nodeName [worker ''w1'' ''False'' []]) \<and> (\<forall>n \<in> set [worker ''w1'' ''False'' []]. schema_node n) \<and>
      card (status_names (ruleStatus ?r) \<union> nodeName ` set [worker ''w1'' ''False'' []]) \<le> 5000"
    using node by (simp add: status_names_def net_rule_def no_status_def)
  from status_fits_schema[OF spec st gen patch list nodes run] run ok show ?thesis by auto
qed

text \<open>
  C16: Once a rule that is enforced - every version the API server serves is neither being deleted nor a dry
  run - applies to more than 5000 nodes of every list, the length the schema allows \<open>appliedNodes\<close>, no
  reconcile of it succeeds: every one ends in an error, whether it comes from the finalizer, from listing or
  cleaning up or, after all nodes have been patched, from storing the status.
\<close>

theorem oversized_rule_never_succeeds:
  assumes "retry_contract env"
    and "\<And>r w. 5000 < length (appliedNodes (ruleStatus r)) \<Longrightarrow> fst (statusUpdate env r w) \<noteq> None"
    and "\<And>r v v'. getRule env name v = (Inr r, v') \<Longrightarrow> ruleName r = name \<and> deletionTimestamp r = None \<and> \<not> dryRun (ruleSpec r) \<and>
      (\<forall>u ns u'. listNodes env u = (Inr ns, u') \<longrightarrow> 5000 < length (filter (ruleAppliesTo env r) ns))"
    and "getRule env name w = (Inr r0, w0)" and "ruleReconcile env c name w = ((res, err), c', w')"
  shows "err \<noteq> None"
proof -
  have proc: "\<exists>e. snd (fst (reconcileProcessing env rule v)) = Some e" if g: "getRule env name u = (Inr rule, u')" for rule v u u'
  proof (cases "processRule env rule v")
    case (fields e rule1 w1)
    show ?thesis
    proof (cases e)
      case (Some x)
      with fields show ?thesis by (simp add: reconcileProcessing_def)
    next
      case None
      note g' = assms(3)[OF g]
      with fields None have run: "processAllNodesForRule env (clearDryRun rule) v = (None, rule1, w1)" by (simp add: processRule_def)
      obtain a v1 where l: "listNodes env v = (a, v1)" by (cases "listNodes env v")
      with run obtain ns where ns: "a = Inr ns" by (cases a) (auto simp: processAllNodesForRule_def)
      from processAllNodesForRule_run[OF run l[unfolded ns]] obtain rule2 applied where
        loop: "processAllNodesLoop env (clearDryRun rule) ns [] v1 = (rule2, applied, w1)"
        and st: "ruleStatus rule1 = (ruleStatus rule2)\<lparr>observedGeneration := generation rule2, appliedNodes := applied,
          dryRunOutcome := (if dryRun (ruleSpec rule2) then dryRunOutcome (ruleStatus rule2) else emptyDryRunResults)\<rparr>" .
      have "ruleAppliesTo env (clearDryRun rule) = ruleAppliesTo env rule"
        by (rule ruleAppliesTo_spec) (simp add: clearDryRun_def)
      then have "applied = map nodeName (filter (ruleAppliesTo env rule) ns)"
        using processAllNodesLoop_applied[OF loop] by simp
      with g' l ns have many: "5000 < length (appliedNodes (ruleStatus rule1))" by (auto simp: st)
      have attempt: "fst (updateStatusAttempt env rule1 z) \<noteq> None" for z
        using assms(2) many by (simp add: updateStatusAttempt_def split: prod.split sum.split)
      have "fst (updateRuleStatus env rule1 w1) \<noteq> None"
      proof
        assume "fst (updateRuleStatus env rule1 w1) = None"
        then obtain z where z: "retryOnConflict env (updateStatusAttempt env rule1) w1 = (None, z)"
          by (cases "updateRuleStatus env rule1 w1") (simp add: updateRuleStatus_def)
        have no: "updateStatusAttempt env rule1 y \<noteq> (None, y')" for y y' using attempt[of y] by auto
        show False
          by (rule retry_success[where I = "\<lambda>_. True" and Q = "\<lambda>_. False", OF assms(1) z]) (simp_all add: no)
      qed
      with fields None show ?thesis by (auto simp: reconcileProcessing_def split: prod.split option.split)
    qed
  qed
  note g0 = assms(3)[OF assms(4)]
  obtain f w2 where f: "ensureFinalizer env name r0 w0 = (f, w2)" by (cases "ensureFinalizer env name r0 w0")
  show ?thesis
  proof (cases f)
    case (Inl x)
    with assms(4,5) g0 f show ?thesis by (auto simp: ruleReconcile_def)
  next
    case (Inr rule)
    from ensureFinalizer_got[OF f[unfolded Inr] assms(4)] obtain u u' where u: "getRule env name u = (Inr rule, u')" by blast
    obtain e w3 where s: "reconcileSelectorChange env c rule w2 = (e, w3)" by (cases "reconcileSelectorChange env c rule w2")
    from proc[OF u, of w3] assms(4,5) g0 f Inr s show ?thesis
      by (auto simp: ruleReconcile_def split: option.splits prod.splits)
  qed
qed

text \<open>A cluster of 5001 nodes, and a server that holds status to the schema.\<close>

definition crowded_env :: "server env" where
  "crowded_env = mem_env\<lparr>getRule := (\<lambda>k s. (if k = ''net'' then Inr (net_rule ''continuous'' False) else Inl notFound, s)),
     listNodes := (\<lambda>s. (Inr (replicate 5001 (worker ''w'' ''True'' [])), s)),
     statusUpdate := (\<lambda>r s. (if 5000 < length (appliedNodes (ruleStatus r)) then Some denied else None, s))\<rparr>"

theorem oversized_rule_never_succeeds_witness:
  "snd (fst (ruleReconcile crowded_env newReadinessGateController ''net'' (server_of [] [] []))) \<noteq> None"
proof -
  let ?s = "server_of [] [] []"
  have retry: "retry_contract crowded_env"
    using mem_retry_contract by (simp add: crowded_env_def retry_contract_def)
  have upd: "fst (statusUpdate crowded_env r w) \<noteq> None" if "5000 < length (appliedNodes (ruleStatus r))" for r w
    using that by (simp add: crowded_env_def)
  have app: "ruleAppliesTo crowded_env (net_rule ''continuous'' False) (worker ''w'' ''True'' [])"
    by (simp add: ruleAppliesTo_def crowded_env_def mem_env_simps mem_selector_def sample_defs Let_def)
  have rule: "ruleName r = ''net'' \<and> deletionTimestamp r = None \<and> \<not> dryRun (ruleSpec r) \<and>
      (\<forall>u ns u'. listNodes crowded_env u = (Inr ns, u') \<longrightarrow> 5000 < length (filter (ruleAppliesTo crowded_env r) ns))"
    if "getRule crowded_env ''net'' v = (Inr r, v')" for r v v'
  proof -
    have r: "r = net_rule ''continuous'' False" using that by (simp add: crowded_env_def)
    have "5000 < length (filter (ruleAppliesTo crowded_env r) ns)" if "listNodes crowded_env u = (Inr ns, u')" for u ns u'
    proof -
      have "ns = replicate 5001 (worker ''w'' ''True'' [])" using that by (simp add: crowded_env_def)
      then show ?thesis using app r by (simp only: filter_replicate if_True length_replicate)
    qed
    with r show ?thesis by (simp add: net_rule_def net_spec_def)
  qed
  have g: "getRule crowded_env ''net'' ?s = (Inr (net_rule ''continuous'' False), ?s)" by (simp add: crowded_env_def)
  obtain res err c' w' where run: "ruleReconcile crowded_env newReadinessGateController ''net'' ?s = ((res, err), c', w')"
    by (metis prod.collapse)
  from oversized_rule_never_succeeds[OF retry upd rule g run] run show ?thesis by simp
qed

end
