(* ===== verification/Object_Store.thy ===== *)
theory Object_Store
  imports Api_Types "HOL-Library.Monad_Syntax"
begin

text \<open>
  Go's memory as far as the API objects need it. The other theories pass rules as values; the program
  passes pointers, and its cache, the reconcilers and the API client would share storage if it did not
  copy. Here a struct holds pointers and slices, storage is a heap of typed arrays (a variable is an array
  of length one), and a \<open>view\<close> reads an object out of the heap: the value the other theories use,
  together with the addresses it was read from. The interfaces: \<open>array_type\<close> (how arrays of a type are
  stored), \<open>viewer\<close> (a view depends on its addresses only) and \<open>copier\<close> (a copy has the same
  view and lives in new storage), closed under pointers, slices, pairs and structs.
\<close>

subsection \<open>Objects in memory\<close>

type_synonym addr = nat

text \<open>A pointer into an array; a slice with offset, length and capacity.\<close>

type_synonym ptr = "addr \<times> nat"

datatype slice = NilSlice | Slice addr nat nat nat

text \<open>
  The structs that hold pointers, slices or maps, with these in place of the optional values, lists and
  maps of \<open>Api_Types\<close>: those of \<open>api/v1alpha1\<close>, and the three of other packages that a rule holds
  and that have storage behind them, \<open>Taint\<close>, \<open>LabelSelector\<close> and \<open>ObjectMeta\<close>. A Go map is a
  reference: nil, or a pointer to a variable that holds the map. The structs without storage (a
  \<open>Time\<close>, the metadata of a list) stay values.
\<close>

record taintObj =
  toKey :: string
  toValue :: string
  toEffect :: string
  toTimeAdded :: "ptr option"

record requirementObj =
  loKey :: string
  loOperator :: string
  loValues :: slice

record selectorObj =
  soMatchLabels :: "ptr option"
  soMatchExpressions :: slice

record dryRunObj =
  drAffected :: "ptr option"
  drToAdd :: "ptr option"
  drToRemove :: "ptr option"
  drRisky :: "ptr option"
  drSummary :: string

record evaluationObj =
  eoNodeName :: string
  eoResults :: slice
  eoTaintStatus :: string
  eoTime :: time

record specObj =
  soConditions :: slice
  soMode :: string
  soTaint :: taintObj
  soSelector :: selectorObj
  soDryRun :: bool

record statusObj =
  stGeneration :: int64
  stApplied :: slice
  stFailed :: slice
  stEvaluations :: slice
  stDryRun :: dryRunObj

record typeMeta =
  tmKind :: string
  tmAPIVersion :: string

record objectMeta =
  omName :: string
  omResourceVersion :: string
  omGeneration :: int64
  omDeletionTimestamp :: "ptr option"
  omLabels :: "ptr option"
  omAnnotations :: "ptr option"
  omFinalizers :: slice

record listMeta =
  lmResourceVersion :: string
  lmContinue :: string

record ruleObj =
  roTypeMeta :: typeMeta
  roMeta :: objectMeta
  roSpec :: specObj
  roStatus :: statusObj

record ruleListObj =
  rlTypeMeta :: typeMeta
  rlMeta :: listMeta
  rlItems :: slice

subsection \<open>The heap\<close>

datatype cell =
    Int32s "int32 list" | Strings "string list" | Times "time list" | Maps "string_map list"
  | LabelRequirements "requirementObj list"
  | Requirements "conditionRequirement list" | Results "conditionEvaluationResult list"
  | Failures "nodeFailure list" | DryRuns "dryRunObj list" | Evaluations "evaluationObj list"
  | Specs "specObj list" | Statuses "statusObj list" | Rules "ruleObj list" | RuleLists "ruleListObj list"

text \<open>Addresses are handed out in order and never reused: storage in use is not collected.\<close>

record heap =
  heapCells :: "addr \<Rightarrow> cell option"
  nextAddr :: addr

definition heap_ok :: "heap \<Rightarrow> bool" where
  "heap_ok h \<longleftrightarrow> (\<forall>a. nextAddr h \<le> a \<longrightarrow> heapCells h a = None)"

text \<open>What was stored before is still there.\<close>

definition extends :: "heap \<Rightarrow> heap \<Rightarrow> bool" where
  "extends h h' \<longleftrightarrow> nextAddr h \<le> nextAddr h' \<and> (\<forall>a < nextAddr h. heapCells h' a = heapCells h a)"

text \<open>How arrays of a type are stored, and the zero value of the type.\<close>

record 'e arrayType =
  mkCell :: "'e list \<Rightarrow> cell"
  readCell :: "cell \<Rightarrow> 'e list option"
  zeroElem :: 'e

definition newArray :: "cell \<Rightarrow> heap \<Rightarrow> addr \<times> heap" where
  "newArray x h = (nextAddr h, h\<lparr>heapCells := (heapCells h)(nextAddr h \<mapsto> x), nextAddr := Suc (nextAddr h)\<rparr>)"

definition loadArray :: "'e arrayType \<Rightarrow> heap \<Rightarrow> addr \<Rightarrow> 'e list option" where
  "loadArray ty h a = Option.bind (heapCells h a) (readCell ty)"

definition storeArray :: "'e arrayType \<Rightarrow> addr \<Rightarrow> 'e list \<Rightarrow> heap \<Rightarrow> heap" where
  "storeArray ty a xs h = h\<lparr>heapCells := (heapCells h)(a \<mapsto> mkCell ty xs)\<rparr>"

text \<open>Reading and writing through a pointer; \<open>None\<close> is the panic of a pointer to nothing.\<close>

definition load :: "'e arrayType \<Rightarrow> heap \<Rightarrow> ptr \<Rightarrow> 'e option" where
  "load ty h p = do {
     xs \<leftarrow> loadArray ty h (fst p);
     if snd p < length xs then Some (xs ! snd p) else None }"

definition store :: "'e arrayType \<Rightarrow> ptr \<Rightarrow> 'e \<Rightarrow> heap \<Rightarrow> heap option" where
  "store ty p x h = do {
     xs \<leftarrow> loadArray ty h (fst p);
     if snd p < length xs then Some (storeArray ty (fst p) (xs[snd p := x]) h) else None }"

text \<open>
  \<open>new(T)\<close> followed by the copy of what a pointer points to, unless it is nil; \<open>make\<close> followed by
  a loop over the indices that copies element by element; \<open>make\<close> followed by the builtin \<open>copy\<close>.
\<close>

definition copyPointer :: "'e arrayType \<Rightarrow> ('e \<Rightarrow> heap \<Rightarrow> ('e \<times> heap) option) \<Rightarrow>
    ptr option \<Rightarrow> heap \<Rightarrow> (ptr option \<times> heap) option" where
  "copyPointer ty f p h = (case p of
     None \<Rightarrow> Some (None, h)
   | Some p \<Rightarrow> (let (b, h1) = newArray (mkCell ty [zeroElem ty]) h
       in do { x \<leftarrow> load ty h1 p; (y, h2) \<leftarrow> f x h1; h3 \<leftarrow> store ty (b, 0) y h2; Some (Some (b, 0), h3) }))"

fun copyElems :: "'e arrayType \<Rightarrow> ('e \<Rightarrow> heap \<Rightarrow> ('e \<times> heap) option) \<Rightarrow> addr \<Rightarrow> nat \<Rightarrow> addr \<Rightarrow>
    nat list \<Rightarrow> heap \<Rightarrow> heap option" where
  "copyElems ty f a off b [] h = Some h"
| "copyElems ty f a off b (i # is) h = do {
     x \<leftarrow> load ty h (a, off + i); (y, h1) \<leftarrow> f x h; h2 \<leftarrow> store ty (b, i) y h1;
     copyElems ty f a off b is h2 }"

definition copySlice :: "'e arrayType \<Rightarrow> ('e \<Rightarrow> heap \<Rightarrow> ('e \<times> heap) option) \<Rightarrow>
    slice \<Rightarrow> heap \<Rightarrow> (slice \<times> heap) option" where
  "copySlice ty f s h = (case s of
     NilSlice \<Rightarrow> Some (NilSlice, h)
   | Slice a off n cp \<Rightarrow> (let (b, h1) = newArray (mkCell ty (replicate n (zeroElem ty))) h
       in do { h2 \<leftarrow> copyElems ty f a off b [0..<n] h1; Some (Slice b 0 n n, h2) }))"

definition goCopy :: "'e arrayType \<Rightarrow> addr \<Rightarrow> addr \<Rightarrow> nat \<Rightarrow> nat \<Rightarrow> heap \<Rightarrow> heap option" where
  "goCopy ty b a off n h = do {
     xs \<leftarrow> loadArray ty h a; ys \<leftarrow> loadArray ty h b;
     if off + n \<le> length xs \<and> n \<le> length ys
     then Some (storeArray ty b (take n (drop off xs) @ drop n ys) h) else None }"

definition copyFlatSlice :: "'e arrayType \<Rightarrow> slice \<Rightarrow> heap \<Rightarrow> (slice \<times> heap) option" where
  "copyFlatSlice ty s h = (case s of
     NilSlice \<Rightarrow> Some (NilSlice, h)
   | Slice a off n cp \<Rightarrow> (let (b, h1) = newArray (mkCell ty (replicate n (zeroElem ty))) h
       in do { h2 \<leftarrow> goCopy ty b a off n h1; Some (Slice b 0 n n, h2) }))"

subsection \<open>Views\<close>

text \<open>A view of an object: its value and the addresses it is read from, if it is stored at all.\<close>

definition viewFlat :: "heap \<Rightarrow> 'x \<Rightarrow> ('x \<times> addr list) option" where
  "viewFlat h x = Some (x, [])"

definition viewPointer :: "'e arrayType \<Rightarrow> (heap \<Rightarrow> 'e \<Rightarrow> ('v \<times> addr list) option) \<Rightarrow>
    heap \<Rightarrow> ptr option \<Rightarrow> ('v option \<times> addr list) option" where
  "viewPointer ty view h p = (case p of
     None \<Rightarrow> Some (None, [])
   | Some p \<Rightarrow> do { x \<leftarrow> load ty h p; (v, as) \<leftarrow> view h x; Some (Some v, fst p # as) })"

text \<open>A nil slice is told apart from an empty one.\<close>

definition viewSlice :: "'e arrayType \<Rightarrow> (heap \<Rightarrow> 'e \<Rightarrow> ('v \<times> addr list) option) \<Rightarrow>
    heap \<Rightarrow> slice \<Rightarrow> ('v list option \<times> addr list) option" where
  "viewSlice ty view h s = (case s of
     NilSlice \<Rightarrow> Some (None, [])
   | Slice a off n cp \<Rightarrow> do {
       xs \<leftarrow> loadArray ty h a;
       vs \<leftarrow> (if n \<le> cp \<and> off + cp \<le> length xs then those (map (view h) (take n (drop off xs))) else None);
       Some (Some (map fst vs), a # concat (map snd vs)) })"

definition viewBoth :: "(heap \<Rightarrow> 'x \<Rightarrow> ('v \<times> addr list) option) \<Rightarrow> (heap \<Rightarrow> 'y \<Rightarrow> ('u \<times> addr list) option) \<Rightarrow>
    heap \<Rightarrow> 'x \<times> 'y \<Rightarrow> (('v \<times> 'u) \<times> addr list) option" where
  "viewBoth f g h z = do { (v, as) \<leftarrow> f h (fst z); (u, bs) \<leftarrow> g h (snd z); Some ((v, u), as @ bs) }"

definition copyBoth :: "('x \<Rightarrow> heap \<Rightarrow> ('x \<times> heap) option) \<Rightarrow> ('y \<Rightarrow> heap \<Rightarrow> ('y \<times> heap) option) \<Rightarrow>
    'x \<times> 'y \<Rightarrow> heap \<Rightarrow> (('x \<times> 'y) \<times> heap) option" where
  "copyBoth f g z h = do { (x, h1) \<leftarrow> f (fst z) h; (y, h2) \<leftarrow> g (snd z) h1; Some ((x, y), h2) }"

text \<open>The Go length and elements of a slice read as a list: nil reads as empty.\<close>

fun nilAsEmpty :: "'v list option \<Rightarrow> 'v list" where
  "nilAsEmpty None = []"
| "nilAsEmpty (Some vs) = vs"

subsection \<open>Lemmas on the heap\<close>

lemma extends_refl [simp]: "extends h h"
  by (simp add: extends_def)

lemma extends_trans: "extends h h1 \<Longrightarrow> extends h1 h2 \<Longrightarrow> extends h h2"
  by (auto simp: extends_def)

lemma extends_next: "extends h h' \<Longrightarrow> nextAddr h \<le> nextAddr h'"
  by (simp add: extends_def)

lemma newArray_simps:
  "fst (newArray x h) = nextAddr h"
  "nextAddr (snd (newArray x h)) = Suc (nextAddr h)"
  "heapCells (snd (newArray x h)) = (heapCells h)(nextAddr h \<mapsto> x)"
  by (simp_all add: newArray_def)

lemma newArray_ok: "heap_ok h \<Longrightarrow> heap_ok (snd (newArray x h))"
  by (simp add: heap_ok_def newArray_def)

lemma newArray_extends: "extends h (snd (newArray x h))"
  by (simp add: extends_def newArray_def)

lemma heap_okD: "heap_ok h \<Longrightarrow> heapCells h a \<noteq> None \<Longrightarrow> a < nextAddr h"
  by (rule ccontr) (simp add: heap_ok_def)

lemma storeArray_simps [simp]:
  "nextAddr (storeArray ty a xs h) = nextAddr h"
  "heapCells (storeArray ty a xs h) = (heapCells h)(a \<mapsto> mkCell ty xs)"
  by (simp_all add: storeArray_def)

lemma storeArray_ok: "heap_ok h \<Longrightarrow> a < nextAddr h \<Longrightarrow> heap_ok (storeArray ty a xs h)"
  by (simp add: heap_ok_def)

lemma loadArray_live: "loadArray ty h a = Some xs \<Longrightarrow> heapCells h a \<noteq> None"
  by (cases "heapCells h a") (simp_all add: loadArray_def)

lemma loadArray_cong: "heapCells h' a = heapCells h a \<Longrightarrow> loadArray ty h' a = loadArray ty h a"
  by (simp add: loadArray_def)

lemma load_cong: "heapCells h' (fst p) = heapCells h (fst p) \<Longrightarrow> load ty h' p = load ty h p"
  by (simp add: load_def loadArray_def)

lemma loadD: "load ty h p = Some x \<Longrightarrow>
  \<exists>xs. loadArray ty h (fst p) = Some xs \<and> snd p < length xs \<and> x = xs ! snd p"
  by (cases "loadArray ty h (fst p)") (simp_all add: load_def split: if_splits)

lemma those_Some_iff: "those (map f xs) = Some vs \<longleftrightarrow> list_all2 (\<lambda>x v. f x = Some v) xs vs"
proof (induction xs arbitrary: vs)
  case Nil
  then show ?case by auto
next
  case (Cons x xs)
  show ?case
  proof (cases vs)
    case Nil
    then show ?thesis by (simp split: option.split)
  next
    case (Cons v us)
    then show ?thesis using Cons.IH by (simp split: option.split) blast
  qed
qed

lemma list_all2_those: "list_all2 (\<lambda>x v. f x = Some v) xs vs \<Longrightarrow> those (map f xs) = Some vs"
  by (simp add: those_Some_iff)

subsection \<open>The interfaces\<close>

locale array_type =
  fixes ty :: "'e arrayType"
  assumes read_mk [simp]: "readCell ty (mkCell ty xs) = Some xs"
begin

lemma loadArray_storeArray:
  "loadArray ty (storeArray ty a xs h) b = (if b = a then Some xs else loadArray ty h b)"
  by (simp add: loadArray_def)

lemma loadArray_new: "loadArray ty (snd (newArray (mkCell ty xs) h)) (nextAddr h) = Some xs"
  by (simp add: loadArray_def newArray_simps)

lemma store_ok:
  assumes "loadArray ty h b = Some xs" and "i < length xs"
  shows "store ty (b, i) x h = Some (storeArray ty b (xs[i := x]) h)"
  using assms by (simp add: store_def)

end

locale viewer =
  fixes view :: "heap \<Rightarrow> 'x \<Rightarrow> ('v \<times> addr list) option"
  assumes view_local: "view h x = Some (v, as) \<Longrightarrow> \<forall>a \<in> set as. heapCells h' a = heapCells h a \<Longrightarrow>
      view h' x = Some (v, as)"
    and view_live: "view h x = Some (v, as) \<Longrightarrow> a \<in> set as \<Longrightarrow> heapCells h a \<noteq> None"
begin

lemma view_extends:
  assumes "heap_ok h" and "view h x = Some (v, as)" and "extends h h'"
  shows "view h' x = Some (v, as)"
  using assms(2)
proof (rule view_local)
  show "\<forall>a \<in> set as. heapCells h' a = heapCells h a"
    using assms(3) heap_okD[OF assms(1) view_live[OF assms(2)]] by (auto simp: extends_def)
qed

lemma view_below: "heap_ok h \<Longrightarrow> view h x = Some (v, as) \<Longrightarrow> set as \<subseteq> {..<nextAddr h}"
  using heap_okD view_live by blast

end

locale copier = viewer view
  for view :: "heap \<Rightarrow> 'x \<Rightarrow> ('v \<times> addr list) option" +
  fixes copy :: "'x \<Rightarrow> heap \<Rightarrow> ('x \<times> heap) option"
  assumes copy_ok: "heap_ok h \<Longrightarrow> view h x = Some (v, as) \<Longrightarrow>
    \<exists>y h' bs. copy x h = Some (y, h') \<and> heap_ok h' \<and> extends h h' \<and> view h' y = Some (v, bs) \<and>
      set bs \<subseteq> {nextAddr h..<nextAddr h'} \<and> distinct bs"
begin

text \<open>
  Isolation. Whatever is written after the copy was made: writes to storage that was there before leave
  the copy as it is, and writes to storage that is new leave the original as it is.
\<close>

lemma isolated:
  assumes "heap_ok h" and "view h x = Some (v, as)" and "copy x h = Some (y, h')"
  shows "(\<forall>a \<ge> nextAddr h. heapCells g a = heapCells h' a) \<Longrightarrow> \<exists>bs. view g y = Some (v, bs)"
    and "(\<forall>a < nextAddr h. heapCells g a = heapCells h' a) \<Longrightarrow> view g x = Some (v, as)"
proof -
  obtain bs where h': "extends h h'" "view h' y = Some (v, bs)" "set bs \<subseteq> {nextAddr h..<nextAddr h'}"
    using copy_ok[OF assms(1,2)] assms(3) by auto
  show "\<exists>bs. view g y = Some (v, bs)" if "\<forall>a \<ge> nextAddr h. heapCells g a = heapCells h' a"
  proof (rule exI[of _ bs], rule view_local[OF h'(2)], rule ballI)
    fix a assume "a \<in> set bs"
    with h'(3) have "nextAddr h \<le> a" by auto
    with that show "heapCells g a = heapCells h' a" by blast
  qed
  show "view g x = Some (v, as)" if "\<forall>a < nextAddr h. heapCells g a = heapCells h' a"
  proof (rule view_local[OF assms(2)])
    show "\<forall>a \<in> set as. heapCells g a = heapCells h a"
      using that h'(1) view_below[OF assms(1,2)] by (auto simp: extends_def)
  qed
qed

end

end
