(* ===== verification/Copier_Rules.thy ===== *)
theory Copier_Rules
  imports Object_Store
begin

text \<open>
  The interfaces of the object store are closed under what Go builds types from: a viewer or copier of
  the elements gives one of pointers, of slices, of pairs and of structs that hold them. The generated
  deep copies are instances, type by type.
\<close>

lemmas bind_conv = bind_eq_Some_conv

subsection \<open>Viewers\<close>

lemma viewer_flat: "viewer viewFlat"
  by unfold_locales (simp_all add: viewFlat_def)

lemma viewPointerE:
  assumes "viewPointer ty view h p = Some (v, as)"
  obtains (Nil) "p = None" "v = None" "as = []"
  | (Obj) q x w bs where "p = Some q" "load ty h q = Some x" "view h x = Some (w, bs)" "v = Some w" "as = fst q # bs"
  using assms by (auto simp: viewPointer_def bind_conv split: option.splits)

lemma viewPointerI:
  "load ty h q = Some x \<Longrightarrow> view h x = Some (w, bs) \<Longrightarrow> viewPointer ty view h (Some q) = Some (Some w, fst q # bs)"
  by (simp add: viewPointer_def)

lemma viewer_pointer:
  assumes "viewer view"
  shows "viewer (viewPointer ty view)"
proof unfold_locales
  fix h h' :: heap and p v as
  assume v: "viewPointer ty view h p = Some (v, as)" and eq: "\<forall>a \<in> set as. heapCells h' a = heapCells h a"
  from v show "viewPointer ty view h' p = Some (v, as)"
  proof (cases rule: viewPointerE)
    case Nil
    then show ?thesis by (simp add: viewPointer_def)
  next
    case (Obj q x w bs)
    have "heapCells h' (fst q) = heapCells h (fst q)" using eq Obj(5) by simp
    from load_cong[OF this, of ty] Obj(2) have "load ty h' q = Some x" by simp
    moreover have "view h' x = Some (w, bs)"
      by (rule viewer.view_local[OF assms Obj(3)]) (use eq Obj(5) in simp)
    ultimately show ?thesis unfolding Obj(1,4,5) by (rule viewPointerI)
  qed
next
  fix h p v as a
  assume v: "viewPointer ty view h p = Some (v, as)" and a: "a \<in> set as"
  from v show "heapCells h a \<noteq> None"
  proof (cases rule: viewPointerE)
    case Nil
    with a show ?thesis by simp
  next
    case (Obj q x w bs)
    have "heapCells h (fst q) \<noteq> None" using loadD[OF Obj(2)] loadArray_live by blast
    with a Obj(5) viewer.view_live[OF assms Obj(3)] show ?thesis by auto
  qed
qed

lemma viewSliceE:
  assumes "viewSlice ty view h s = Some (v, as)"
  obtains (Nil) "s = NilSlice" "v = None" "as = []"
  | (Array) a off n cp xs ws where "s = Slice a off n cp" "loadArray ty h a = Some xs" "n \<le> cp \<and> off + cp \<le> length xs"
      "list_all2 (\<lambda>x w. view h x = Some w) (take n (drop off xs)) ws" "v = Some (map fst ws)"
      "as = a # concat (map snd ws)"
  using assms by (auto simp: viewSlice_def bind_conv those_Some_iff split: slice.splits if_splits)

lemma viewSliceI:
  assumes "loadArray ty h a = Some xs" and "n \<le> cp \<and> off + cp \<le> length xs"
    and "list_all2 (\<lambda>x w. view h x = Some w) (take n (drop off xs)) ws"
  shows "viewSlice ty view h (Slice a off n cp) = Some (Some (map fst ws), a # concat (map snd ws))"
  using assms(1,2) list_all2_those[OF assms(3)] by (simp add: viewSlice_def)

lemma viewer_slice:
  assumes "viewer view"
  shows "viewer (viewSlice ty view)"
proof unfold_locales
  fix h h' :: heap and s v as
  assume v: "viewSlice ty view h s = Some (v, as)" and eq: "\<forall>a \<in> set as. heapCells h' a = heapCells h a"
  from v show "viewSlice ty view h' s = Some (v, as)"
  proof (cases rule: viewSliceE)
    case Nil
    then show ?thesis by (simp add: viewSlice_def)
  next
    case (Array a off n cp xs ws)
    have "heapCells h' a = heapCells h a" using eq Array(6) by simp
    from loadArray_cong[OF this, of ty] Array(2) have arr: "loadArray ty h' a = Some xs" by simp
    have "view h' x = Some w" if "w \<in> set ws" "view h x = Some w" for x w
    proof -
      obtain u bs where w: "w = (u, bs)" by (cases w)
      show ?thesis unfolding w
        by (rule viewer.view_local[OF assms that(2)[unfolded w]]) (use that(1) w eq Array(6) in force)
    qed
    then have "list_all2 (\<lambda>x w. view h' x = Some w) (take n (drop off xs)) ws"
      using Array(4) by (auto elim: list.rel_mono_strong)
    then show ?thesis unfolding Array(1,5,6) by (rule viewSliceI[OF arr Array(3)])
  qed
next
  fix h s v as a
  assume v: "viewSlice ty view h s = Some (v, as)" and a: "a \<in> set as"
  from v show "heapCells h a \<noteq> None"
  proof (cases rule: viewSliceE)
    case Nil
    with a show ?thesis by simp
  next
    case (Array b off n cp xs ws)
    have "heapCells h b \<noteq> None" by (rule loadArray_live[OF Array(2)])
    moreover have "heapCells h a \<noteq> None" if "w \<in> set ws" "a \<in> set (snd w)" for w
    proof -
      have "\<exists>j < length ws. ws ! j = w" using that(1) unfolding in_set_conv_nth by blast
      then obtain j where j: "j < length ws" "ws ! j = w" by blast
      have "view h (take n (drop off xs) ! j) = Some (fst w, snd w)"
        using list_all2_nthD2[OF Array(4) j(1)] j(2) by simp
      from viewer.view_live[OF assms this that(2)] show ?thesis .
    qed
    ultimately show ?thesis using a Array(6) by auto
  qed
qed

lemma viewBothE:
  assumes "viewBoth f g h z = Some (v, cs)"
  obtains u as w bs where "f h (fst z) = Some (u, as)" "g h (snd z) = Some (w, bs)" "v = (u, w)" "cs = as @ bs"
  using assms by (auto simp: viewBoth_def bind_conv)

lemma viewer_both:
  assumes "viewer f" and "viewer g"
  shows "viewer (viewBoth f g)"
proof unfold_locales
  fix h h' :: heap and z v cs
  assume v: "viewBoth f g h z = Some (v, cs)" and eq: "\<forall>a \<in> set cs. heapCells h' a = heapCells h a"
  from v obtain u as w bs where b: "f h (fst z) = Some (u, as)" "g h (snd z) = Some (w, bs)" "v = (u, w)" "cs = as @ bs"
    by (rule viewBothE)
  have "f h' (fst z) = Some (u, as)" "g h' (snd z) = Some (w, bs)"
    by (rule viewer.view_local[OF assms(1) b(1)] viewer.view_local[OF assms(2) b(2)], use eq b(4) in simp)+
  with b(3,4) show "viewBoth f g h' z = Some (v, cs)" by (simp add: viewBoth_def)
next
  fix h z v cs a
  assume v: "viewBoth f g h z = Some (v, cs)" and a: "a \<in> set cs"
  from v obtain u as w bs where b: "f h (fst z) = Some (u, as)" "g h (snd z) = Some (w, bs)" "cs = as @ bs"
    by (rule viewBothE)
  with a viewer.view_live[OF assms(1) b(1)] viewer.view_live[OF assms(2) b(2)]
  show "heapCells h a \<noteq> None" by auto
qed

text \<open>A struct is seen through the parts of it that refer to storage, and rebuilt from them.\<close>

lemma viewer_struct:
  assumes "viewer v" and "\<And>h x. view h x = do { (a, as) \<leftarrow> v h (dest x); Some (val x a, as) }"
  shows "viewer view"
proof unfold_locales
  fix h h' :: heap and x w as
  assume "view h x = Some (w, as)" and eq: "\<forall>a \<in> set as. heapCells h' a = heapCells h a"
  then obtain a where a: "v h (dest x) = Some (a, as)" "w = val x a" by (auto simp: assms(2) bind_conv)
  from viewer.view_local[OF assms(1) a(1) eq] a(2) show "view h' x = Some (w, as)" by (simp add: assms(2))
next
  fix h x w as a
  assume "view h x = Some (w, as)" "a \<in> set as"
  then show "heapCells h a \<noteq> None" using viewer.view_live[OF assms(1)] by (auto simp: assms(2) bind_conv)
qed

subsection \<open>Copiers\<close>

lemma copierI:
  assumes "viewer view"
    and "\<And>h x v as. heap_ok h \<Longrightarrow> view h x = Some (v, as) \<Longrightarrow>
      \<exists>y h' bs. copy x h = Some (y, h') \<and> heap_ok h' \<and> extends h h' \<and> view h' y = Some (v, bs) \<and>
        set bs \<subseteq> {nextAddr h..<nextAddr h'} \<and> distinct bs"
  shows "copier view copy"
  using assms by (simp add: copier_def copier_axioms_def)

lemma copier_viewer: "copier view copy \<Longrightarrow> viewer view"
  by (simp add: copier_def)

lemma copier_flat: "copier viewFlat (\<lambda>x h. Some (x, h))"
  by (rule copierI[OF viewer_flat]) (simp add: viewFlat_def)

lemma copier_struct:
  assumes "copier v f" and "\<And>h x. view h x = do { (a, as) \<leftarrow> v h (dest x); Some (val x a, as) }"
    and "\<And>x h. copy x h = do { (y, h') \<leftarrow> f (dest x) h; Some (upd x y, h') }"
    and "\<And>x y. dest (upd x y) = y" and "\<And>x y a. val (upd x y) a = val x a"
  shows "copier view copy"
proof (rule copierI)
  show "viewer view" by (rule viewer_struct[OF copier_viewer[OF assms(1)] assms(2)])
  fix h x w as
  assume ok: "heap_ok h" and "view h x = Some (w, as)"
  then obtain a where a: "v h (dest x) = Some (a, as)" "w = val x a" by (auto simp: assms(2) bind_conv)
  from copier.copy_ok[OF assms(1) ok a(1)] obtain y h' bs where
    "f (dest x) h = Some (y, h')" "heap_ok h'" "extends h h'" "v h' y = Some (a, bs)"
    "set bs \<subseteq> {nextAddr h..<nextAddr h'}" "distinct bs" by blast
  with a(2) show "\<exists>y h' bs. copy x h = Some (y, h') \<and> heap_ok h' \<and> extends h h' \<and> view h' y = Some (w, bs) \<and>
      set bs \<subseteq> {nextAddr h..<nextAddr h'} \<and> distinct bs"
    by (simp add: assms(2-5))
qed

lemma copier_both:
  assumes "copier v f" and "copier u g"
  shows "copier (viewBoth v u) (copyBoth f g)"
proof (rule copierI)
  show "viewer (viewBoth v u)" by (rule viewer_both[OF assms[THEN copier_viewer]])
  fix h z w cs
  assume ok: "heap_ok h" and "viewBoth v u h z = Some (w, cs)"
  then obtain a as b bs where z: "v h (fst z) = Some (a, as)" "u h (snd z) = Some (b, bs)" "w = (a, b)"
    by (elim viewBothE)
  from copier.copy_ok[OF assms(1) ok z(1)] obtain x h1 as' where
    x: "f (fst z) h = Some (x, h1)" "heap_ok h1" "extends h h1" "v h1 x = Some (a, as')"
      "set as' \<subseteq> {nextAddr h..<nextAddr h1}" "distinct as'" by blast
  have "u h1 (snd z) = Some (b, bs)"
    by (rule viewer.view_extends[OF copier_viewer[OF assms(2)] ok z(2) x(3)])
  from copier.copy_ok[OF assms(2) x(2) this] obtain y h2 bs' where
    y: "g (snd z) h1 = Some (y, h2)" "heap_ok h2" "extends h1 h2" "u h2 y = Some (b, bs')"
      "set bs' \<subseteq> {nextAddr h1..<nextAddr h2}" "distinct bs'" by blast
  have "v h2 x = Some (a, as')"
    by (rule viewer.view_extends[OF copier_viewer[OF assms(1)] x(2,4) y(3)])
  moreover have "set (as' @ bs') \<subseteq> {nextAddr h..<nextAddr h2}" "distinct (as' @ bs')"
    using x(5,6) y(5,6) extends_next[OF x(3)] extends_next[OF y(3)] by force+
  ultimately show "\<exists>y h' bs. copyBoth f g z h = Some (y, h') \<and> heap_ok h' \<and> extends h h' \<and>
      viewBoth v u h' y = Some (w, bs) \<and> set bs \<subseteq> {nextAddr h..<nextAddr h'} \<and> distinct bs"
    using x(1) y(1,2,4) extends_trans[OF x(3) y(3)] z(3) by (simp add: copyBoth_def viewBoth_def)
qed

lemma copier_pointer:
  assumes "array_type ty" and "copier view f"
  shows "copier (viewPointer ty view) (copyPointer ty f)"
proof (rule copierI)
  note V = copier_viewer[OF assms(2)]
  show "viewer (viewPointer ty view)" by (rule viewer_pointer[OF V])
  fix h p v as
  assume ok: "heap_ok h" and v: "viewPointer ty view h p = Some (v, as)"
  from v show "\<exists>y h' bs. copyPointer ty f p h = Some (y, h') \<and> heap_ok h' \<and> extends h h' \<and>
      viewPointer ty view h' y = Some (v, bs) \<and> set bs \<subseteq> {nextAddr h..<nextAddr h'} \<and> distinct bs"
  proof (cases rule: viewPointerE)
    case Nil
    with ok show ?thesis by (simp add: copyPointer_def viewPointer_def)
  next
    case (Obj q x w bs)
    let ?b = "nextAddr h"
    define h1 where "h1 = snd (newArray (mkCell ty [zeroElem ty]) h)"
    have h1: "newArray (mkCell ty [zeroElem ty]) h = (?b, h1)" "heap_ok h1" "extends h h1" "nextAddr h1 = Suc ?b"
      "loadArray ty h1 ?b = Some [zeroElem ty]"
      using newArray_ok[OF ok] newArray_extends array_type.loadArray_new[OF assms(1)]
      by (simp_all add: h1_def newArray_simps prod_eq_iff)
    have "fst q < nextAddr h" using loadD[OF Obj(2)] loadArray_live heap_okD[OF ok] by blast
    then have ld: "load ty h1 q = Some x" using load_cong[of h1 q h ty] h1(3) Obj(2) by (simp add: extends_def)
    have "view h1 x = Some (w, bs)" by (rule viewer.view_extends[OF V ok Obj(3) h1(3)])
    from copier.copy_ok[OF assms(2) h1(2) this] obtain y h2 cs where
      y: "f x h1 = Some (y, h2)" "heap_ok h2" "extends h1 h2" "view h2 y = Some (w, cs)"
        "set cs \<subseteq> {nextAddr h1..<nextAddr h2}" "distinct cs" by blast
    define h3 where "h3 = storeArray ty ?b [y] h2"
    have b2: "?b < nextAddr h2" using extends_next[OF y(3)] h1(4) by simp
    have "heapCells h2 ?b = heapCells h1 ?b" using y(3) h1(4) by (simp add: extends_def)
    then have st: "store ty (?b, 0) y h2 = Some h3"
      using array_type.store_ok[OF assms(1), of h2 ?b "[zeroElem ty]" 0 y] loadArray_cong[of h2 ?b h1 ty] h1(5)
      by (simp add: h3_def)
    have b: "?b \<notin> set cs" using y(5) h1(4) by auto
    have v3: "view h3 y = Some (w, cs)"
      by (rule viewer.view_local[OF V y(4)]) (use b in \<open>auto simp: h3_def\<close>)
    have l3: "load ty h3 (?b, 0) = Some y"
      by (simp add: load_def h3_def array_type.loadArray_storeArray[OF assms(1)])
    have e: "extends h h3" using extends_trans[OF h1(3) y(3)] by (simp add: extends_def h3_def)
    have ok3: "heap_ok h3" unfolding h3_def by (rule storeArray_ok[OF y(2) b2])
    have run: "copyPointer ty f p h = Some (Some (?b, 0), h3)"
      using Obj(1) h1(1) ld y(1) st by (simp add: copyPointer_def)
    have vp: "viewPointer ty view h3 (Some (?b, 0)) = Some (v, ?b # cs)"
      using viewPointerI[where view = view, OF l3 v3] Obj(4) by simp
    have set3: "set (?b # cs) \<subseteq> {nextAddr h..<nextAddr h3}" "distinct (?b # cs)"
      using y(5,6) b b2 h1(4) by (auto simp: h3_def)
    show ?thesis using run ok3 e vp set3 by blast
  qed
qed

text \<open>
  The loop over the indices: what is done is at the front of the new array, the rest of it is still zero,
  and no address below the new array has changed.
\<close>

lemma copyElems_ok:
  assumes at: "array_type ty" and cp: "copier view f"
  shows "heap_ok h \<Longrightarrow> loadArray ty h a = Some xs \<Longrightarrow> off + n \<le> length xs \<Longrightarrow> a \<noteq> b \<Longrightarrow> b < nextAddr h \<Longrightarrow>
    loadArray ty h b = Some (ys @ zs) \<Longrightarrow> length ys + length zs = n \<Longrightarrow>
    list_all2 (\<lambda>x w. view h x = Some w) (drop (length ys) (take n (drop off xs))) ws \<Longrightarrow>
    \<forall>w \<in> set ws. b \<notin> set (snd w) \<Longrightarrow>
    \<exists>h' us vs. copyElems ty f a off b [length ys..<n] h = Some h' \<and> heap_ok h' \<and> nextAddr h \<le> nextAddr h' \<and>
      (\<forall>c < nextAddr h. c \<noteq> b \<longrightarrow> heapCells h' c = heapCells h c) \<and> loadArray ty h' b = Some (ys @ us) \<and>
      list_all2 (\<lambda>x w. view h' x = Some w) us vs \<and> map fst vs = map fst ws \<and>
      set (concat (map snd vs)) \<subseteq> {nextAddr h..<nextAddr h'} \<and> distinct (concat (map snd vs))"
proof (induction zs arbitrary: h ys ws)
  case Nil
  then show ?case by simp
next
  case (Cons z zs)
  note V = copier_viewer[OF cp]
  let ?i = "length ys"
  have i: "?i < n" using Cons.prems(7) by simp
  then have "drop ?i (take n (drop off xs)) = xs ! (off + ?i) # drop (Suc ?i) (take n (drop off xs))"
    using Cons.prems(3) Cons_nth_drop_Suc[of ?i "take n (drop off xs)"] by simp
  with Cons.prems(8) obtain w ws' where ws: "ws = w # ws'" "view h (xs ! (off + ?i)) = Some w"
    "list_all2 (\<lambda>x w. view h x = Some w) (drop (Suc ?i) (take n (drop off xs))) ws'"
    by (auto simp: list_all2_Cons1)
  obtain v as where w: "w = (v, as)" by (cases w)
  have ld: "load ty h (a, off + ?i) = Some (xs ! (off + ?i))"
    using Cons.prems(2,3) i by (simp add: load_def)
  from copier.copy_ok[OF cp Cons.prems(1) ws(2)[unfolded w]] obtain y h1 bs where
    y: "f (xs ! (off + ?i)) h = Some (y, h1)" "heap_ok h1" "extends h h1" "view h1 y = Some (v, bs)"
      "set bs \<subseteq> {nextAddr h..<nextAddr h1}" "distinct bs" by blast
  have b1: "b < nextAddr h1" using Cons.prems(5) extends_next[OF y(3)] by simp
  have keep: "heapCells h1 c = heapCells h c" if "c < nextAddr h" for c using y(3) that by (simp add: extends_def)
  have lb: "loadArray ty h1 b = Some (ys @ z # zs)"
    using loadArray_cong[OF keep[OF Cons.prems(5)], of ty] Cons.prems(6) by simp
  define h2 where "h2 = storeArray ty b ((ys @ [y]) @ zs) h1"
  have st: "store ty (b, ?i) y h1 = Some h2"
    using array_type.store_ok[OF at lb, of ?i y] by (simp add: h2_def)
  have "a < nextAddr h" using heap_okD[OF Cons.prems(1) loadArray_live[OF Cons.prems(2)]] .
  then have la: "loadArray ty h2 a = Some xs"
    using Cons.prems(2,4) loadArray_cong[OF keep, of a ty] by (simp add: h2_def array_type.loadArray_storeArray[OF at])
  have lb2: "loadArray ty h2 b = Some ((ys @ [y]) @ zs)"
    by (simp add: h2_def array_type.loadArray_storeArray[OF at])
  have "view h2 x = Some u" if "view h x = Some u" "b \<notin> set (snd u)" for x u
  proof -
    obtain p qs where u: "u = (p, qs)" by (cases u)
    have "view h1 x = Some (p, qs)" by (rule viewer.view_extends[OF V Cons.prems(1) that(1)[unfolded u] y(3)])
    then show ?thesis unfolding u
      by (rule viewer.view_local[OF V]) (use that(2) u in \<open>auto simp: h2_def\<close>)
  qed
  then have rest: "list_all2 (\<lambda>x w. view h2 x = Some w) (drop (length (ys @ [y])) (take n (drop off xs))) ws'"
    using ws(1,3) Cons.prems(9) by (auto elim!: list.rel_mono_strong)
  have ok2: "heap_ok h2" unfolding h2_def by (rule storeArray_ok[OF y(2) b1])
  have n2: "nextAddr h2 = nextAddr h1" by (simp add: h2_def)
  have len: "length (ys @ [y]) + length zs = n" using Cons.prems(7) by simp
  have nb: "\<forall>w \<in> set ws'. b \<notin> set (snd w)" using Cons.prems(9) ws(1) by simp
  obtain h' us vs where IH: "copyElems ty f a off b [length (ys @ [y])..<n] h2 = Some h'" "heap_ok h'"
    "nextAddr h2 \<le> nextAddr h'" "\<And>c. c < nextAddr h2 \<Longrightarrow> c \<noteq> b \<Longrightarrow> heapCells h' c = heapCells h2 c"
    "loadArray ty h' b = Some ((ys @ [y]) @ us)" "list_all2 (\<lambda>x w. view h' x = Some w) us vs"
    "map fst vs = map fst ws'" "set (concat (map snd vs)) \<subseteq> {nextAddr h2..<nextAddr h'}"
    "distinct (concat (map snd vs))"
    using Cons.IH[OF ok2 la Cons.prems(3,4) _ lb2 len rest nb] b1 n2 by auto
  have run: "copyElems ty f a off b [?i..<n] h = Some h'"
    using IH(1) ld y(1) st by (simp add: upt_conv_Cons[OF i])
  have old: "\<forall>c < nextAddr h. c \<noteq> b \<longrightarrow> heapCells h' c = heapCells h c"
    using IH(4) n2 keep extends_next[OF y(3)] by (simp add: h2_def)
  have vy: "view h' y = Some (v, bs)"
  proof (rule viewer.view_local[OF V y(4)], rule ballI)
    fix c assume "c \<in> set bs"
    with y(5) have "nextAddr h \<le> c" "c < nextAddr h1" by auto
    moreover from this Cons.prems(5) have "c \<noteq> b" by simp
    ultimately show "heapCells h' c = heapCells h1 c" using IH(4)[of c] n2 by (simp add: h2_def)
  qed
  have fresh: "set (concat (map snd ((v, bs) # vs))) \<subseteq> {nextAddr h..<nextAddr h'}"
    "distinct (concat (map snd ((v, bs) # vs)))"
    using y(5,6) IH(3,8,9) n2 extends_next[OF y(3)] by force+
  have "nextAddr h \<le> nextAddr h'" using IH(3) n2 extends_next[OF y(3)] by simp
  moreover have "loadArray ty h' b = Some (ys @ y # us)" using IH(5) by simp
  moreover have "list_all2 (\<lambda>x w. view h' x = Some w) (y # us) ((v, bs) # vs)" using vy IH(6) by simp
  moreover have "map fst ((v, bs) # vs) = map fst ws" using IH(7) ws(1) w by simp
  ultimately show ?case using run IH(2) old fresh by blast
qed

lemma newArray_facts:
  assumes "array_type ty" and "heap_ok h" and "newArray (mkCell ty xs) h = (b, h1)"
  shows "b = nextAddr h" "heap_ok h1" "extends h h1" "nextAddr h1 = Suc (nextAddr h)" "loadArray ty h1 b = Some xs"
proof -
  have e: "b = fst (newArray (mkCell ty xs) h)" "h1 = snd (newArray (mkCell ty xs) h)" using assms(3) by simp_all
  show "b = nextAddr h" "heap_ok h1" "extends h h1" "nextAddr h1 = Suc (nextAddr h)" "loadArray ty h1 b = Some xs"
    unfolding e using newArray_ok[OF assms(2)] newArray_extends array_type.loadArray_new[OF assms(1)]
    by (simp_all add: newArray_simps)
qed

lemma slice_view_below:
  assumes "viewer view" and "heap_ok h" and "viewSlice ty view h (Slice a off n cp) = Some (v, as)"
  shows "a < nextAddr h" "\<forall>c \<in> set as. c < nextAddr h"
proof -
  have "a \<in> set as" using assms(3) by (cases rule: viewSliceE) auto
  then show "a < nextAddr h" "\<forall>c \<in> set as. c < nextAddr h"
    using viewer.view_below[OF viewer_slice[OF assms(1)] assms(2,3)] by auto
qed

lemma copier_slice:
  assumes "array_type ty" and "copier view f"
  shows "copier (viewSlice ty view) (copySlice ty f)"
proof (rule copierI)
  note V = copier_viewer[OF assms(2)]
  show "viewer (viewSlice ty view)" by (rule viewer_slice[OF V])
  fix h s v as
  assume ok: "heap_ok h" and v: "viewSlice ty view h s = Some (v, as)"
  from v show "\<exists>y h' bs. copySlice ty f s h = Some (y, h') \<and> heap_ok h' \<and> extends h h' \<and>
      viewSlice ty view h' y = Some (v, bs) \<and> set bs \<subseteq> {nextAddr h..<nextAddr h'} \<and> distinct bs"
  proof (cases rule: viewSliceE)
    case Nil
    with ok show ?thesis by (simp add: copySlice_def viewSlice_def)
  next
    case (Array a off n cp xs ws)
    obtain b h1 where new: "newArray (mkCell ty (replicate n (zeroElem ty))) h = (b, h1)"
      by (cases "newArray (mkCell ty (replicate n (zeroElem ty))) h")
    note N = newArray_facts[OF assms(1) ok new]
    have below: "a < nextAddr h" "\<forall>c \<in> set as. c < nextAddr h"
      using slice_view_below[OF V ok v[unfolded Array(1)]] by auto
    have la: "loadArray ty h1 a = Some xs"
      using loadArray_cong[of h1 a h ty] N(3) below(1) Array(2) by (simp add: extends_def)
    have elems: "list_all2 (\<lambda>x w. view h1 x = Some w) (take n (drop off xs)) ws"
      using Array(4) viewer.view_extends[OF V ok _ N(3)] by (auto elim!: list.rel_mono_strong)
    have nb: "\<forall>w \<in> set ws. b \<notin> set (snd w)" using below(2) Array(6) N(1) by force
    have len: "off + n \<le> length xs" using Array(3) by simp
    have b1: "b < nextAddr h1" "a \<noteq> b" using N(1,4) below(1) by simp_all
    obtain h' us vs where L: "copyElems ty f a off b [0..<n] h1 = Some h'" "heap_ok h'" "nextAddr h1 \<le> nextAddr h'"
      "\<forall>c < nextAddr h1. c \<noteq> b \<longrightarrow> heapCells h' c = heapCells h1 c" "loadArray ty h' b = Some us"
      "list_all2 (\<lambda>x w. view h' x = Some w) us vs" "map fst vs = map fst ws"
      "set (concat (map snd vs)) \<subseteq> {nextAddr h1..<nextAddr h'}" "distinct (concat (map snd vs))"
      using copyElems_ok[OF assms N(2) la len b1(2,1), of "[]" "replicate n (zeroElem ty)" ws]
        N(5) elems nb by auto
    have "length us = n"
      using list_all2_lengthD[OF L(6)] arg_cong[OF L(7), of length] list_all2_lengthD[OF Array(4)] len by simp
    then have "viewSlice ty view h' (Slice b 0 n n) = Some (Some (map fst vs), b # concat (map snd vs))"
      by (intro viewSliceI[OF L(5)]) (use L(6) in simp_all)
    moreover have "set (b # concat (map snd vs)) \<subseteq> {nextAddr h..<nextAddr h'}" "distinct (b # concat (map snd vs))"
      using L(3,8,9) N(1,4) by force+
    moreover have "extends h h'" using N(1,3,4) L(3,4) by (auto simp: extends_def)
    moreover have "copySlice ty f s h = Some (Slice b 0 n n, h')" using Array(1) new L(1) by (simp add: copySlice_def)
    ultimately show ?thesis using L(2,7) Array(5) by (metis)
  qed
qed

lemma those_flat: "those (map (viewFlat h) xs) = Some (map (\<lambda>x. (x, [])) xs)"
  by (induction xs) (simp_all add: viewFlat_def)

text \<open>For elements without storage of their own, the builtin \<open>copy\<close> does what the loop does.\<close>

lemma copier_flat_slice:
  assumes "array_type ty"
  shows "copier (viewSlice ty viewFlat) (copyFlatSlice ty)"
proof (rule copierI)
  show "viewer (viewSlice ty viewFlat)" by (rule viewer_slice[OF viewer_flat])
  fix h s v as
  assume ok: "heap_ok h" and v: "viewSlice ty viewFlat h s = Some (v :: 'a list option, as)"
  show "\<exists>y h' bs. copyFlatSlice ty s h = Some (y, h') \<and> heap_ok h' \<and> extends h h' \<and>
      viewSlice ty viewFlat h' y = Some (v, bs) \<and> set bs \<subseteq> {nextAddr h..<nextAddr h'} \<and> distinct bs"
  proof (cases s)
    case NilSlice
    with ok v show ?thesis by (simp add: copyFlatSlice_def viewSlice_def)
  next
    case (Slice a off n cp)
    obtain b h1 where new: "newArray (mkCell ty (replicate n (zeroElem ty))) h = (b, h1)"
      by (cases "newArray (mkCell ty (replicate n (zeroElem ty))) h")
    note N = newArray_facts[OF assms ok new]
    from v Slice obtain xs where xs: "loadArray ty h a = Some xs" "n \<le> cp \<and> off + cp \<le> length xs"
      "v = Some (take n (drop off xs))"
      by (auto simp: viewSlice_def bind_conv those_flat comp_def split: if_splits)
    from xs(2) have len: "n \<le> length xs - off" "off + n \<le> length xs" by auto
    have "a < nextAddr h" using slice_view_below(1)[OF viewer_flat ok v[unfolded Slice]] .
    then have "loadArray ty h1 a = Some xs"
      using loadArray_cong[of h1 a h ty] N(3) xs(1) by (simp add: extends_def)
    then have run: "copyFlatSlice ty s h = Some (Slice b 0 n n, storeArray ty b (take n (drop off xs)) h1)"
      using Slice new N(5) len by (simp add: copyFlatSlice_def goCopy_def)
    let ?h = "storeArray ty b (take n (drop off xs)) h1"
    have "viewSlice ty viewFlat ?h (Slice b 0 n n) = Some (v, [b])"
      using xs(3) len by (simp add: viewSlice_def array_type.loadArray_storeArray[OF assms] those_flat comp_def
          map_replicate_const concat_eq_Nil_conv)
    moreover have "heap_ok ?h" by (rule storeArray_ok[OF N(2)]) (simp add: N(1,4))
    moreover have "extends h ?h" using N(1,3) by (auto simp: extends_def)
    moreover have "set [b] \<subseteq> {nextAddr h..<nextAddr ?h}" "distinct [b]" using N(1,4) by auto
    ultimately show ?thesis using run by blast
  qed
qed

end
