(* ===== verification/Deep_Copy.thy ===== *)
theory Deep_Copy
  imports Copier_Rules
begin

text \<open>
  \<open>api/v1alpha1/zz_generated.deepcopy.go\<close>: for every type of the API a \<open>DeepCopyInto\<close> and a
  \<open>DeepCopy\<close>, and a \<open>DeepCopyObject\<close> for the two that are runtime objects. \<open>DeepCopyInto\<close> is the
  function from the struct \<open>*in\<close> to the struct \<open>*out\<close>, with the heap in which the parts behind
  pointers and slices are copied; \<open>DeepCopy\<close> works on pointers. The deep copies of types of other
  packages (\<open>metav1.Time\<close>, \<open>corev1.Taint\<close>, \<open>metav1.LabelSelector\<close>, the metadata) are a
  parameter; of those whose type has storage it is assumed that they are copiers themselves, so a call of
  one that is left out shares storage. Each function is shown to be an instance of \<open>copier\<close>.
\<close>

subsection \<open>Types of the arrays\<close>

definition int32sType :: "int32 arrayType" where
  "int32sType = \<lparr>mkCell = Int32s, readCell = (\<lambda>c. case c of Int32s xs \<Rightarrow> Some xs | _ \<Rightarrow> None), zeroElem = 0\<rparr>"

definition stringsType :: "string arrayType" where
  "stringsType = \<lparr>mkCell = Strings, readCell = (\<lambda>c. case c of Strings xs \<Rightarrow> Some xs | _ \<Rightarrow> None), zeroElem = []\<rparr>"

definition timesType :: "time arrayType" where
  "timesType = \<lparr>mkCell = Times, readCell = (\<lambda>c. case c of Times xs \<Rightarrow> Some xs | _ \<Rightarrow> None), zeroElem = zeroTime\<rparr>"

definition mapsType :: "string_map arrayType" where
  "mapsType = \<lparr>mkCell = Maps, readCell = (\<lambda>c. case c of Maps xs \<Rightarrow> Some xs | _ \<Rightarrow> None), zeroElem = fmempty\<rparr>"

definition labelRequirementsType :: "requirementObj arrayType" where
  "labelRequirementsType = \<lparr>mkCell = LabelRequirements,
     readCell = (\<lambda>c. case c of LabelRequirements xs \<Rightarrow> Some xs | _ \<Rightarrow> None),
     zeroElem = \<lparr>loKey = [], loOperator = [], loValues = NilSlice\<rparr>\<rparr>"

definition requirementsType :: "conditionRequirement arrayType" where
  "requirementsType = \<lparr>mkCell = Requirements, readCell = (\<lambda>c. case c of Requirements xs \<Rightarrow> Some xs | _ \<Rightarrow> None),
     zeroElem = \<lparr>reqType = [], requiredStatus = []\<rparr>\<rparr>"

definition resultsType :: "conditionEvaluationResult arrayType" where
  "resultsType = \<lparr>mkCell = Results, readCell = (\<lambda>c. case c of Results xs \<Rightarrow> Some xs | _ \<Rightarrow> None),
     zeroElem = \<lparr>resType = [], resCurrentStatus = [], resRequiredStatus = [], resSatisfied = False,
       resMissing = False\<rparr>\<rparr>"

definition failuresType :: "nodeFailure arrayType" where
  "failuresType = \<lparr>mkCell = Failures, readCell = (\<lambda>c. case c of Failures xs \<Rightarrow> Some xs | _ \<Rightarrow> None),
     zeroElem = \<lparr>failNodeName = [], failReason = [], failMessage = [], failLastEvaluationTime = zeroTime\<rparr>\<rparr>"

definition zeroDryRunObj :: dryRunObj where
  "zeroDryRunObj = \<lparr>drAffected = None, drToAdd = None, drToRemove = None, drRisky = None, drSummary = []\<rparr>"

definition dryRunsType :: "dryRunObj arrayType" where
  "dryRunsType = \<lparr>mkCell = DryRuns, readCell = (\<lambda>c. case c of DryRuns xs \<Rightarrow> Some xs | _ \<Rightarrow> None),
     zeroElem = zeroDryRunObj\<rparr>"

definition evaluationsType :: "evaluationObj arrayType" where
  "evaluationsType = \<lparr>mkCell = Evaluations, readCell = (\<lambda>c. case c of Evaluations xs \<Rightarrow> Some xs | _ \<Rightarrow> None),
     zeroElem = \<lparr>eoNodeName = [], eoResults = NilSlice, eoTaintStatus = [], eoTime = zeroTime\<rparr>\<rparr>"

definition zeroSpecObj :: specObj where
  "zeroSpecObj = \<lparr>soConditions = NilSlice, soMode = [],
     soTaint = \<lparr>toKey = [], toValue = [], toEffect = [], toTimeAdded = None\<rparr>,
     soSelector = \<lparr>soMatchLabels = None, soMatchExpressions = NilSlice\<rparr>, soDryRun = False\<rparr>"

definition specsType :: "specObj arrayType" where
  "specsType = \<lparr>mkCell = Specs, readCell = (\<lambda>c. case c of Specs xs \<Rightarrow> Some xs | _ \<Rightarrow> None), zeroElem = zeroSpecObj\<rparr>"

definition zeroStatusObj :: statusObj where
  "zeroStatusObj = \<lparr>stGeneration = 0, stApplied = NilSlice, stFailed = NilSlice, stEvaluations = NilSlice,
     stDryRun = zeroDryRunObj\<rparr>"

definition statusesType :: "statusObj arrayType" where
  "statusesType = \<lparr>mkCell = Statuses, readCell = (\<lambda>c. case c of Statuses xs \<Rightarrow> Some xs | _ \<Rightarrow> None),
     zeroElem = zeroStatusObj\<rparr>"

definition rulesType :: "ruleObj arrayType" where
  "rulesType = \<lparr>mkCell = Rules, readCell = (\<lambda>c. case c of Rules xs \<Rightarrow> Some xs | _ \<Rightarrow> None),
     zeroElem = \<lparr>roTypeMeta = \<lparr>tmKind = [], tmAPIVersion = []\<rparr>,
       roMeta = \<lparr>omName = [], omResourceVersion = [], omGeneration = 0, omDeletionTimestamp = None, omLabels = None,
         omAnnotations = None, omFinalizers = NilSlice\<rparr>,
       roSpec = zeroSpecObj, roStatus = zeroStatusObj\<rparr>\<rparr>"

definition ruleListsType :: "ruleListObj arrayType" where
  "ruleListsType = \<lparr>mkCell = RuleLists, readCell = (\<lambda>c. case c of RuleLists xs \<Rightarrow> Some xs | _ \<Rightarrow> None),
     zeroElem = \<lparr>rlTypeMeta = \<lparr>tmKind = [], tmAPIVersion = []\<rparr>,
       rlMeta = \<lparr>lmResourceVersion = [], lmContinue = []\<rparr>, rlItems = NilSlice\<rparr>\<rparr>"

lemmas array_types = int32sType_def stringsType_def timesType_def mapsType_def labelRequirementsType_def requirementsType_def resultsType_def failuresType_def
  dryRunsType_def evaluationsType_def specsType_def statusesType_def rulesType_def ruleListsType_def

interpretation int32s: array_type int32sType by unfold_locales (simp add: array_types)
interpretation strings: array_type stringsType by unfold_locales (simp add: array_types)
interpretation times: array_type timesType by unfold_locales (simp add: array_types)
interpretation maps: array_type mapsType by unfold_locales (simp add: array_types)
interpretation labelRequirements: array_type labelRequirementsType by unfold_locales (simp add: array_types)
interpretation requirements: array_type requirementsType by unfold_locales (simp add: array_types)
interpretation results: array_type resultsType by unfold_locales (simp add: array_types)
interpretation failureArrays: array_type failuresType by unfold_locales (simp add: array_types)
interpretation dryRuns: array_type dryRunsType by unfold_locales (simp add: array_types)
interpretation evaluationArrays: array_type evaluationsType by unfold_locales (simp add: array_types)
interpretation specs: array_type specsType by unfold_locales (simp add: array_types)
interpretation statuses: array_type statusesType by unfold_locales (simp add: array_types)
interpretation rules: array_type rulesType by unfold_locales (simp add: array_types)
interpretation ruleLists: array_type ruleListsType by unfold_locales (simp add: array_types)

subsection \<open>Deep copies of other packages\<close>

text \<open>
  What the objects of other packages stand for: a nil slice counts as the empty list and a nil map as the
  empty one. The metadata of a rule is read with its name, version, generation, deletion time and
  finalizers as the other theories have them, and its label and annotation maps.
\<close>

record metaValue =
  mvName :: string
  mvResourceVersion :: string
  mvGeneration :: int64
  mvDeletionTimestamp :: "time option"
  mvLabels :: "string_map option"
  mvAnnotations :: "string_map option"
  mvFinalizers :: "string list"

fun nilAsEmptyMap :: "string_map option \<Rightarrow> string_map" where
  "nilAsEmptyMap None = fmempty"
| "nilAsEmptyMap (Some m) = m"

definition viewTaint :: "heap \<Rightarrow> taintObj \<Rightarrow> (taint \<times> addr list) option" where
  "viewTaint h x = do {
     (t, as) \<leftarrow> viewPointer timesType viewFlat h (toTimeAdded x);
     Some (\<lparr>taintKey = toKey x, taintValue = toValue x, taintEffect = toEffect x, timeAdded = t\<rparr>, as) }"

definition viewLabelRequirement :: "heap \<Rightarrow> requirementObj \<Rightarrow> (labelSelectorRequirement \<times> addr list) option" where
  "viewLabelRequirement h x = do {
     (vs, as) \<leftarrow> viewSlice stringsType viewFlat h (loValues x);
     Some (\<lparr>lsrKey = loKey x, lsrOperator = loOperator x, lsrValues = nilAsEmpty vs\<rparr>, as) }"

definition viewLabelSelector :: "heap \<Rightarrow> selectorObj \<Rightarrow> (labelSelector \<times> addr list) option" where
  "viewLabelSelector h x = do {
     (m, as) \<leftarrow> viewPointer mapsType viewFlat h (soMatchLabels x);
     (es, bs) \<leftarrow> viewSlice labelRequirementsType viewLabelRequirement h (soMatchExpressions x);
     Some (\<lparr>matchLabels = nilAsEmptyMap m, matchExpressions = nilAsEmpty es\<rparr>, as @ bs) }"

definition viewObjectMeta :: "heap \<Rightarrow> objectMeta \<Rightarrow> (metaValue \<times> addr list) option" where
  "viewObjectMeta h x = do {
     (t, as) \<leftarrow> viewPointer timesType viewFlat h (omDeletionTimestamp x);
     (l, bs) \<leftarrow> viewPointer mapsType viewFlat h (omLabels x);
     (n, cs) \<leftarrow> viewPointer mapsType viewFlat h (omAnnotations x);
     (f, ds) \<leftarrow> viewSlice stringsType viewFlat h (omFinalizers x);
     Some (\<lparr>mvName = omName x, mvResourceVersion = omResourceVersion x, mvGeneration = omGeneration x,
       mvDeletionTimestamp = t, mvLabels = l, mvAnnotations = n, mvFinalizers = nilAsEmpty f\<rparr>, as @ bs @ cs @ ds) }"

record copyLib =
  copyTime :: "time \<Rightarrow> time"
  copyTaint :: "taintObj \<Rightarrow> heap \<Rightarrow> (taintObj \<times> heap) option"
  copyLabelSelector :: "selectorObj \<Rightarrow> heap \<Rightarrow> (selectorObj \<times> heap) option"
  copyObjectMeta :: "objectMeta \<Rightarrow> heap \<Rightarrow> (objectMeta \<times> heap) option"
  copyListMeta :: "listMeta \<Rightarrow> listMeta"

text \<open>
  Documented behaviour: a deep copy is equal to what it was made of, and what it refers to is new storage.
\<close>

definition copy_contract :: "copyLib \<Rightarrow> bool" where
  "copy_contract lib \<longleftrightarrow> (\<forall>t. copyTime lib t = t) \<and> (\<forall>m. copyListMeta lib m = m) \<and>
     copier viewTaint (copyTaint lib) \<and> copier viewLabelSelector (copyLabelSelector lib) \<and>
     copier viewObjectMeta (copyObjectMeta lib)"

lemma copy_contractD:
  assumes "copy_contract lib"
  shows "copyTime lib t = t" "copyListMeta lib l = l"
  using assms by (simp_all add: copy_contract_def)

lemma copy_contract_copiers:
  assumes "copy_contract lib"
  shows "copier viewTaint (copyTaint lib)" "copier viewLabelSelector (copyLabelSelector lib)"
    "copier viewObjectMeta (copyObjectMeta lib)"
  using assms by (simp_all add: copy_contract_def)

subsection \<open>The generated functions\<close>

text \<open>\<open>*out = *in\<close>: for a struct without pointers and slices this is all there is.\<close>

definition assign :: "'x \<Rightarrow> heap \<Rightarrow> ('x \<times> heap) option" where
  "assign x h = Some (x, h)"

definition ConditionEvaluationResult_DeepCopyInto ::
    "conditionEvaluationResult \<Rightarrow> heap \<Rightarrow> (conditionEvaluationResult \<times> heap) option" where
  "ConditionEvaluationResult_DeepCopyInto x h = assign x h"

definition ConditionEvaluationResult_DeepCopy :: "ptr option \<Rightarrow> heap \<Rightarrow> (ptr option \<times> heap) option" where
  "ConditionEvaluationResult_DeepCopy p h = copyPointer resultsType ConditionEvaluationResult_DeepCopyInto p h"

definition ConditionRequirement_DeepCopyInto ::
    "conditionRequirement \<Rightarrow> heap \<Rightarrow> (conditionRequirement \<times> heap) option" where
  "ConditionRequirement_DeepCopyInto x h = assign x h"

definition ConditionRequirement_DeepCopy :: "ptr option \<Rightarrow> heap \<Rightarrow> (ptr option \<times> heap) option" where
  "ConditionRequirement_DeepCopy p h = copyPointer requirementsType ConditionRequirement_DeepCopyInto p h"

definition DryRunResults_DeepCopyInto :: "dryRunObj \<Rightarrow> heap \<Rightarrow> (dryRunObj \<times> heap) option" where
  "DryRunResults_DeepCopyInto x h = do {
     (a, h) \<leftarrow> copyPointer int32sType assign (drAffected x) h;
     (b, h) \<leftarrow> copyPointer int32sType assign (drToAdd x) h;
     (c, h) \<leftarrow> copyPointer int32sType assign (drToRemove x) h;
     (d, h) \<leftarrow> copyPointer int32sType assign (drRisky x) h;
     Some (x\<lparr>drAffected := a, drToAdd := b, drToRemove := c, drRisky := d\<rparr>, h) }"

definition DryRunResults_DeepCopy :: "ptr option \<Rightarrow> heap \<Rightarrow> (ptr option \<times> heap) option" where
  "DryRunResults_DeepCopy p h = copyPointer dryRunsType DryRunResults_DeepCopyInto p h"

definition NodeEvaluation_DeepCopyInto :: "copyLib \<Rightarrow> evaluationObj \<Rightarrow> heap \<Rightarrow> (evaluationObj \<times> heap) option" where
  "NodeEvaluation_DeepCopyInto lib x h = do {
     (rs, h) \<leftarrow> copyFlatSlice resultsType (eoResults x) h;
     Some (x\<lparr>eoResults := rs, eoTime := copyTime lib (eoTime x)\<rparr>, h) }"

definition NodeEvaluation_DeepCopy :: "copyLib \<Rightarrow> ptr option \<Rightarrow> heap \<Rightarrow> (ptr option \<times> heap) option" where
  "NodeEvaluation_DeepCopy lib p h = copyPointer evaluationsType (NodeEvaluation_DeepCopyInto lib) p h"

definition NodeFailure_DeepCopyInto :: "copyLib \<Rightarrow> nodeFailure \<Rightarrow> heap \<Rightarrow> (nodeFailure \<times> heap) option" where
  "NodeFailure_DeepCopyInto lib x h =
     assign (x\<lparr>failLastEvaluationTime := copyTime lib (failLastEvaluationTime x)\<rparr>) h"

definition NodeFailure_DeepCopy :: "copyLib \<Rightarrow> ptr option \<Rightarrow> heap \<Rightarrow> (ptr option \<times> heap) option" where
  "NodeFailure_DeepCopy lib p h = copyPointer failuresType (NodeFailure_DeepCopyInto lib) p h"

definition NodeReadinessRuleSpec_DeepCopyInto :: "copyLib \<Rightarrow> specObj \<Rightarrow> heap \<Rightarrow> (specObj \<times> heap) option" where
  "NodeReadinessRuleSpec_DeepCopyInto lib x h = do {
     (cs, h) \<leftarrow> copyFlatSlice requirementsType (soConditions x) h;
     (t, h) \<leftarrow> copyTaint lib (soTaint x) h;
     (s, h) \<leftarrow> copyLabelSelector lib (soSelector x) h;
     Some (x\<lparr>soConditions := cs, soTaint := t, soSelector := s\<rparr>, h) }"

definition NodeReadinessRuleSpec_DeepCopy :: "copyLib \<Rightarrow> ptr option \<Rightarrow> heap \<Rightarrow> (ptr option \<times> heap) option" where
  "NodeReadinessRuleSpec_DeepCopy lib p h = copyPointer specsType (NodeReadinessRuleSpec_DeepCopyInto lib) p h"

definition NodeReadinessRuleStatus_DeepCopyInto :: "copyLib \<Rightarrow> statusObj \<Rightarrow> heap \<Rightarrow> (statusObj \<times> heap) option" where
  "NodeReadinessRuleStatus_DeepCopyInto lib x h = do {
     (as, h) \<leftarrow> copyFlatSlice stringsType (stApplied x) h;
     (fs, h) \<leftarrow> copySlice failuresType (NodeFailure_DeepCopyInto lib) (stFailed x) h;
     (es, h) \<leftarrow> copySlice evaluationsType (NodeEvaluation_DeepCopyInto lib) (stEvaluations x) h;
     (d, h) \<leftarrow> DryRunResults_DeepCopyInto (stDryRun x) h;
     Some (x\<lparr>stApplied := as, stFailed := fs, stEvaluations := es, stDryRun := d\<rparr>, h) }"

definition NodeReadinessRuleStatus_DeepCopy :: "copyLib \<Rightarrow> ptr option \<Rightarrow> heap \<Rightarrow> (ptr option \<times> heap) option" where
  "NodeReadinessRuleStatus_DeepCopy lib p h = copyPointer statusesType (NodeReadinessRuleStatus_DeepCopyInto lib) p h"

definition NodeReadinessRule_DeepCopyInto :: "copyLib \<Rightarrow> ruleObj \<Rightarrow> heap \<Rightarrow> (ruleObj \<times> heap) option" where
  "NodeReadinessRule_DeepCopyInto lib x h = do {
     (m, h) \<leftarrow> copyObjectMeta lib (roMeta x) h;
     (sp, h) \<leftarrow> NodeReadinessRuleSpec_DeepCopyInto lib (roSpec x) h;
     (st, h) \<leftarrow> NodeReadinessRuleStatus_DeepCopyInto lib (roStatus x) h;
     Some (x\<lparr>roTypeMeta := roTypeMeta x, roMeta := m, roSpec := sp, roStatus := st\<rparr>, h) }"

definition NodeReadinessRule_DeepCopy :: "copyLib \<Rightarrow> ptr option \<Rightarrow> heap \<Rightarrow> (ptr option \<times> heap) option" where
  "NodeReadinessRule_DeepCopy lib p h = copyPointer rulesType (NodeReadinessRule_DeepCopyInto lib) p h"

definition NodeReadinessRuleList_DeepCopyInto :: "copyLib \<Rightarrow> ruleListObj \<Rightarrow> heap \<Rightarrow> (ruleListObj \<times> heap) option" where
  "NodeReadinessRuleList_DeepCopyInto lib x h = do {
     (is, h) \<leftarrow> copySlice rulesType (NodeReadinessRule_DeepCopyInto lib) (rlItems x) h;
     Some (x\<lparr>rlTypeMeta := rlTypeMeta x, rlMeta := copyListMeta lib (rlMeta x), rlItems := is\<rparr>, h) }"

definition NodeReadinessRuleList_DeepCopy :: "copyLib \<Rightarrow> ptr option \<Rightarrow> heap \<Rightarrow> (ptr option \<times> heap) option" where
  "NodeReadinessRuleList_DeepCopy lib p h = copyPointer ruleListsType (NodeReadinessRuleList_DeepCopyInto lib) p h"

text \<open>A \<open>runtime.Object\<close> is an interface value: nil, or a pointer with its type.\<close>

datatype runtimeObject = RuleObject ptr | RuleListObject ptr

definition NodeReadinessRule_DeepCopyObject :: "copyLib \<Rightarrow> ptr option \<Rightarrow> heap \<Rightarrow> (runtimeObject option \<times> heap) option" where
  "NodeReadinessRule_DeepCopyObject lib p h = do {
     (c, h) \<leftarrow> NodeReadinessRule_DeepCopy lib p h;
     Some (case c of Some q \<Rightarrow> (Some (RuleObject q), h) | None \<Rightarrow> (None, h)) }"

definition NodeReadinessRuleList_DeepCopyObject :: "copyLib \<Rightarrow> ptr option \<Rightarrow> heap \<Rightarrow> (runtimeObject option \<times> heap) option" where
  "NodeReadinessRuleList_DeepCopyObject lib p h = do {
     (c, h) \<leftarrow> NodeReadinessRuleList_DeepCopy lib p h;
     Some (case c of Some q \<Rightarrow> (Some (RuleListObject q), h) | None \<Rightarrow> (None, h)) }"

subsection \<open>What an object stands for\<close>

text \<open>The value of an object in the other theories. A nil slice counts as the empty list there.\<close>

definition viewDryRun :: "heap \<Rightarrow> dryRunObj \<Rightarrow> (dryRunResults \<times> addr list) option" where
  "viewDryRun h x = do {
     (a, as) \<leftarrow> viewPointer int32sType viewFlat h (drAffected x);
     (b, bs) \<leftarrow> viewPointer int32sType viewFlat h (drToAdd x);
     (c, cs) \<leftarrow> viewPointer int32sType viewFlat h (drToRemove x);
     (d, ds) \<leftarrow> viewPointer int32sType viewFlat h (drRisky x);
     Some (\<lparr>affectedNodes = a, taintsToAdd = b, taintsToRemove = c, riskyOperations = d,
       summary = drSummary x\<rparr>, as @ bs @ cs @ ds) }"

definition viewEvaluation :: "heap \<Rightarrow> evaluationObj \<Rightarrow> (nodeEvaluation \<times> addr list) option" where
  "viewEvaluation h x = do {
     (rs, as) \<leftarrow> viewSlice resultsType viewFlat h (eoResults x);
     Some (\<lparr>evalNodeName = eoNodeName x, conditionResults = nilAsEmpty rs, taintStatus = eoTaintStatus x,
       evalLastEvaluationTime = eoTime x\<rparr>, as) }"

definition viewSpec :: "heap \<Rightarrow> specObj \<Rightarrow> (nodeReadinessRuleSpec \<times> addr list) option" where
  "viewSpec h x = do {
     (cs, as) \<leftarrow> viewSlice requirementsType viewFlat h (soConditions x);
     (t, bs) \<leftarrow> viewTaint h (soTaint x);
     (s, cs') \<leftarrow> viewLabelSelector h (soSelector x);
     Some (\<lparr>conditions = nilAsEmpty cs, enforcementMode = soMode x, ruleTaint = t, nodeSelector = s,
       dryRun = soDryRun x\<rparr>, as @ bs @ cs') }"

definition viewStatus :: "heap \<Rightarrow> statusObj \<Rightarrow> (nodeReadinessRuleStatus \<times> addr list) option" where
  "viewStatus h x = do {
     (a, as) \<leftarrow> viewSlice stringsType viewFlat h (stApplied x);
     (f, fs) \<leftarrow> viewSlice failuresType viewFlat h (stFailed x);
     (e, es) \<leftarrow> viewSlice evaluationsType viewEvaluation h (stEvaluations x);
     (d, ds) \<leftarrow> viewDryRun h (stDryRun x);
     Some (\<lparr>observedGeneration = stGeneration x, appliedNodes = nilAsEmpty a, failedNodes = nilAsEmpty f,
       nodeEvaluations = nilAsEmpty e, dryRunOutcome = d\<rparr>, as @ fs @ es @ ds) }"

definition viewRule :: "heap \<Rightarrow> ruleObj \<Rightarrow> (nodeReadinessRule \<times> addr list) option" where
  "viewRule h x = do {
     (m, as) \<leftarrow> viewObjectMeta h (roMeta x);
     (sp, bs) \<leftarrow> viewSpec h (roSpec x);
     (st, cs) \<leftarrow> viewStatus h (roStatus x);
     Some (\<lparr>ruleName = mvName m, ruleResourceVersion = mvResourceVersion m, generation = mvGeneration m,
       deletionTimestamp = mvDeletionTimestamp m, finalizers = mvFinalizers m, ruleSpec = sp,
       ruleStatus = st\<rparr>, as @ bs @ cs) }"

definition viewRuleList :: "heap \<Rightarrow> ruleListObj \<Rightarrow> ((typeMeta \<times> listMeta \<times> nodeReadinessRule list option) \<times> addr list) option" where
  "viewRuleList h x = do {
     (rs, as) \<leftarrow> viewSlice rulesType viewRule h (rlItems x);
     Some ((rlTypeMeta x, rlMeta x, rs), as) }"

definition viewRulePtr :: "heap \<Rightarrow> ptr option \<Rightarrow> (nodeReadinessRule option \<times> addr list) option" where
  "viewRulePtr = viewPointer rulesType viewRule"

definition viewRuleListPtr :: "heap \<Rightarrow> ptr option \<Rightarrow>
    ((typeMeta \<times> listMeta \<times> nodeReadinessRule list option) option \<times> addr list) option" where
  "viewRuleListPtr = viewPointer ruleListsType viewRuleList"

subsection \<open>Every generated function is a copier\<close>

lemma assign_eq: "assign = (\<lambda>x h. Some (x, h))"
  by (simp add: assign_def fun_eq_iff)

interpretation assignment: copier viewFlat assign
  unfolding assign_eq by (rule copier_flat)

interpretation ConditionEvaluationResult: copier viewFlat ConditionEvaluationResult_DeepCopyInto
  using assignment.copier_axioms by (simp add: ConditionEvaluationResult_DeepCopyInto_def[abs_def] assign_def[abs_def])

interpretation ConditionRequirement: copier viewFlat ConditionRequirement_DeepCopyInto
  using assignment.copier_axioms by (simp add: ConditionRequirement_DeepCopyInto_def[abs_def] assign_def[abs_def])

lemma copier_int32: "copier (viewPointer int32sType viewFlat) (copyPointer int32sType assign)"
  by (rule copier_pointer[OF int32s.array_type_axioms assignment.copier_axioms])

lemmas pairing = viewBoth_def copyBoth_def Option.bind_assoc split_def

interpretation DryRunResults: copier viewDryRun DryRunResults_DeepCopyInto
proof (rule copier_struct)
  show "copier (viewBoth (viewPointer int32sType viewFlat) (viewBoth (viewPointer int32sType viewFlat)
      (viewBoth (viewPointer int32sType viewFlat) (viewPointer int32sType viewFlat))))
    (copyBoth (copyPointer int32sType assign) (copyBoth (copyPointer int32sType assign)
      (copyBoth (copyPointer int32sType assign) (copyPointer int32sType assign))))"
    by (intro copier_both copier_int32)
  let ?dest = "\<lambda>x. (drAffected x, drToAdd x, drToRemove x, drRisky x)"
  let ?val = "\<lambda>x v. \<lparr>affectedNodes = fst v, taintsToAdd = fst (snd v), taintsToRemove = fst (snd (snd v)),
    riskyOperations = snd (snd (snd v)), summary = drSummary x\<rparr>"
  let ?upd = "\<lambda>x v. x\<lparr>drAffected := fst v, drToAdd := fst (snd v), drToRemove := fst (snd (snd v)),
    drRisky := snd (snd (snd v))\<rparr>"
  show "viewDryRun h x = do { (a, as) \<leftarrow> viewBoth (viewPointer int32sType viewFlat) (viewBoth
      (viewPointer int32sType viewFlat) (viewBoth (viewPointer int32sType viewFlat)
      (viewPointer int32sType viewFlat))) h (?dest x); Some (?val x a, as) }" for h x
    by (simp add: viewDryRun_def pairing)
  show "DryRunResults_DeepCopyInto x h = do { (y, h') \<leftarrow> copyBoth (copyPointer int32sType assign) (copyBoth
      (copyPointer int32sType assign) (copyBoth (copyPointer int32sType assign)
      (copyPointer int32sType assign))) (?dest x) h; Some (?upd x y, h') }" for x h
    by (simp add: DryRunResults_DeepCopyInto_def pairing)
  show "?dest (?upd x y) = y" for x y by simp
  show "?val (?upd x y) a = ?val x a" for x y a by simp
qed

text \<open>The copiers of the structs with library parts, given that the library copies are equal.\<close>

lemma copier_failure:
  assumes "copy_contract lib"
  shows "copier viewFlat (NodeFailure_DeepCopyInto lib)"
proof -
  have "NodeFailure_DeepCopyInto lib = assign"
    by (simp add: NodeFailure_DeepCopyInto_def fun_eq_iff copy_contractD[OF assms])
  then show ?thesis by (simp add: assignment.copier_axioms)
qed

lemma copier_evaluation:
  assumes "copy_contract lib"
  shows "copier viewEvaluation (NodeEvaluation_DeepCopyInto lib)"
proof (rule copier_struct)
  show "copier (viewSlice resultsType viewFlat) (copyFlatSlice resultsType)"
    by (rule copier_flat_slice[OF results.array_type_axioms])
  let ?val = "\<lambda>x rs. \<lparr>evalNodeName = eoNodeName x, conditionResults = nilAsEmpty rs,
    taintStatus = eoTaintStatus x, evalLastEvaluationTime = eoTime x\<rparr>"
  let ?upd = "\<lambda>x rs. x\<lparr>eoResults := rs\<rparr>"
  show "viewEvaluation h x = do { (rs, as) \<leftarrow> viewSlice resultsType viewFlat h (eoResults x); Some (?val x rs, as) }" for h x
    by (simp add: viewEvaluation_def)
  show "NodeEvaluation_DeepCopyInto lib x h = do { (rs, h') \<leftarrow> copyFlatSlice resultsType (eoResults x) h; Some (?upd x rs, h') }" for x h
    by (simp add: NodeEvaluation_DeepCopyInto_def copy_contractD[OF assms])
  show "eoResults (?upd x y) = y" for x y by simp
  show "?val (?upd x y) a = ?val x a" for x y a by simp
qed

lemma copier_spec:
  assumes "copy_contract lib"
  shows "copier viewSpec (NodeReadinessRuleSpec_DeepCopyInto lib)"
proof (rule copier_struct)
  let ?v = "viewBoth (viewSlice requirementsType viewFlat) (viewBoth viewTaint viewLabelSelector)"
  let ?f = "copyBoth (copyFlatSlice requirementsType) (copyBoth (copyTaint lib) (copyLabelSelector lib))"
  show "copier ?v ?f"
    by (intro copier_both copier_flat_slice requirements.array_type_axioms copy_contract_copiers[OF assms])
  let ?dest = "\<lambda>x. (soConditions x, soTaint x, soSelector x)"
  let ?val = "\<lambda>x v. \<lparr>conditions = nilAsEmpty (fst v), enforcementMode = soMode x, ruleTaint = fst (snd v),
    nodeSelector = snd (snd v), dryRun = soDryRun x\<rparr>"
  let ?upd = "\<lambda>x v. x\<lparr>soConditions := fst v, soTaint := fst (snd v), soSelector := snd (snd v)\<rparr>"
  show "viewSpec h x = do { (a, as) \<leftarrow> ?v h (?dest x); Some (?val x a, as) }" for h x
    by (simp add: viewSpec_def pairing)
  show "NodeReadinessRuleSpec_DeepCopyInto lib x h = do { (y, h') \<leftarrow> ?f (?dest x) h; Some (?upd x y, h') }" for x h
    by (simp add: NodeReadinessRuleSpec_DeepCopyInto_def pairing)
  show "?dest (?upd x y) = y" for x y by simp
  show "?val (?upd x y) a = ?val x a" for x y a by simp
qed

lemma copier_status:
  assumes "copy_contract lib"
  shows "copier viewStatus (NodeReadinessRuleStatus_DeepCopyInto lib)"
proof (rule copier_struct)
  let ?v = "viewBoth (viewSlice stringsType viewFlat) (viewBoth (viewSlice failuresType viewFlat)
    (viewBoth (viewSlice evaluationsType viewEvaluation) viewDryRun))"
  let ?f = "copyBoth (copyFlatSlice stringsType) (copyBoth (copySlice failuresType (NodeFailure_DeepCopyInto lib))
    (copyBoth (copySlice evaluationsType (NodeEvaluation_DeepCopyInto lib)) DryRunResults_DeepCopyInto))"
  show "copier ?v ?f"
    by (intro copier_both copier_flat_slice copier_slice copier_failure[OF assms] copier_evaluation[OF assms]
        strings.array_type_axioms failureArrays.array_type_axioms evaluationArrays.array_type_axioms
        DryRunResults.copier_axioms)
  let ?dest = "\<lambda>x. (stApplied x, stFailed x, stEvaluations x, stDryRun x)"
  let ?val = "\<lambda>x v. \<lparr>observedGeneration = stGeneration x, appliedNodes = nilAsEmpty (fst v),
    failedNodes = nilAsEmpty (fst (snd v)), nodeEvaluations = nilAsEmpty (fst (snd (snd v))),
    dryRunOutcome = snd (snd (snd v))\<rparr>"
  let ?upd = "\<lambda>x v. x\<lparr>stApplied := fst v, stFailed := fst (snd v), stEvaluations := fst (snd (snd v)),
    stDryRun := snd (snd (snd v))\<rparr>"
  show "viewStatus h x = do { (a, as) \<leftarrow> ?v h (?dest x); Some (?val x a, as) }" for h x
    by (simp add: viewStatus_def pairing)
  show "NodeReadinessRuleStatus_DeepCopyInto lib x h = do { (y, h') \<leftarrow> ?f (?dest x) h; Some (?upd x y, h') }" for x h
    by (simp add: NodeReadinessRuleStatus_DeepCopyInto_def pairing)
  show "?dest (?upd x y) = y" for x y by simp
  show "?val (?upd x y) a = ?val x a" for x y a by simp
qed

lemma copier_rule:
  assumes "copy_contract lib"
  shows "copier viewRule (NodeReadinessRule_DeepCopyInto lib)"
proof (rule copier_struct)
  let ?v = "viewBoth viewObjectMeta (viewBoth viewSpec viewStatus)"
  let ?f = "copyBoth (copyObjectMeta lib)
    (copyBoth (NodeReadinessRuleSpec_DeepCopyInto lib) (NodeReadinessRuleStatus_DeepCopyInto lib))"
  show "copier ?v ?f" by (intro copier_both copy_contract_copiers[OF assms] copier_spec[OF assms] copier_status[OF assms])
  let ?dest = "\<lambda>x. (roMeta x, roSpec x, roStatus x)"
  let ?val = "\<lambda>x v. \<lparr>ruleName = mvName (fst v), ruleResourceVersion = mvResourceVersion (fst v),
    generation = mvGeneration (fst v), deletionTimestamp = mvDeletionTimestamp (fst v),
    finalizers = mvFinalizers (fst v), ruleSpec = fst (snd v), ruleStatus = snd (snd v)\<rparr>"
  let ?upd = "\<lambda>x v. x\<lparr>roMeta := fst v, roSpec := fst (snd v), roStatus := snd (snd v)\<rparr>"
  show "viewRule h x = do { (a, as) \<leftarrow> ?v h (?dest x); Some (?val x a, as) }" for h x
    by (simp add: viewRule_def pairing)
  show "NodeReadinessRule_DeepCopyInto lib x h = do { (y, h') \<leftarrow> ?f (?dest x) h; Some (?upd x y, h') }" for x h
    by (simp add: NodeReadinessRule_DeepCopyInto_def pairing)
  show "?dest (?upd x y) = y" for x y by simp
  show "?val (?upd x y) a = ?val x a" for x y a by simp
qed

lemma copier_ruleList:
  assumes "copy_contract lib"
  shows "copier viewRuleList (NodeReadinessRuleList_DeepCopyInto lib)"
proof (rule copier_struct)
  show "copier (viewSlice rulesType viewRule) (copySlice rulesType (NodeReadinessRule_DeepCopyInto lib))"
    by (rule copier_slice[OF rules.array_type_axioms copier_rule[OF assms]])
  let ?val = "\<lambda>x rs. (rlTypeMeta x, rlMeta x, rs)" and ?upd = "\<lambda>x rs. x\<lparr>rlItems := rs\<rparr>"
  show "viewRuleList h x = do { (rs, as) \<leftarrow> viewSlice rulesType viewRule h (rlItems x); Some (?val x rs, as) }" for h x
    by (simp add: viewRuleList_def)
  show "NodeReadinessRuleList_DeepCopyInto lib x h =
      do { (rs, h') \<leftarrow> copySlice rulesType (NodeReadinessRule_DeepCopyInto lib) (rlItems x) h; Some (?upd x rs, h') }" for x h
    by (simp add: NodeReadinessRuleList_DeepCopyInto_def copy_contractD[OF assms])
  show "rlItems (?upd x y) = y" for x y by simp
  show "?val (?upd x y) a = ?val x a" for x y a by simp
qed

lemma NodeReadinessRule_DeepCopy_eq: "NodeReadinessRule_DeepCopy lib = copyPointer rulesType (NodeReadinessRule_DeepCopyInto lib)"
  by (simp add: NodeReadinessRule_DeepCopy_def fun_eq_iff)

lemma NodeReadinessRuleList_DeepCopy_eq:
  "NodeReadinessRuleList_DeepCopy lib = copyPointer ruleListsType (NodeReadinessRuleList_DeepCopyInto lib)"
  by (simp add: NodeReadinessRuleList_DeepCopy_def fun_eq_iff)

lemma copier_rulePtr: "copy_contract lib \<Longrightarrow> copier viewRulePtr (NodeReadinessRule_DeepCopy lib)"
  unfolding viewRulePtr_def NodeReadinessRule_DeepCopy_eq
  by (intro copier_pointer rules.array_type_axioms copier_rule)

lemma copier_ruleListPtr: "copy_contract lib \<Longrightarrow> copier viewRuleListPtr (NodeReadinessRuleList_DeepCopy lib)"
  unfolding viewRuleListPtr_def NodeReadinessRuleList_DeepCopy_eq
  by (intro copier_pointer ruleLists.array_type_axioms copier_ruleList)

text \<open>Kind and version of a copied rule are those of the original; the views leave them out.\<close>

lemma NodeReadinessRule_DeepCopyInto_typeMeta:
  "NodeReadinessRule_DeepCopyInto lib x h = Some (y, h') \<Longrightarrow> roTypeMeta y = roTypeMeta x"
  by (auto simp: NodeReadinessRule_DeepCopyInto_def bind_conv)

subsection \<open>Copies and their originals\<close>

text \<open>What a copier promises about the storage of original and copy, for any later heap.\<close>

lemma copied_apart:
  assumes "copier view copy" and "heap_ok h" and "view h x = Some (v, as)"
  shows "\<exists>y h' bs. copy x h = Some (y, h') \<and> heap_ok h' \<and> extends h h' \<and> view h' y = Some (v, bs) \<and>
    view h' x = Some (v, as) \<and> set as \<inter> set bs = {} \<and> distinct bs \<and>
    (\<forall>g. (\<forall>a. a \<notin> set as \<longrightarrow> heapCells g a = heapCells h' a) \<longrightarrow> view g y = Some (v, bs)) \<and>
    (\<forall>g. (\<forall>a. a \<notin> set bs \<longrightarrow> heapCells g a = heapCells h' a) \<longrightarrow> view g x = Some (v, as))"
proof -
  note V = copier_viewer[OF assms(1)]
  obtain y h' bs where c: "copy x h = Some (y, h')" "heap_ok h'" "extends h h'" "view h' y = Some (v, bs)"
    "set bs \<subseteq> {nextAddr h..<nextAddr h'}" "distinct bs"
    using copier.copy_ok[OF assms] by blast
  have x: "view h' x = Some (v, as)" by (rule viewer.view_extends[OF V assms(2,3) c(3)])
  have "a < nextAddr h" if "a \<in> set as" for a using viewer.view_below[OF V assms(2,3)] that by auto
  then have dis: "set as \<inter> set bs = {}" using c(5) by force
  have "\<forall>g. (\<forall>a. a \<notin> set as \<longrightarrow> heapCells g a = heapCells h' a) \<longrightarrow> view g y = Some (v, bs)"
    using viewer.view_local[OF V c(4)] dis by blast
  moreover have "\<forall>g. (\<forall>a. a \<notin> set bs \<longrightarrow> heapCells g a = heapCells h' a) \<longrightarrow> view g x = Some (v, as)"
    using viewer.view_local[OF V x] dis by blast
  ultimately show ?thesis using c(1-4,6) x dis by blast
qed

text \<open>The library as the witnesses instantiate it, and a small heap: a rule with one evaluation.\<close>

definition plainTaint :: "taintObj \<Rightarrow> heap \<Rightarrow> (taintObj \<times> heap) option" where
  "plainTaint x h = do {
     (t, h) \<leftarrow> copyPointer timesType assign (toTimeAdded x) h;
     Some (x\<lparr>toTimeAdded := t\<rparr>, h) }"

definition plainRequirement :: "requirementObj \<Rightarrow> heap \<Rightarrow> (requirementObj \<times> heap) option" where
  "plainRequirement x h = do {
     (vs, h) \<leftarrow> copyFlatSlice stringsType (loValues x) h;
     Some (x\<lparr>loValues := vs\<rparr>, h) }"

definition plainSelector :: "selectorObj \<Rightarrow> heap \<Rightarrow> (selectorObj \<times> heap) option" where
  "plainSelector x h = do {
     (m, h) \<leftarrow> copyPointer mapsType assign (soMatchLabels x) h;
     (es, h) \<leftarrow> copySlice labelRequirementsType plainRequirement (soMatchExpressions x) h;
     Some (x\<lparr>soMatchLabels := m, soMatchExpressions := es\<rparr>, h) }"

definition plainMeta :: "objectMeta \<Rightarrow> heap \<Rightarrow> (objectMeta \<times> heap) option" where
  "plainMeta x h = do {
     (t, h) \<leftarrow> copyPointer timesType assign (omDeletionTimestamp x) h;
     (l, h) \<leftarrow> copyPointer mapsType assign (omLabels x) h;
     (n, h) \<leftarrow> copyPointer mapsType assign (omAnnotations x) h;
     (f, h) \<leftarrow> copyFlatSlice stringsType (omFinalizers x) h;
     Some (x\<lparr>omDeletionTimestamp := t, omLabels := l, omAnnotations := n, omFinalizers := f\<rparr>, h) }"

definition plain_lib :: copyLib where
  "plain_lib = \<lparr>copyTime = (\<lambda>t. t), copyTaint = plainTaint, copyLabelSelector = plainSelector,
     copyObjectMeta = plainMeta, copyListMeta = (\<lambda>m. m)\<rparr>"

lemma copier_plainTaint: "copier viewTaint plainTaint"
proof (rule copier_struct)
  show "copier (viewPointer timesType viewFlat) (copyPointer timesType assign)"
    by (rule copier_pointer[OF times.array_type_axioms assignment.copier_axioms])
  let ?val = "\<lambda>x t. \<lparr>taintKey = toKey x, taintValue = toValue x, taintEffect = toEffect x, timeAdded = t\<rparr>"
  show "viewTaint h x = do { (t, as) \<leftarrow> viewPointer timesType viewFlat h (toTimeAdded x); Some (?val x t, as) }" for h x
    by (simp add: viewTaint_def)
  show "plainTaint x h = do { (t, h') \<leftarrow> copyPointer timesType assign (toTimeAdded x) h;
      Some ((\<lambda>x t. x\<lparr>toTimeAdded := t\<rparr>) x t, h') }" for x h
    by (simp add: plainTaint_def)
qed simp_all

lemma copier_plainRequirement: "copier viewLabelRequirement plainRequirement"
proof (rule copier_struct)
  show "copier (viewSlice stringsType viewFlat) (copyFlatSlice stringsType)"
    by (rule copier_flat_slice[OF strings.array_type_axioms])
  let ?val = "\<lambda>x vs. \<lparr>lsrKey = loKey x, lsrOperator = loOperator x, lsrValues = nilAsEmpty vs\<rparr>"
  show "viewLabelRequirement h x = do { (vs, as) \<leftarrow> viewSlice stringsType viewFlat h (loValues x); Some (?val x vs, as) }" for h x
    by (simp add: viewLabelRequirement_def)
  show "plainRequirement x h = do { (vs, h') \<leftarrow> copyFlatSlice stringsType (loValues x) h;
      Some ((\<lambda>x vs. x\<lparr>loValues := vs\<rparr>) x vs, h') }" for x h
    by (simp add: plainRequirement_def)
qed simp_all

lemma copier_map: "copier (viewPointer mapsType viewFlat) (copyPointer mapsType assign)"
  by (rule copier_pointer[OF maps.array_type_axioms assignment.copier_axioms])

lemma copier_plainSelector: "copier viewLabelSelector plainSelector"
proof (rule copier_struct)
  let ?v = "viewBoth (viewPointer mapsType viewFlat) (viewSlice labelRequirementsType viewLabelRequirement)"
  let ?f = "copyBoth (copyPointer mapsType assign) (copySlice labelRequirementsType plainRequirement)"
  show "copier ?v ?f"
    by (intro copier_both copier_map copier_slice labelRequirements.array_type_axioms copier_plainRequirement)
  let ?dest = "\<lambda>x. (soMatchLabels x, soMatchExpressions x)"
  let ?val = "\<lambda>x v. \<lparr>matchLabels = nilAsEmptyMap (fst v), matchExpressions = nilAsEmpty (snd v)\<rparr>"
  let ?upd = "\<lambda>x v. x\<lparr>soMatchLabels := fst v, soMatchExpressions := snd v\<rparr>"
  show "viewLabelSelector h x = do { (a, as) \<leftarrow> ?v h (?dest x); Some (?val x a, as) }" for h x
    by (simp add: viewLabelSelector_def pairing)
  show "plainSelector x h = do { (y, h') \<leftarrow> ?f (?dest x) h; Some (?upd x y, h') }" for x h
    by (simp add: plainSelector_def pairing)
  show "?dest (?upd x y) = y" for x y by simp
  show "?val (?upd x y) a = ?val x a" for x y a by simp
qed

lemma copier_plainMeta: "copier viewObjectMeta plainMeta"
proof (rule copier_struct)
  let ?v = "viewBoth (viewPointer timesType viewFlat) (viewBoth (viewPointer mapsType viewFlat)
    (viewBoth (viewPointer mapsType viewFlat) (viewSlice stringsType viewFlat)))"
  let ?f = "copyBoth (copyPointer timesType assign) (copyBoth (copyPointer mapsType assign)
    (copyBoth (copyPointer mapsType assign) (copyFlatSlice stringsType)))"
  show "copier ?v ?f"
    by (intro copier_both copier_map copier_flat_slice strings.array_type_axioms
        copier_pointer[OF times.array_type_axioms assignment.copier_axioms])
  let ?dest = "\<lambda>x. (omDeletionTimestamp x, omLabels x, omAnnotations x, omFinalizers x)"
  let ?val = "\<lambda>x v. \<lparr>mvName = omName x, mvResourceVersion = omResourceVersion x, mvGeneration = omGeneration x,
    mvDeletionTimestamp = fst v, mvLabels = fst (snd v), mvAnnotations = fst (snd (snd v)),
    mvFinalizers = nilAsEmpty (snd (snd (snd v)))\<rparr>"
  let ?upd = "\<lambda>x v. x\<lparr>omDeletionTimestamp := fst v, omLabels := fst (snd v), omAnnotations := fst (snd (snd v)),
    omFinalizers := snd (snd (snd v))\<rparr>"
  show "viewObjectMeta h x = do { (a, as) \<leftarrow> ?v h (?dest x); Some (?val x a, as) }" for h x
    by (simp add: viewObjectMeta_def pairing)
  show "plainMeta x h = do { (y, h') \<leftarrow> ?f (?dest x) h; Some (?upd x y, h') }" for x h
    by (simp add: plainMeta_def pairing)
  show "?dest (?upd x y) = y" for x y by simp
  show "?val (?upd x y) a = ?val x a" for x y a by simp
qed

lemma plain_lib_contract: "copy_contract plain_lib"
  by (simp add: copy_contract_def plain_lib_def copier_plainTaint copier_plainSelector copier_plainMeta)

text \<open>
  A rule with one evaluation, a finalizer, a taint with a time, and a selector with a label and an
  expression, each of these in storage behind it.
\<close>

definition sample_rule_obj :: ruleObj where
  "sample_rule_obj = \<lparr>roTypeMeta = \<lparr>tmKind = ''NodeReadinessRule'', tmAPIVersion = ''readiness.node.x-k8s.io/v1alpha1''\<rparr>,
     roMeta = \<lparr>omName = ''net'', omResourceVersion = [], omGeneration = 1, omDeletionTimestamp = None,
       omLabels = None, omAnnotations = None, omFinalizers = Slice 3 0 1 1\<rparr>,
     roSpec = zeroSpecObj\<lparr>soMode := ''continuous'',
       soTaint := \<lparr>toKey = ''readiness.k8s.io/net'', toValue = [], toEffect = ''NoSchedule'', toTimeAdded = Some (4, 0)\<rparr>,
       soSelector := \<lparr>soMatchLabels = Some (5, 0), soMatchExpressions = Slice 6 0 1 1\<rparr>\<rparr>,
     roStatus = zeroStatusObj\<lparr>stEvaluations := Slice 0 0 1 2\<rparr>\<rparr>"

definition sample_evaluation_obj :: evaluationObj where
  "sample_evaluation_obj = \<lparr>eoNodeName = ''w1'', eoResults = NilSlice, eoTaintStatus = ''Absent'', eoTime = 3\<rparr>"

definition sample_heap :: heap where
  "sample_heap = \<lparr>heapCells = [0 \<mapsto> Evaluations [sample_evaluation_obj, sample_evaluation_obj],
     1 \<mapsto> Rules [sample_rule_obj], 2 \<mapsto> RuleLists [\<lparr>rlTypeMeta = \<lparr>tmKind = [], tmAPIVersion = []\<rparr>,
       rlMeta = \<lparr>lmResourceVersion = ''7'', lmContinue = []\<rparr>, rlItems = Slice 1 0 1 1\<rparr>],
     3 \<mapsto> Strings [''readiness.node.x-k8s.io/cleanup-taints''], 4 \<mapsto> Times [2], 5 \<mapsto> Maps [fmupd ''pool'' ''a'' fmempty],
     6 \<mapsto> LabelRequirements [\<lparr>loKey = ''zone'', loOperator = ''In'', loValues = Slice 7 0 2 2\<rparr>],
     7 \<mapsto> Strings [''east'', ''west'']], nextAddr = 8\<rparr>"

text \<open>The storage of the rule, in the order in which it is read.\<close>

definition sample_addrs :: "addr list" where
  "sample_addrs = [1, 3, 4, 5, 6, 7, 0]"

definition sample_selector :: labelSelector where
  "sample_selector = \<lparr>matchLabels = fmupd ''pool'' ''a'' fmempty,
     matchExpressions = [\<lparr>lsrKey = ''zone'', lsrOperator = ''In'', lsrValues = [''east'', ''west'']\<rparr>]\<rparr>"

definition sample_evaluation :: nodeEvaluation where
  "sample_evaluation = \<lparr>evalNodeName = ''w1'', conditionResults = [], taintStatus = ''Absent'', evalLastEvaluationTime = 3\<rparr>"

lemma sample_heap_ok: "heap_ok sample_heap"
  by (simp add: heap_ok_def sample_heap_def)

lemmas view_eval = viewRulePtr_def viewRuleListPtr_def viewPointer_def viewSlice_def viewFlat_def viewRule_def viewRuleList_def
  viewSpec_def viewObjectMeta_def viewTaint_def viewLabelSelector_def viewLabelRequirement_def
  viewStatus_def viewEvaluation_def viewDryRun_def load_def loadArray_def array_types
  zeroSpecObj_def zeroStatusObj_def zeroDryRunObj_def

lemma sample_rule_view:
  "\<exists>r. viewRulePtr sample_heap (Some (1, 0)) = Some (Some r, sample_addrs) \<and> ruleName r = ''net'' \<and>
     nodeEvaluations (ruleStatus r) = [sample_evaluation] \<and> nodeSelector (ruleSpec r) = sample_selector"
  by (simp add: view_eval sample_heap_def sample_rule_obj_def sample_evaluation_obj_def sample_evaluation_def
      sample_addrs_def sample_selector_def)

text \<open>
  C11: A deep copy of a rule cannot panic, is nil for nil, reads as the original does, and shares no
  storage with it, the time of its taint, the map and the expressions of its selector and the parts of its
  metadata included: whatever is written later to the storage of the one, the other reads the same. This
  rests on the copies of \<open>Taint\<close>, \<open>LabelSelector\<close> and \<open>ObjectMeta\<close> being deep, each of which the
  generated functions have to call.
\<close>

theorem rule_deep_copy_isolated:
  assumes "copy_contract lib" and "heap_ok h" and "viewRulePtr h p = Some (v, as)"
  shows "\<exists>q h' bs. NodeReadinessRule_DeepCopy lib p h = Some (q, h') \<and> (q = None \<longleftrightarrow> p = None) \<and>
    viewRulePtr h' q = Some (v, bs) \<and> viewRulePtr h' p = Some (v, as) \<and> set as \<inter> set bs = {} \<and>
    (\<forall>g. (\<forall>a. a \<notin> set as \<longrightarrow> heapCells g a = heapCells h' a) \<longrightarrow> viewRulePtr g q = Some (v, bs)) \<and>
    (\<forall>g. (\<forall>a. a \<notin> set bs \<longrightarrow> heapCells g a = heapCells h' a) \<longrightarrow> viewRulePtr g p = Some (v, as))"
proof -
  obtain q h' bs where c: "NodeReadinessRule_DeepCopy lib p h = Some (q, h')" "viewRulePtr h' q = Some (v, bs)"
    "viewRulePtr h' p = Some (v, as)" "set as \<inter> set bs = {}"
    "\<forall>g. (\<forall>a. a \<notin> set as \<longrightarrow> heapCells g a = heapCells h' a) \<longrightarrow> viewRulePtr g q = Some (v, bs)"
    "\<forall>g. (\<forall>a. a \<notin> set bs \<longrightarrow> heapCells g a = heapCells h' a) \<longrightarrow> viewRulePtr g p = Some (v, as)"
    using copied_apart[OF copier_rulePtr[OF assms(1)] assms(2,3)] by blast
  have "q = None \<longleftrightarrow> p = None"
    using c(2,3) by (auto simp: viewRulePtr_def viewPointer_def bind_conv split: option.splits)
  with c show ?thesis by blast
qed

text \<open>A label written into the original's selector afterwards is not in the copy's.\<close>

theorem rule_deep_copy_isolated_witness:
  "\<exists>q h' g. NodeReadinessRule_DeepCopy plain_lib (Some (1, 0)) sample_heap = Some (q, h') \<and>
     store mapsType (5, 0) (fmupd ''pool'' ''b'' fmempty) h' = Some g \<and>
     (\<exists>r bs. viewRulePtr g q = Some (Some r, bs) \<and> nodeSelector (ruleSpec r) = sample_selector)"
proof -
  obtain r where r: "viewRulePtr sample_heap (Some (1, 0)) = Some (Some r, sample_addrs)"
    "nodeSelector (ruleSpec r) = sample_selector" using sample_rule_view by blast
  obtain q h' bs where c: "NodeReadinessRule_DeepCopy plain_lib (Some (1, 0)) sample_heap = Some (q, h')"
    "viewRulePtr h' (Some (1, 0)) = Some (Some r, sample_addrs)"
    "\<forall>g. (\<forall>a. a \<notin> set sample_addrs \<longrightarrow> heapCells g a = heapCells h' a) \<longrightarrow> viewRulePtr g q = Some (Some r, bs)"
    using rule_deep_copy_isolated[OF plain_lib_contract sample_heap_ok r(1)] by blast
  have "\<exists>q1 h1. NodeReadinessRule_DeepCopy plain_lib (Some (1, 0)) sample_heap = Some (q1, h1) \<and> extends sample_heap h1"
    using copier.copy_ok[OF copier_rulePtr[OF plain_lib_contract] sample_heap_ok r(1)] by blast
  then have "extends sample_heap h'" unfolding c(1) by simp
  then have "loadArray mapsType h' 5 = loadArray mapsType sample_heap 5"
    by (intro loadArray_cong) (simp add: extends_def sample_heap_def)
  then have "\<exists>xs. loadArray mapsType h' 5 = Some xs \<and> 0 < length xs"
    by (simp add: loadArray_def sample_heap_def array_types)
  then obtain xs where xs: "loadArray mapsType h' 5 = Some xs" "0 < length xs" by blast
  let ?m = "fmupd ''pool'' ''b'' fmempty"
  have "store mapsType (5, 0) ?m h' = Some (storeArray mapsType 5 (xs[0 := ?m]) h')"
    by (rule maps.store_ok[OF xs])
  moreover have "viewRulePtr (storeArray mapsType 5 (xs[0 := ?m]) h') q = Some (Some r, bs)"
    using c(3) by (simp add: sample_addrs_def)
  ultimately show ?thesis using c(1) r(2) by blast
qed

text \<open>
  \<open>DeepCopyObject\<close> of a list gives the nil interface for a nil pointer and otherwise a list of its
  own: the same type and list metadata, nil items for nil items and an empty slice for an empty one, and
  rules that read the same, in storage that shares nothing with the original's.
\<close>

lemma list_deep_copy_object:
  assumes "copy_contract lib" and "heap_ok h" and "viewRuleListPtr h p = Some (v, as)"
  shows "\<exists>ob h'. NodeReadinessRuleList_DeepCopyObject lib p h = Some (ob, h') \<and>
    viewRuleListPtr h' p = Some (v, as) \<and>
    (case ob of
       None \<Rightarrow> p = None
     | Some (RuleListObject q) \<Rightarrow> p \<noteq> None \<and>
         (\<exists>bs. viewRuleListPtr h' (Some q) = Some (v, bs) \<and> set as \<inter> set bs = {} \<and> distinct bs)
     | Some (RuleObject q) \<Rightarrow> False)"
proof -
  obtain q h' bs where c: "NodeReadinessRuleList_DeepCopy lib p h = Some (q, h')" "viewRuleListPtr h' q = Some (v, bs)"
    "viewRuleListPtr h' p = Some (v, as)" "set as \<inter> set bs = {}" "distinct bs"
    using copied_apart[OF copier_ruleListPtr[OF assms(1)] assms(2,3)] by blast
  have n: "q = None \<longleftrightarrow> p = None"
    using c(2,3) by (auto simp: viewRuleListPtr_def viewPointer_def bind_conv split: option.splits)
  show ?thesis
  proof (cases q)
    case None
    with c n show ?thesis by (simp add: NodeReadinessRuleList_DeepCopyObject_def)
  next
    case (Some q')
    with c n show ?thesis by (simp add: NodeReadinessRuleList_DeepCopyObject_def)
  qed
qed

lemma list_deep_copy_object_witness:
  "\<exists>q h' v rs bs. NodeReadinessRuleList_DeepCopyObject plain_lib (Some (2, 0)) sample_heap = Some (Some (RuleListObject q), h') \<and>
     viewRuleListPtr h' (Some q) = Some (Some v, bs) \<and> snd (snd v) = Some rs \<and> map ruleName rs = [''net'']"
proof -
  have "\<exists>v rs. viewRuleListPtr sample_heap (Some (2, 0)) = Some (Some v, (2 # sample_addrs)) \<and> snd (snd v) = Some rs \<and>
      map ruleName rs = [''net'']"
    by (simp add: view_eval sample_heap_def sample_rule_obj_def sample_evaluation_obj_def sample_addrs_def)
  then obtain v rs where rs: "viewRuleListPtr sample_heap (Some (2, 0)) = Some (Some v, (2 # sample_addrs))"
    "snd (snd v) = Some rs" "map ruleName rs = [''net'']" by (elim exE conjE)
  obtain ob h' where ob: "NodeReadinessRuleList_DeepCopyObject plain_lib (Some (2, 0)) sample_heap = Some (ob, h')"
    "case ob of None \<Rightarrow> Some (2 :: nat, 0 :: nat) = None
     | Some (RuleListObject q) \<Rightarrow> Some (2 :: nat, 0 :: nat) \<noteq> None \<and>
         (\<exists>bs. viewRuleListPtr h' (Some q) = Some (Some v, bs) \<and> set (2 # sample_addrs) \<inter> set bs = {} \<and> distinct bs)
     | Some (RuleObject q) \<Rightarrow> False"
    using list_deep_copy_object[OF plain_lib_contract sample_heap_ok rs(1)] by blast
  show ?thesis
  proof (cases ob)
    case None
    with ob(2) show ?thesis by simp
  next
    case (Some o1)
    show ?thesis
    proof (cases o1)
      case (RuleObject q)
      with ob(2) Some show ?thesis by simp
    next
      case (RuleListObject q)
      from ob(2)[unfolded Some RuleListObject option.case runtimeObject.case]
      obtain bs where "viewRuleListPtr h' (Some q) = Some (Some v, bs)" by (elim conjE exE)
      with ob(1)[unfolded Some RuleListObject] rs(2,3) show ?thesis by (intro exI conjI)
    qed
  qed
qed

end
