(* ===== verification/Shared_Cache.thy ===== *)
theory Shared_Cache
  imports Deep_Copy Rule_Cache
begin

text \<open>
  The cache as the program has it: a map from names to pointers. \<open>updateRuleCache\<close> stores a pointer to
  a deep copy and \<open>getCachedRule\<close> returns a pointer to another one; \<open>getApplicableRulesForNode\<close>
  returns the cache's own pointers. The relation \<open>stands_for\<close> says that such a cache holds the values of
  a \<open>controller\<close> of \<open>Rule_Cache\<close>, every entry in storage of its own. The operations keep it, so the
  theories that pass rules as values lose nothing; and it is what the deep copies are for: a reconciler
  that writes into the rule it got changes nothing in the cache.
\<close>

record sharedController =
  cachePtrs :: "(string, ptr option) fmap"
  sharedDryRun :: bool

subsection \<open>Operations\<close>

definition sharedUpdateRuleCache :: "copyLib \<Rightarrow> sharedController \<Rightarrow> ptr \<Rightarrow> heap \<Rightarrow> (sharedController \<times> heap) option" where
  "sharedUpdateRuleCache lib sc p h = do {
     (q, h) \<leftarrow> NodeReadinessRule_DeepCopy lib (Some p) h;
     x \<leftarrow> load rulesType h p;
     Some (sc\<lparr>cachePtrs := fmupd (omName (roMeta x)) q (cachePtrs sc)\<rparr>, h) }"

definition sharedGetCachedRule :: "copyLib \<Rightarrow> sharedController \<Rightarrow> string \<Rightarrow> heap \<Rightarrow> (ptr option \<times> heap) option" where
  "sharedGetCachedRule lib sc name h = (case fmlookup (cachePtrs sc) name of
     None \<Rightarrow> Some (None, h)
   | Some p \<Rightarrow> NodeReadinessRule_DeepCopy lib p h)"

definition sharedRemoveRuleFromCache :: "sharedController \<Rightarrow> string \<Rightarrow> sharedController" where
  "sharedRemoveRuleFromCache sc name = sc\<lparr>cachePtrs := fmdrop name (cachePtrs sc)\<rparr>"

text \<open>The range loop over the map, in the order \<open>ks\<close> of its keys; the rule is read through the pointer.\<close>

fun sharedApplicableRules :: "'w env \<Rightarrow> sharedController \<Rightarrow> heap \<Rightarrow> node \<Rightarrow> string list \<Rightarrow> ptr option list option" where
  "sharedApplicableRules env sc h n [] = Some []"
| "sharedApplicableRules env sc h n (k # ks) = (case fmlookup (cachePtrs sc) k of
     None \<Rightarrow> sharedApplicableRules env sc h n ks
   | Some None \<Rightarrow> None
   | Some (Some p) \<Rightarrow> do {
       x \<leftarrow> load rulesType h p;
       (rule, as) \<leftarrow> viewRule h x;
       ps \<leftarrow> sharedApplicableRules env sc h n ks;
       Some (if ruleAppliesTo env rule n then Some p # ps else ps) })"

subsection \<open>What a cache of pointers stands for\<close>

definition entry_at :: "heap \<Rightarrow> sharedController \<Rightarrow> string \<Rightarrow> (nodeReadinessRule \<times> addr list) option" where
  "entry_at h sc k = (case fmlookup (cachePtrs sc) k of
     Some (Some p) \<Rightarrow> (case viewRulePtr h (Some p) of Some (Some r, as) \<Rightarrow> Some (r, as) | _ \<Rightarrow> None)
   | _ \<Rightarrow> None)"

definition stands_for :: "heap \<Rightarrow> sharedController \<Rightarrow> controller \<Rightarrow> bool" where
  "stands_for h sc c \<longleftrightarrow> heap_ok h \<and> sharedDryRun sc = globalDryRun c \<and>
     (\<forall>k. fmlookup (cachePtrs sc) k \<noteq> None \<longleftrightarrow> fmlookup (ruleCache c) k \<noteq> None) \<and>
     (\<forall>k r. fmlookup (ruleCache c) k = Some r \<longrightarrow> (\<exists>as. entry_at h sc k = Some (r, as))) \<and>
     (\<forall>k r as. entry_at h sc k = Some (r, as) \<longrightarrow> distinct as) \<and>
     (\<forall>j k r s as bs. j \<noteq> k \<longrightarrow> entry_at h sc j = Some (r, as) \<longrightarrow> entry_at h sc k = Some (s, bs) \<longrightarrow>
        set as \<inter> set bs = {})"

definition newSharedController :: sharedController where
  "newSharedController = \<lparr>cachePtrs = fmempty, sharedDryRun = False\<rparr>"

lemma stands_for_new: "heap_ok h \<Longrightarrow> stands_for h newSharedController newReadinessGateController"
  by (simp add: stands_for_def newSharedController_def newReadinessGateController_def entry_at_def)

lemma stands_forD:
  assumes "stands_for h sc c"
  shows "heap_ok h" "sharedDryRun sc = globalDryRun c"
    "fmlookup (cachePtrs sc) k \<noteq> None \<longleftrightarrow> fmlookup (ruleCache c) k \<noteq> None"
    "fmlookup (ruleCache c) k = Some r \<Longrightarrow> \<exists>as. entry_at h sc k = Some (r, as)"
    "j \<noteq> k \<Longrightarrow> entry_at h sc j = Some (s, as) \<Longrightarrow> entry_at h sc k = Some (t, bs) \<Longrightarrow> set as \<inter> set bs = {}"
    "entry_at h sc k = Some (s, as) \<Longrightarrow> distinct as"
  using assms unfolding stands_for_def by blast+

lemma viewer_rulePtr: "viewer viewRulePtr"
  using copier_viewer[OF copier_rulePtr[OF plain_lib_contract]] .

interpretation ruleView: viewer viewRulePtr
  by (rule viewer_rulePtr)

lemma entry_atD:
  assumes "entry_at h sc k = Some (r, as)"
  shows "\<exists>p. fmlookup (cachePtrs sc) k = Some (Some p) \<and> viewRulePtr h (Some p) = Some (Some r, as)"
  using assms by (auto simp: entry_at_def split: option.splits)

lemma entry_atI:
  "fmlookup (cachePtrs sc) k = Some (Some p) \<Longrightarrow> viewRulePtr h (Some p) = Some (Some r, as) \<Longrightarrow> entry_at h sc k = Some (r, as)"
  by (simp add: entry_at_def)

lemma entry_at_local:
  assumes "entry_at h sc k = Some (r, as)" and "\<forall>a \<in> set as. heapCells g a = heapCells h a"
  shows "entry_at g sc k = Some (r, as)"
  using entry_atD[OF assms(1)] entry_atI ruleView.view_local[OF _ assms(2)] by blast

lemma entry_at_below: "heap_ok h \<Longrightarrow> entry_at h sc k = Some (r, as) \<Longrightarrow> set as \<subseteq> {..<nextAddr h}"
  using entry_atD ruleView.view_below by blast

text \<open>Every entry of the map is one that can be read.\<close>

lemma entry_at_cases:
  assumes "stands_for h sc c"
  shows "fmlookup (ruleCache c) k = None \<Longrightarrow> fmlookup (cachePtrs sc) k = None"
    and "entry_at h sc k = Some (r, as) \<Longrightarrow> fmlookup (ruleCache c) k = Some r"
proof -
  show "fmlookup (ruleCache c) k = None \<Longrightarrow> fmlookup (cachePtrs sc) k = None"
    using stands_forD(3)[OF assms, of k] by blast
  assume e: "entry_at h sc k = Some (r, as)"
  then have "fmlookup (cachePtrs sc) k \<noteq> None" using entry_atD by fastforce
  with stands_forD(3)[OF assms, of k] obtain s where s: "fmlookup (ruleCache c) k = Some s" by blast
  from stands_forD(4)[OF assms this] e have "s = r" by auto
  with s show "fmlookup (ruleCache c) k = Some r" by simp
qed

text \<open>
  The frame rule: writes that spare the storage of every entry, and new storage, leave what the cache
  stands for.
\<close>

lemma stands_for_frame:
  assumes "stands_for h sc c" and "heap_ok g"
    and "\<And>k r as a. entry_at h sc k = Some (r, as) \<Longrightarrow> a \<in> set as \<Longrightarrow> heapCells g a = heapCells h a"
  shows "stands_for g sc c"
proof -
  note D = stands_forD[OF assms(1)]
  have fwd: "entry_at g sc k = Some (r, as)" if "entry_at h sc k = Some (r, as)" for k r as
    by (rule entry_at_local[OF that]) (use assms(3)[OF that] in blast)
  have bwd: "entry_at h sc k = Some (r, as)" if g: "entry_at g sc k = Some (r, as)" for k r as
  proof -
    have "fmlookup (cachePtrs sc) k \<noteq> None" using entry_atD[OF g] by auto
    with D(3)[of k] obtain s where "fmlookup (ruleCache c) k = Some s" by blast
    with D(4) obtain bs where "entry_at h sc k = Some (s, bs)" by blast
    with fwd[OF this] g show ?thesis by simp
  qed
  have "set as \<inter> set bs = {}" if "j \<noteq> k" "entry_at g sc j = Some (r, as)" "entry_at g sc k = Some (s, bs)" for j k r s as bs
    using D(5)[OF that(1) bwd[OF that(2)] bwd[OF that(3)]] .
  moreover have "distinct as" if "entry_at g sc k = Some (r, as)" for k r as
    using D(6)[OF bwd[OF that]] .
  ultimately show ?thesis using assms(2) D(2,3) D(4) fwd unfolding stands_for_def by blast
qed

lemma stands_for_extends: "stands_for h sc c \<Longrightarrow> heap_ok g \<Longrightarrow> extends h g \<Longrightarrow> stands_for g sc c"
proof (rule stands_for_frame)
  fix k r as a
  assume "stands_for h sc c" "extends h g" "entry_at h sc k = Some (r, as)" "a \<in> set as"
  moreover from this have "a < nextAddr h" using entry_at_below[OF stands_forD(1)] by blast
  ultimately show "heapCells g a = heapCells h a" by (simp add: extends_def)
qed

text \<open>A new or changed entry, in storage that no other entry has.\<close>

lemma stands_for_entry:
  assumes "stands_for h sc c" and "heap_ok g" and "viewRulePtr g (Some p) = Some (Some r, bs)"
    and "distinct bs" and "\<And>j s as a. j \<noteq> ruleName r \<Longrightarrow> entry_at h sc j = Some (s, as) \<Longrightarrow> a \<in> set as \<Longrightarrow>
      heapCells g a = heapCells h a \<and> a \<notin> set bs"
  shows "stands_for g (sc\<lparr>cachePtrs := fmupd (ruleName r) (Some p) (cachePtrs sc)\<rparr>) (updateRuleCache c r)"
proof -
  note D = stands_forD[OF assms(1)]
  let ?sc = "sc\<lparr>cachePtrs := fmupd (ruleName r) (Some p) (cachePtrs sc)\<rparr>"
  have new: "entry_at g ?sc (ruleName r) = Some (r, bs)" by (rule entry_atI[OF _ assms(3)]) simp
  have other: "entry_at g ?sc k = entry_at g sc k" if "k \<noteq> ruleName r" for k
    using that by (simp add: entry_at_def)
  have fwd: "entry_at g sc k = Some (s, as)" if "k \<noteq> ruleName r" "entry_at h sc k = Some (s, as)" for k s as
    using entry_at_local[OF that(2)] assms(5)[OF that] by blast
  have bwd: "entry_at h sc k = Some (s, as)" if k: "k \<noteq> ruleName r" and g: "entry_at g sc k = Some (s, as)" for k s as
  proof -
    have "fmlookup (cachePtrs sc) k \<noteq> None" using entry_atD[OF g] by auto
    with D(3)[of k] obtain t where "fmlookup (ruleCache c) k = Some t" by blast
    with D(4) obtain cs where "entry_at h sc k = Some (t, cs)" by blast
    with fwd[OF k this] g show ?thesis by simp
  qed
  have apart: "set as \<inter> set cs = {}" if ne: "j \<noteq> k" and j: "entry_at g ?sc j = Some (s, as)"
      and k: "entry_at g ?sc k = Some (t, cs)" for j k s t as cs
  proof (cases "j = ruleName r")
    case True
    with ne k other bwd have "entry_at h sc k = Some (t, cs)" by auto
    with assms(5)[of k t cs] True ne new j show ?thesis by auto
  next
    case False
    with j other bwd have hj: "entry_at h sc j = Some (s, as)" by auto
    show ?thesis
    proof (cases "k = ruleName r")
      case True
      with assms(5)[OF False hj] new k show ?thesis by auto
    next
      case False2: False
      with k other bwd have "entry_at h sc k = Some (t, cs)" by auto
      from D(5)[OF ne hj this] show ?thesis .
    qed
  qed
  have entries: "\<exists>as. entry_at g ?sc k = Some (s, as)" if "fmlookup (ruleCache (updateRuleCache c r)) k = Some s" for k s
  proof (cases "k = ruleName r")
    case True
    with that new show ?thesis by (auto simp: updateRuleCache_def)
  next
    case False
    with that have "fmlookup (ruleCache c) k = Some s" by (simp add: updateRuleCache_def)
    with D(4) obtain as where "entry_at h sc k = Some (s, as)" by blast
    with fwd[OF False] other[OF False] show ?thesis by auto
  qed
  have keys: "fmlookup (cachePtrs ?sc) k \<noteq> None \<longleftrightarrow> fmlookup (ruleCache (updateRuleCache c r)) k \<noteq> None" for k
    using D(3)[of k] by (simp add: updateRuleCache_def)
  have "sharedDryRun ?sc = globalDryRun (updateRuleCache c r)" using D(2) by simp
  moreover have "distinct as" if k: "entry_at g ?sc k = Some (s, as)" for k s as
  proof (cases "k = ruleName r")
    case True
    with k new assms(4) show ?thesis by simp
  next
    case False
    with k other bwd have "entry_at h sc k = Some (s, as)" by auto
    then show ?thesis by (rule D(6))
  qed
  ultimately show ?thesis using assms(2) keys entries apart unfolding stands_for_def by blast
qed

subsection \<open>The operations keep it\<close>

lemma load_of_view:
  assumes "viewRulePtr h (Some p) = Some (Some r, as)"
  shows "\<exists>x bs. load rulesType h p = Some x \<and> viewRule h x = Some (r, bs) \<and> as = fst p # bs \<and> omName (roMeta x) = ruleName r"
  using assms unfolding viewRulePtr_def
proof (cases rule: viewPointerE)
  case (Obj q x w bs)
  moreover from this have "omName (roMeta x) = ruleName w" by (auto simp: viewRule_def viewObjectMeta_def bind_conv)
  ultimately show ?thesis by auto
qed simp

lemma sharedUpdateRuleCache_ok:
  assumes "copy_contract lib" and "stands_for h sc c" and "viewRulePtr h (Some p) = Some (Some r, as)"
  shows "\<exists>sc' h' bs. sharedUpdateRuleCache lib sc p h = Some (sc', h') \<and> stands_for h' sc' (updateRuleCache c r) \<and>
    viewRulePtr h' (Some p) = Some (Some r, as) \<and> entry_at h' sc' (ruleName r) = Some (r, bs) \<and> set as \<inter> set bs = {}"
proof -
  note ok = stands_forD(1)[OF assms(2)]
  obtain q h' bs where c: "NodeReadinessRule_DeepCopy lib (Some p) h = Some (q, h')" "heap_ok h'" "extends h h'"
    "viewRulePtr h' q = Some (Some r, bs)" "set bs \<subseteq> {nextAddr h..<nextAddr h'}" "distinct bs"
    using copier.copy_ok[OF copier_rulePtr[OF assms(1)] ok assms(3)] by blast
  from c(4) obtain p' where p': "q = Some p'"
    by (cases q) (auto simp: viewRulePtr_def viewPointer_def)
  have v: "viewRulePtr h' (Some p) = Some (Some r, as)"
    by (rule ruleView.view_extends[OF ok assms(3) c(3)])
  from load_of_view[OF v] obtain x where x: "load rulesType h' p = Some x" "omName (roMeta x) = ruleName r" by blast
  let ?sc = "sc\<lparr>cachePtrs := fmupd (ruleName r) (Some p') (cachePtrs sc)\<rparr>"
  have run: "sharedUpdateRuleCache lib sc p h = Some (?sc, h')"
    using c(1) x p' by (simp add: sharedUpdateRuleCache_def)
  have st: "stands_for h' ?sc (updateRuleCache c r)"
  proof (rule stands_for_entry[OF assms(2) c(2) c(4)[unfolded p'] c(6)])
    fix j s cs a assume "entry_at h sc j = Some (s, cs)" "a \<in> set cs"
    then have "a < nextAddr h" using entry_at_below[OF ok] by blast
    then show "heapCells h' a = heapCells h a \<and> a \<notin> set bs" using c(3,5) by (auto simp: extends_def)
  qed
  have e: "entry_at h' ?sc (ruleName r) = Some (r, bs)" by (rule entry_atI[OF _ c(4)[unfolded p']]) simp
  have "a < nextAddr h" if "a \<in> set as" for a using ruleView.view_below[OF ok assms(3)] that by auto
  then have "set as \<inter> set bs = {}" using c(5) by force
  with run st v e show ?thesis by blast
qed

lemma viewRulePtr_None: "viewRulePtr h None = Some (None, [])"
  by (simp add: viewRulePtr_def viewPointer_def)

lemma sharedGetCachedRule_ok:
  assumes "copy_contract lib" and "stands_for h sc c"
  shows "\<exists>q h' bs. sharedGetCachedRule lib sc k h = Some (q, h') \<and> viewRulePtr h' q = Some (getCachedRule c k, bs) \<and>
    stands_for h' sc c \<and>
    (\<forall>g. heap_ok g \<longrightarrow> (\<forall>a. a \<notin> set bs \<longrightarrow> heapCells g a = heapCells h' a) \<longrightarrow> stands_for g sc c)"
proof (cases "fmlookup (ruleCache c) k")
  case None
  then have "sharedGetCachedRule lib sc k h = Some (None, h)"
    using entry_at_cases(1)[OF assms(2)] by (simp add: sharedGetCachedRule_def)
  moreover have "stands_for g sc c" if "heap_ok g" "\<forall>a. heapCells g a = heapCells h a" for g
    by (rule stands_for_frame[OF assms(2) that(1)]) (use that(2) in simp)
  ultimately show ?thesis using None assms(2) viewRulePtr_None by (auto simp: getCachedRule_def)
next
  case (Some r)
  note ok = stands_forD(1)[OF assms(2)]
  from stands_forD(4)[OF assms(2) Some] obtain as where e: "entry_at h sc k = Some (r, as)" by blast
  then obtain p where p: "fmlookup (cachePtrs sc) k = Some (Some p)" "viewRulePtr h (Some p) = Some (Some r, as)"
    using entry_atD by blast
  obtain q h' bs where c: "NodeReadinessRule_DeepCopy lib (Some p) h = Some (q, h')" "heap_ok h'" "extends h h'"
    "viewRulePtr h' q = Some (Some r, bs)" "set bs \<subseteq> {nextAddr h..<nextAddr h'}"
    using copier.copy_ok[OF copier_rulePtr[OF assms(1)] ok p(2)] by blast
  have run: "sharedGetCachedRule lib sc k h = Some (q, h')" using p(1) c(1) by (simp add: sharedGetCachedRule_def)
  have st: "stands_for h' sc c" by (rule stands_for_extends[OF assms(2) c(2,3)])
  have "stands_for g sc c" if g: "heap_ok g" "\<forall>a. a \<notin> set bs \<longrightarrow> heapCells g a = heapCells h' a" for g
  proof (rule stands_for_frame[OF assms(2) g(1)])
    fix j s cs a assume "entry_at h sc j = Some (s, cs)" "a \<in> set cs"
    then have "a < nextAddr h" using entry_at_below[OF ok] by blast
    moreover from this have "a \<notin> set bs" using c(5) by force
    ultimately show "heapCells g a = heapCells h a" using c(3) g(2) by (simp add: extends_def)
  qed
  with run st c(4) Some show ?thesis by (auto simp: getCachedRule_def)
qed

lemma sharedRemoveRuleFromCache_ok:
  assumes "stands_for h sc c"
  shows "stands_for h (sharedRemoveRuleFromCache sc k) (removeRuleFromCache c k)"
proof -
  note D = stands_forD[OF assms]
  have e: "entry_at h (sharedRemoveRuleFromCache sc k) j = (if j = k then None else entry_at h sc j)" for j
    by (simp add: entry_at_def sharedRemoveRuleFromCache_def)
  have f: "fmlookup (ruleCache (removeRuleFromCache c k)) j = (if j = k then None else fmlookup (ruleCache c) j)" for j
    by (simp add: removeRuleFromCache_def)
  have p: "fmlookup (cachePtrs (sharedRemoveRuleFromCache sc k)) j = (if j = k then None else fmlookup (cachePtrs sc) j)" for j
    by (simp add: sharedRemoveRuleFromCache_def)
  have d: "sharedDryRun (sharedRemoveRuleFromCache sc k) = globalDryRun (removeRuleFromCache c k)"
    using D(2) by (simp add: sharedRemoveRuleFromCache_def)
  show ?thesis unfolding stands_for_def e f p
    using D(1) d D(3,4,5,6) by auto
qed

text \<open>The pointers handed out are the cache's own, those of the rules the value model selects.\<close>

lemma sharedApplicableRules_ok:
  assumes "stands_for h sc c"
  shows "sharedApplicableRules env sc h n ks =
    Some (map (\<lambda>k. the (fmlookup (cachePtrs sc) k)) (getApplicableRulesForNode env c n ks))"
proof (induction ks)
  case Nil
  then show ?case by simp
next
  case (Cons k ks)
  show ?case
  proof (cases "fmlookup (ruleCache c) k")
    case None
    with Cons entry_at_cases(1)[OF assms None] show ?thesis by simp
  next
    case (Some r)
    from stands_forD(4)[OF assms Some] obtain as where "entry_at h sc k = Some (r, as)" by blast
    then obtain p where p: "fmlookup (cachePtrs sc) k = Some (Some p)" "viewRulePtr h (Some p) = Some (Some r, as)"
      using entry_atD by blast
    from load_of_view[OF p(2)] obtain x bs where "load rulesType h p = Some x" "viewRule h x = Some (r, bs)" by blast
    with Cons Some p(1) show ?thesis by simp
  qed
qed

subsection \<open>Property\<close>

text \<open>
  C9: The cache of pointers refines the cache of values. Updating it from a rule in memory stores what the
  value model stores, in storage apart from the caller's rule; a lookup returns a pointer that reads as the
  value model's answer (nil when there is none), and nothing the caller later writes through it changes
  the cache; removing a name removes it; and the pointers handed out for a node are those of the rules the
  value model selects. None of them can panic.
\<close>

theorem shared_cache_refines:
  assumes "copy_contract lib" and "stands_for h sc c"
  shows "(\<forall>p r as. viewRulePtr h (Some p) = Some (Some r, as) \<longrightarrow>
      (\<exists>sc' h' bs. sharedUpdateRuleCache lib sc p h = Some (sc', h') \<and> stands_for h' sc' (updateRuleCache c r) \<and>
        viewRulePtr h' (Some p) = Some (Some r, as) \<and> entry_at h' sc' (ruleName r) = Some (r, bs) \<and> set as \<inter> set bs = {})) \<and>
    (\<forall>k. \<exists>q h' bs. sharedGetCachedRule lib sc k h = Some (q, h') \<and>
        viewRulePtr h' q = Some (getCachedRule c k, bs) \<and> stands_for h' sc c \<and>
        (\<forall>g. heap_ok g \<longrightarrow> (\<forall>a. a \<notin> set bs \<longrightarrow> heapCells g a = heapCells h' a) \<longrightarrow> stands_for g sc c)) \<and>
    (\<forall>k. stands_for h (sharedRemoveRuleFromCache sc k) (removeRuleFromCache c k)) \<and>
    (\<forall>env n ks. sharedApplicableRules env sc h n ks =
        Some (map (\<lambda>k. the (fmlookup (cachePtrs sc) k)) (getApplicableRulesForNode env c n ks)))"
  using sharedUpdateRuleCache_ok[OF assms] sharedGetCachedRule_ok[OF assms] sharedRemoveRuleFromCache_ok[OF assms(2)]
    sharedApplicableRules_ok[OF assms(2)] by blast

theorem shared_cache_refines_witness:
  "\<exists>r sc h q h' bs. ruleName r = ''net'' \<and> stands_for h sc (updateRuleCache newReadinessGateController r) \<and>
     sharedGetCachedRule plain_lib sc ''net'' h = Some (q, h') \<and> viewRulePtr h' q = Some (Some r, bs)"
proof -
  obtain r where r: "viewRulePtr sample_heap (Some (1, 0)) = Some (Some r, sample_addrs)" "ruleName r = ''net''"
    using sample_rule_view by blast
  obtain sc h where st: "stands_for h sc (updateRuleCache newReadinessGateController r)"
    using shared_cache_refines[OF plain_lib_contract stands_for_new[OF sample_heap_ok]] r(1) by blast
  obtain q h' bs where g: "sharedGetCachedRule plain_lib sc (ruleName r) h = Some (q, h')"
    "viewRulePtr h' q = Some (getCachedRule (updateRuleCache newReadinessGateController r) (ruleName r), bs)"
    using shared_cache_refines[OF plain_lib_contract st] by blast
  have "getCachedRule (updateRuleCache newReadinessGateController r) (ruleName r) = Some r"
    by (simp add: cache.lookup_update)
  with g have "sharedGetCachedRule plain_lib sc ''net'' h = Some (q, h')" "viewRulePtr h' q = Some (Some r, bs)"
    unfolding r(2) by simp_all
  with r(2) st show ?thesis by (intro exI conjI)
qed

end
