(* ===== verification/Slice_Append.thy ===== *)
theory Slice_Append
  imports Copier_Rules
begin

text \<open>
  Slices that change: the builtin \<open>append\<close>, which writes behind the last element when there is room and
  moves the elements to a larger array otherwise, and assignment to an element. The lemmas say what a view
  of the slice is afterwards and which storage was written.
\<close>

subsection \<open>Append\<close>

text \<open>
  \<open>append(s, x)\<close>. How much room a new array has is up to Go; \<open>grow\<close> is any function for it, and the
  array is never smaller than needed.
\<close>

definition goAppend :: "'e arrayType \<Rightarrow> (nat \<Rightarrow> nat) \<Rightarrow> slice \<Rightarrow> 'e \<Rightarrow> heap \<Rightarrow> (slice \<times> heap) option" where
  "goAppend ty grow s x h = (case s of
     NilSlice \<Rightarrow> (let m = max 1 (grow 1);
         (b, h1) = newArray (mkCell ty (x # replicate (m - 1) (zeroElem ty))) h in Some (Slice b 0 1 m, h1))
   | Slice a off n cp \<Rightarrow>
       if n < cp then do { h1 \<leftarrow> store ty (a, off + n) x h; Some (Slice a off (Suc n) cp, h1) }
       else do {
         xs \<leftarrow> loadArray ty h a;
         let m = max (Suc n) (grow (Suc n));
             (b, h1) = newArray (mkCell ty (take n (drop off xs) @ x # replicate (m - Suc n) (zeroElem ty))) h
         in Some (Slice b 0 (Suc n) m, h1) })"

subsection \<open>Slices under append and assignment\<close>

lemma slice_elem:
  assumes "viewSlice ty view h (Slice a off n cp) = Some (v, as)" and "i < n"
  shows "\<exists>x bs. load ty h (a, off + i) = Some x \<and> view h x = Some (nilAsEmpty v ! i, bs)"
  using assms(1)
proof (cases rule: viewSliceE)
  case (Array b o1 m c1 xs ws)
  then have e: "b = a" "o1 = off" "m = n" "c1 = cp" by simp_all
  note A = Array(2-5)[unfolded e]
  from A(2) have len: "off + n \<le> length xs" by simp
  have l: "length ws = n" using list_all2_lengthD[OF A(3)] len by simp
  have "load ty h (a, off + i) = Some (xs ! (off + i))" using A(1) len assms(2) by (simp add: load_def)
  moreover have "view h (xs ! (off + i)) = Some (ws ! i)"
    using list_all2_nthD2[OF A(3), of i] l assms(2) len by simp
  moreover have "nilAsEmpty v ! i = fst (ws ! i)" using A(4) l assms(2) by simp
  ultimately show ?thesis by (metis prod.collapse)
qed simp

lemma slice_len:
  assumes "viewSlice ty view h (Slice a off n cp) = Some (v, as)"
  shows "length (nilAsEmpty v) = n \<and> (\<exists>vs. v = Some vs) \<and> a \<in> set as"
  using assms
proof (cases rule: viewSliceE)
  case (Array b o1 m c1 xs ws)
  then have e: "m = n" "o1 = off" "c1 = cp" "b = a" by simp_all
  note A = Array(2-6)[unfolded e]
  from A(2) have len: "off + n \<le> length xs" by simp
  have "length ws = n" using list_all2_lengthD[OF A(3)] len by simp
  then show ?thesis using A(4,5) by simp
qed simp

lemma concat_update_subset: "set (concat (map snd (ws[i := (w, bs)]))) \<subseteq> set (concat (map snd ws)) \<union> set bs"
  using set_update_subset_insert[of ws i "(w, bs)"] by fastforce

lemma distinct_concat_update:
  assumes "distinct (concat (map snd ws))" and "set bs \<inter> set (concat (map snd ws)) = {}" and "distinct bs"
  shows "distinct (concat (map snd (ws[i := (w, bs)])))"
  using assms
proof (induction ws arbitrary: i)
  case Nil
  then show ?case by simp
next
  case (Cons u ws)
  show ?case
  proof (cases i)
    case 0
    with Cons.prems show ?thesis by auto
  next
    case (Suc j)
    have "distinct (concat (map snd (ws[j := (w, bs)])))" by (rule Cons.IH) (use Cons.prems in auto)
    moreover have "set (snd u) \<inter> set (concat (map snd (ws[j := (w, bs)]))) = {}"
      using concat_update_subset[of ws j w bs] Cons.prems(1,2) by auto
    ultimately show ?thesis using Suc Cons.prems(1) by simp
  qed
qed

lemma setElem_ok:
  assumes at: "array_type ty" and V: "viewer view" and ok: "heap_ok h"
    and v: "viewSlice ty view h (Slice a off n cp) = Some (v, as)" and d: "distinct as" and i: "i < n"
    and y: "view h y = Some (w, bs)" "distinct bs" "set as \<inter> set bs = {}"
  shows "\<exists>h' cs. store ty (a, off + i) y h = Some h' \<and> heap_ok h' \<and> nextAddr h' = nextAddr h \<and>
    (\<forall>c. c \<noteq> a \<longrightarrow> heapCells h' c = heapCells h c) \<and>
    viewSlice ty view h' (Slice a off n cp) = Some (Some ((nilAsEmpty v)[i := w]), cs) \<and>
    set cs \<subseteq> set as \<union> set bs \<and> distinct cs"
  using v
proof (cases rule: viewSliceE)
  case (Array b o1 m c1 xs ws)
  then have e: "b = a" "o1 = off" "m = n" "c1 = cp" by simp_all
  note A = Array(2-6)[unfolded e]
  from A(2) i have len: "off + n \<le> length xs" "off + i < length xs" by simp_all
  let ?h = "storeArray ty a (xs[off + i := y]) h"
  have st: "store ty (a, off + i) y h = Some ?h" by (rule array_type.store_ok[OF at A(1) len(2)])
  have al: "a < nextAddr h" using heap_okD[OF ok loadArray_live[OF A(1)]] .
  have keep: "view ?h x = Some u" if "view h x = Some u" "a \<notin> set (snd u)" for x u
  proof -
    obtain u1 us where u: "u = (u1, us)" by (cases u)
    show ?thesis unfolding u
      by (rule viewer.view_local[OF V that(1)[unfolded u]]) (use that(2) u in auto)
  qed
  have na: "a \<notin> set (snd u)" if "u \<in> set ws" for u using d A(5) that by auto
  have old: "list_all2 (\<lambda>x u. view ?h x = Some u) (take n (drop off xs)) ws"
    using A(3) keep na by (auto elim!: list.rel_mono_strong)
  have "view ?h y = Some (w, bs)" using keep[OF y(1)] y(3) A(5) by auto
  with old have new: "list_all2 (\<lambda>x u. view ?h x = Some u) ((take n (drop off xs))[i := y]) (ws[i := (w, bs)])"
    by (intro list_all2_update_cong)
  have "take n (drop off (xs[off + i := y])) = (take n (drop off xs))[i := y]"
    using i by (simp add: drop_update_swap take_update_swap)
  with new have "list_all2 (\<lambda>x u. view ?h x = Some u) (take n (drop off (xs[off + i := y]))) (ws[i := (w, bs)])" by simp
  moreover have "loadArray ty ?h a = Some (xs[off + i := y])" by (simp add: array_type.loadArray_storeArray[OF at])
  moreover have "n \<le> cp \<and> off + cp \<le> length (xs[off + i := y])" using A(2) by simp
  ultimately have "viewSlice ty view ?h (Slice a off n cp) =
      Some (Some (map fst (ws[i := (w, bs)])), a # concat (map snd (ws[i := (w, bs)])))"
    by (intro viewSliceI)
  moreover have "map fst (ws[i := (w, bs)]) = (nilAsEmpty v)[i := w]" by (simp add: A(4) map_update)
  moreover have "distinct (concat (map snd ws))" "set bs \<inter> set (concat (map snd ws)) = {}"
    using d y(3) A(5) by auto
  note D = distinct_concat_update[OF this y(2), of i w] concat_update_subset[of ws i w bs]
  have "a \<notin> set (concat (map snd (ws[i := (w, bs)])))" using D(2) d y(3) A(5) by auto
  with D(1) have "distinct (a # concat (map snd (ws[i := (w, bs)])))" by simp
  moreover have "set (a # concat (map snd (ws[i := (w, bs)]))) \<subseteq> set as \<union> set bs" using D(2) A(5) by auto
  moreover have "heap_ok ?h" by (rule storeArray_ok[OF ok al])
  ultimately show ?thesis using st by simp
qed simp

lemma goAppend_ok:
  assumes at: "array_type ty" and V: "viewer view" and ok: "heap_ok h"
    and v: "viewSlice ty view h s = Some (v, as)" and d: "distinct as"
    and x: "view h x = Some (w, bs)" "distinct bs" "set as \<inter> set bs = {}"
  shows "\<exists>a off cp h' cs. goAppend ty grow s x h = Some (Slice a off (Suc (length (nilAsEmpty v))) cp, h') \<and>
    heap_ok h' \<and> nextAddr h \<le> nextAddr h' \<and>
    (\<forall>c < nextAddr h. c \<notin> set as \<longrightarrow> heapCells h' c = heapCells h c) \<and>
    viewSlice ty view h' (Slice a off (Suc (length (nilAsEmpty v))) cp) = Some (Some (nilAsEmpty v @ [w]), cs) \<and>
    set cs \<subseteq> set as \<union> set bs \<union> {nextAddr h..<nextAddr h'} \<and> distinct cs"
proof -
  have moved: ?thesis if run: "newArray (mkCell ty (ys @ x # zs)) h = (b, h1)"
      "goAppend ty grow s x h = Some (Slice b 0 (Suc (length ys)) (Suc (length ys + length zs)), h1)"
    and ws: "list_all2 (\<lambda>x u. view h x = Some u) ys ws" "nilAsEmpty v = map fst ws"
      "set (concat (map snd ws)) \<subseteq> set as" "distinct (concat (map snd ws))" for ys zs b h1 ws
  proof -
    note N = newArray_facts[OF at ok run(1)]
    have l: "length (nilAsEmpty v) = length ys" using ws(1,2) list_all2_lengthD by fastforce
    have keep: "view h1 z = Some u" if "view h z = Some u" for z u
    proof -
      obtain u1 us where u: "u = (u1, us)" by (cases u)
      show ?thesis unfolding u by (rule viewer.view_extends[OF V ok that[unfolded u] N(3)])
    qed
    have "list_all2 (\<lambda>x u. view h1 x = Some u) (ys @ [x]) (ws @ [(w, bs)])"
      using ws(1) x(1) keep by (intro list_all2_appendI) (auto elim!: list.rel_mono_strong)
    then have "viewSlice ty view h1 (Slice b 0 (Suc (length ys)) (Suc (length ys + length zs))) =
        Some (Some (map fst (ws @ [(w, bs)])), b # concat (map snd (ws @ [(w, bs)])))"
      by (intro viewSliceI[OF N(5)]) simp_all
    moreover have "b \<notin> set (concat (map snd ws)) \<union> set bs"
    proof -
      have "set as \<subseteq> {..<nextAddr h}" by (rule viewer.view_below[OF viewer_slice[OF V] ok v])
      moreover have "set bs \<subseteq> {..<nextAddr h}" by (rule viewer.view_below[OF V ok x(1)])
      ultimately show ?thesis using ws(3) N(1) by auto
    qed
    moreover have "distinct (concat (map snd (ws @ [(w, bs)])))" using ws(3,4) x(2,3) by auto
    moreover have "set (concat (map snd (ws @ [(w, bs)]))) \<subseteq> set as \<union> set bs" using ws(3) by auto
    ultimately show ?thesis
      using run(2) N(1-4) ws(2) l by (intro exI[of _ b] exI[of _ "0 :: nat"] exI[of _ "Suc (length ys + length zs)"]
        exI[of _ h1] exI[of _ "b # concat (map snd (ws @ [(w, bs)]))"]) (auto simp: extends_def)
  qed
  show ?thesis
    using v
  proof (cases rule: viewSliceE)
    case Nil
    obtain b h1 where n: "newArray (mkCell ty (x # replicate (max 1 (grow 1) - 1) (zeroElem ty))) h = (b, h1)"
      by (cases "newArray (mkCell ty (x # replicate (max 1 (grow 1) - 1) (zeroElem ty))) h")
    show ?thesis
      by (rule moved[of "[]" "replicate (max 1 (grow 1) - 1) (zeroElem ty)" b h1 "[]"])
        (use n Nil in \<open>simp_all add: goAppend_def Let_def\<close>)
  next
    case (Array a off n cp xs ws)
    from Array(3) have len: "off + n \<le> length xs" by simp
    have lw: "length ws = n" using list_all2_lengthD[OF Array(4)] len by simp
    show ?thesis
    proof (cases "n < cp")
      case False
      let ?m = "max (Suc n) (grow (Suc n))"
      have sub: "set (concat (map snd ws)) \<subseteq> set as" "distinct (concat (map snd ws))" using d Array(6) by auto
      obtain b h1 where n: "newArray (mkCell ty (take n (drop off xs) @ x # replicate (?m - Suc n) (zeroElem ty))) h = (b, h1)"
        by (cases "newArray (mkCell ty (take n (drop off xs) @ x # replicate (?m - Suc n) (zeroElem ty))) h")
      show ?thesis
        by (rule moved[of "take n (drop off xs)" "replicate (?m - Suc n) (zeroElem ty)" b h1 ws])
          (use n Array(1-5) False len sub in \<open>simp_all add: goAppend_def Let_def\<close>)
    next
      case True
      let ?h = "storeArray ty a (xs[off + n := x]) h"
      have st: "store ty (a, off + n) x h = Some ?h"
        by (rule array_type.store_ok[OF at Array(2)]) (use Array(3) True in simp)
      have al: "a < nextAddr h" using heap_okD[OF ok loadArray_live[OF Array(2)]] .
      have keep: "view ?h z = Some u" if "view h z = Some u" "a \<notin> set (snd u)" for z u
      proof -
        obtain u1 us where u: "u = (u1, us)" by (cases u)
        show ?thesis unfolding u
          by (rule viewer.view_local[OF V that(1)[unfolded u]]) (use that(2) u in auto)
      qed
      have na: "a \<notin> set (snd u)" if "u \<in> set ws" for u using d Array(6) that by auto
      have "list_all2 (\<lambda>x u. view ?h x = Some u) (take n (drop off xs)) ws"
        using Array(4) keep na by (auto elim!: list.rel_mono_strong)
      moreover have "view ?h x = Some (w, bs)" using keep[OF x(1)] x(3) Array(6) by auto
      moreover have "take (Suc n) (drop off (xs[off + n := x])) = take n (drop off xs) @ [x]"
        using Array(3) True by (simp add: take_Suc_conv_app_nth drop_update_swap)
      ultimately have "list_all2 (\<lambda>x u. view ?h x = Some u) (take (Suc n) (drop off (xs[off + n := x]))) (ws @ [(w, bs)])"
        by (simp add: list_all2_appendI)
      moreover have "loadArray ty ?h a = Some (xs[off + n := x])" by (simp add: array_type.loadArray_storeArray[OF at])
      moreover have "Suc n \<le> cp \<and> off + cp \<le> length (xs[off + n := x])" using Array(3) True by simp
      ultimately have "viewSlice ty view ?h (Slice a off (Suc n) cp) =
          Some (Some (map fst (ws @ [(w, bs)])), a # concat (map snd (ws @ [(w, bs)])))"
        by (intro viewSliceI)
      moreover have "goAppend ty grow s x h = Some (Slice a off (Suc n) cp, ?h)"
        using Array(1) True st by (simp add: goAppend_def)
      moreover have "distinct (a # concat (map snd (ws @ [(w, bs)])))" using d x(2,3) Array(6) by auto
      moreover have "heap_ok ?h" by (rule storeArray_ok[OF ok al])
      ultimately show ?thesis using Array(5,6) lw
        by (intro exI[of _ a] exI[of _ off] exI[of _ cp] exI[of _ ?h]
            exI[of _ "a # concat (map snd (ws @ [(w, bs)]))"]) auto
    qed
  qed
qed

end
