(* ===== verification/Shared_Status.thy ===== *)
theory Shared_Status
  imports Shared_Cache Slice_Append
begin

text \<open>
  Writing through the cache's pointers. The node reconciler evaluates a rule through the pointer that
  \<open>getApplicableRulesForNode\<close> gave it, so \<open>updateNodeEvaluationStatus\<close> and
  \<open>recordNodeFailure\<close> change the cached rule in place: an element of a slice through a pointer, or the
  slice by \<open>append\<close>, which writes behind the last element when there is room and moves the elements to
  a larger array otherwise. They are modelled on the heap here, and change exactly what the value model
  changes, in one entry.
\<close>

subsection \<open>Operations\<close>

text \<open>The loop over the indices that looks for the entry of a node and keeps a pointer to it.\<close>

fun findEvaluation :: "heap \<Rightarrow> addr \<Rightarrow> nat \<Rightarrow> string \<Rightarrow> nat list \<Rightarrow> ptr option option" where
  "findEvaluation h a off name [] = Some None"
| "findEvaluation h a off name (i # is) = do {
     e \<leftarrow> load evaluationsType h (a, off + i);
     if eoNodeName e = name then Some (Some (a, off + i)) else findEvaluation h a off name is }"

fun lastElem :: "slice \<Rightarrow> ptr" where
  "lastElem NilSlice = (0, 0)"
| "lastElem (Slice a off n cp) = (a, off + n - 1)"

definition newEvaluationObj :: "string \<Rightarrow> evaluationObj" where
  "newEvaluationObj name = \<lparr>eoNodeName = name, eoResults = NilSlice, eoTaintStatus = [], eoTime = zeroTime\<rparr>"

definition sharedUpdateEvaluation :: "'w env \<Rightarrow> (nat \<Rightarrow> nat) \<Rightarrow> ptr \<Rightarrow> string \<Rightarrow> slice \<Rightarrow> string \<Rightarrow>
    heap \<Rightarrow> 'w \<Rightarrow> (heap \<times> 'w) option" where
  "sharedUpdateEvaluation env grow p name results st h w = do {
     rule \<leftarrow> load rulesType h p;
     found \<leftarrow> (case stEvaluations (roStatus rule) of
         NilSlice \<Rightarrow> Some None | Slice a off n cp \<Rightarrow> findEvaluation h a off name [0..<n]);
     (q, h) \<leftarrow> (case found of
         Some q \<Rightarrow> Some (q, h)
       | None \<Rightarrow> do {
           (es, h) \<leftarrow> goAppend evaluationsType grow (stEvaluations (roStatus rule)) (newEvaluationObj name) h;
           h \<leftarrow> store rulesType p (rule\<lparr>roStatus := (roStatus rule)\<lparr>stEvaluations := es\<rparr>\<rparr>) h;
           Some (lastElem es, h) });
     e \<leftarrow> load evaluationsType h q;
     let (t, w) = clockNow env w;
     h \<leftarrow> store evaluationsType q (e\<lparr>eoResults := results, eoTaintStatus := st, eoTime := t\<rparr>) h;
     Some (h, w) }"

subsection \<open>Finding and setting an evaluation\<close>

lemma viewEvaluationD:
  assumes "viewEvaluation h e = Some (v, as)"
  shows "eoNodeName e = evalNodeName v"
    and "viewSlice resultsType viewFlat h rs = Some (r, bs) \<Longrightarrow>
      viewEvaluation h (e\<lparr>eoResults := rs, eoTaintStatus := st, eoTime := t\<rparr>) =
        Some (v\<lparr>conditionResults := nilAsEmpty r, taintStatus := st, evalLastEvaluationTime := t\<rparr>, bs)"
  using assms by (auto simp: viewEvaluation_def bind_conv)

lemma findEvaluation_ok:
  assumes "viewSlice evaluationsType viewEvaluation h (Slice a off n cp) = Some (v, as)"
  shows "i \<le> n \<Longrightarrow>
    (findEvaluation h a off name [i..<n] = Some None \<and> (\<forall>j \<in> {i..<n}. evalNodeName (nilAsEmpty v ! j) \<noteq> name)) \<or>
    (\<exists>j \<in> {i..<n}. findEvaluation h a off name [i..<n] = Some (Some (a, off + j)) \<and>
      evalNodeName (nilAsEmpty v ! j) = name \<and> (\<forall>k \<in> {i..<j}. evalNodeName (nilAsEmpty v ! k) \<noteq> name))"
proof (induction "n - i" arbitrary: i)
  case 0
  then show ?case by simp
next
  case (Suc m)
  then have i: "i < n" "m = n - Suc i" "Suc i \<le> n" by auto
  from slice_elem[OF assms i(1)] obtain e bs where e: "load evaluationsType h (a, off + i) = Some e"
    "viewEvaluation h e = Some (nilAsEmpty v ! i, bs)" by blast
  note n = viewEvaluationD(1)[OF e(2)]
  show ?case
  proof (cases "eoNodeName e = name")
    case True
    with e(1) n i(1) show ?thesis by (intro disjI2 bexI[of _ i]) (simp_all add: upt_conv_Cons)
  next
    case False
    then have step: "findEvaluation h a off name [i..<n] = findEvaluation h a off name [Suc i..<n]"
      using e(1) i(1) by (simp add: upt_conv_Cons)
    have ivl: "{i..<j} = insert i {Suc i..<j}" if "i < j" for j using that by auto
    show ?thesis
      using Suc.hyps(1)[OF i(2,3)]
    proof (elim disjE conjE bexE)
      assume "findEvaluation h a off name [Suc i..<n] = Some None" "\<forall>j \<in> {Suc i..<n}. evalNodeName (nilAsEmpty v ! j) \<noteq> name"
      with False n ivl[OF i(1)] show ?thesis by (simp add: step)
    next
      fix j assume "j \<in> {Suc i..<n}" "findEvaluation h a off name [Suc i..<n] = Some (Some (a, off + j))"
        "evalNodeName (nilAsEmpty v ! j) = name" "\<forall>k \<in> {Suc i..<j}. evalNodeName (nilAsEmpty v ! k) \<noteq> name"
      with False n ivl[of j] show ?thesis by (intro disjI2 bexI[of _ j]) (simp_all add: step)
    qed
  qed
qed

lemma setEvaluation_at:
  assumes "i < length es" and "evalNodeName (es ! i) = name" and "\<forall>k \<in> {0..<i}. evalNodeName (es ! k) \<noteq> name"
  shows "setEvaluation name rs st t es =
    es[i := (es ! i)\<lparr>conditionResults := rs, taintStatus := st, evalLastEvaluationTime := t\<rparr>]"
  using assms
proof (induction es arbitrary: i)
  case Nil
  then show ?case by simp
next
  case (Cons e es)
  show ?case
  proof (cases i)
    case 0
    with Cons.prems show ?thesis by simp
  next
    case (Suc j)
    have "evalNodeName e \<noteq> name" using Cons.prems(3) Suc by force
    moreover have "\<forall>k \<in> {0..<j}. evalNodeName (es ! k) \<noteq> name" using Cons.prems(3) Suc by force
    ultimately show ?thesis using Cons.IH[of j] Cons.prems(1,2) Suc by simp
  qed
qed

lemma setEvaluation_new:
  assumes "\<forall>k \<in> {0..<length es}. evalNodeName (es ! k) \<noteq> name"
  shows "setEvaluation name rs st t es =
    es @ [\<lparr>evalNodeName = name, conditionResults = rs, taintStatus = st, evalLastEvaluationTime = t\<rparr>]"
  using assms
proof (induction es)
  case Nil
  then show ?case by simp
next
  case (Cons e es)
  have "evalNodeName e \<noteq> name" using Cons.prems by force
  moreover have "\<forall>k \<in> {0..<length es}. evalNodeName (es ! k) \<noteq> name" using Cons.prems by force
  ultimately show ?case using Cons.IH by simp
qed

subsection \<open>A rule and the parts of its status\<close>

text \<open>
  The rule behind a pointer, seen as its parts (the metadata and the spec as one); and put together again
  around other lists.
\<close>

definition viewBase :: "heap \<Rightarrow> ruleObj \<Rightarrow> ((metaValue \<times> nodeReadinessRuleSpec) \<times> addr list) option" where
  "viewBase h x = viewBoth viewObjectMeta viewSpec h (roMeta x, roSpec x)"

definition rule_at :: "heap \<Rightarrow> ptr \<Rightarrow> ruleObj \<Rightarrow> ((metaValue \<times> nodeReadinessRuleSpec) \<times> addr list) \<Rightarrow> (string list option \<times> addr list) \<Rightarrow>
    (nodeFailure list option \<times> addr list) \<Rightarrow> (nodeEvaluation list option \<times> addr list) \<Rightarrow>
    (dryRunResults \<times> addr list) \<Rightarrow> bool" where
  "rule_at h p x sp ap fl ev dr \<longleftrightarrow> load rulesType h p = Some x \<and> viewBase h x = Some sp \<and>
     viewSlice stringsType viewFlat h (stApplied (roStatus x)) = Some ap \<and>
     viewSlice failuresType viewFlat h (stFailed (roStatus x)) = Some fl \<and>
     viewSlice evaluationsType viewEvaluation h (stEvaluations (roStatus x)) = Some ev \<and>
     viewDryRun h (stDryRun (roStatus x)) = Some dr"

definition rule_value :: "ruleObj \<Rightarrow> metaValue \<times> nodeReadinessRuleSpec \<Rightarrow> string list option \<Rightarrow> nodeFailure list option \<Rightarrow>
    nodeEvaluation list option \<Rightarrow> dryRunResults \<Rightarrow> nodeReadinessRule" where
  "rule_value x sp ap fl ev dr = \<lparr>ruleName = mvName (fst sp), ruleResourceVersion = mvResourceVersion (fst sp),
     generation = mvGeneration (fst sp), deletionTimestamp = mvDeletionTimestamp (fst sp),
     finalizers = mvFinalizers (fst sp), ruleSpec = snd sp,
     ruleStatus = \<lparr>observedGeneration = stGeneration (roStatus x), appliedNodes = nilAsEmpty ap,
       failedNodes = nilAsEmpty fl, nodeEvaluations = nilAsEmpty ev, dryRunOutcome = dr\<rparr>\<rparr>"

lemma rule_at_view:
  assumes "rule_at h p x (sp, a1) (ap, a2) (fl, a3) (ev, a4) (dr, a5)"
  shows "viewRulePtr h (Some p) = Some (Some (rule_value x sp ap fl ev dr), fst p # a1 @ a2 @ a3 @ a4 @ a5)"
  using assms by (auto simp: rule_at_def rule_value_def viewBase_def viewRulePtr_def viewPointer_def viewRule_def
      viewStatus_def viewBoth_def bind_conv)

lemma rule_at_parts:
  assumes "viewRulePtr h (Some p) = Some (Some r, as)"
  shows "\<exists>x sp a1 ap a2 fl a3 ev a4 dr a5. rule_at h p x (sp, a1) (ap, a2) (fl, a3) (ev, a4) (dr, a5) \<and>
    r = rule_value x sp ap fl ev dr \<and> as = fst p # a1 @ a2 @ a3 @ a4 @ a5"
  using assms unfolding rule_at_def rule_value_def
  by (auto simp: viewBase_def viewBoth_def viewRulePtr_def viewPointer_def viewRule_def viewStatus_def bind_conv)

lemma viewer_base: "viewer viewBase"
proof (rule viewer_struct)
  show "viewer (viewBoth viewObjectMeta viewSpec)"
    by (intro viewer_both copier_viewer[OF copier_plainMeta] copier_viewer[OF copier_spec[OF plain_lib_contract]])
  show "viewBase h x = do { (a, as) \<leftarrow> viewBoth viewObjectMeta viewSpec h ((\<lambda>x. (roMeta x, roSpec x)) x);
      Some ((\<lambda>x a. a) x a, as) }" for h x
    by (simp add: viewBase_def)
qed

lemmas part_viewers = viewer_base
  viewer_slice[OF viewer_flat] viewer_slice[OF copier_viewer[OF copier_evaluation[OF plain_lib_contract]]]
  DryRunResults.viewer_axioms

lemma rule_at_frame:
  assumes "rule_at h p x (sp, a1) (ap, a2) (fl, a3) (ev, a4) (dr, a5)"
    and "load rulesType g p = Some (x\<lparr>roStatus := (roStatus x)\<lparr>stFailed := f, stEvaluations := e\<rparr>\<rparr>)"
    and "\<And>a. a \<in> set a1 \<union> set a2 \<union> set a5 \<Longrightarrow> heapCells g a = heapCells h a"
    and "viewSlice failuresType viewFlat g f = Some fl'" and "viewSlice evaluationsType viewEvaluation g e = Some ev'"
  shows "rule_at g p (x\<lparr>roStatus := (roStatus x)\<lparr>stFailed := f, stEvaluations := e\<rparr>\<rparr>) (sp, a1) (ap, a2) fl' ev' (dr, a5)"
proof -
  note R = assms(1)[unfolded rule_at_def]
  have "viewBase g x = Some (sp, a1)"
    by (rule viewer.view_local[OF part_viewers(1)]) (use R assms(3) in auto)
  then have "viewBase g (x\<lparr>roStatus := (roStatus x)\<lparr>stFailed := f, stEvaluations := e\<rparr>\<rparr>) = Some (sp, a1)"
    by (simp add: viewBase_def)
  moreover have "viewSlice stringsType viewFlat g (stApplied (roStatus x)) = Some (ap, a2)"
    by (rule viewer.view_local[OF part_viewers(2)]) (use R assms(3) in auto)
  moreover have "viewDryRun g (stDryRun (roStatus x)) = Some (dr, a5)"
    by (rule viewer.view_local[OF part_viewers(4)]) (use R assms(3) in auto)
  ultimately show ?thesis using assms(2,4,5) by (simp add: rule_at_def)
qed

subsection \<open>Evaluations through a pointer\<close>

lemma rule_ptr_addr:
  assumes "rule_at h p x sp ap fl ev dr" and "heap_ok h"
  shows "fst p < nextAddr h"
proof -
  have "load rulesType h p = Some x" using assms(1) by (simp add: rule_at_def)
  from loadD[OF this] obtain xs where "loadArray rulesType h (fst p) = Some xs" by blast
  from heap_okD[OF assms(2) loadArray_live[OF this]] show ?thesis .
qed

lemma store_rule:
  assumes "load rulesType h p = Some x" and "heap_ok h"
  shows "\<exists>g. store rulesType p y h = Some g \<and> heap_ok g \<and> nextAddr g = nextAddr h \<and> load rulesType g p = Some y \<and>
    (\<forall>c. c \<noteq> fst p \<longrightarrow> heapCells g c = heapCells h c)"
proof -
  from loadD[OF assms(1)] obtain xs where xs: "loadArray rulesType h (fst p) = Some xs" "snd p < length xs" by blast
  let ?g = "storeArray rulesType (fst p) (xs[snd p := y]) h"
  have "store rulesType p y h = Some ?g" using rules.store_ok[OF xs] by simp
  moreover have "heap_ok ?g" by (rule storeArray_ok[OF assms(2) heap_okD[OF assms(2) loadArray_live[OF xs(1)]]])
  moreover have "load rulesType ?g p = Some y" using xs(2) by (simp add: load_def rules.loadArray_storeArray)
  ultimately show ?thesis by simp
qed

text \<open>Setting the fields of the entry at an index, once the evaluations have one there.\<close>

lemma set_entry_ok:
  assumes ok: "heap_ok h" and R: "rule_at h p x (sp, a1) (ap, a2) (fl, a3) (ev, a4) (dr, a5)"
    and d: "distinct (fst p # a1 @ a2 @ a3 @ a4 @ a5)"
    and ev: "stEvaluations (roStatus x) = Slice a off n cp" and j: "j < n"
    and rs: "viewSlice resultsType viewFlat h results = Some (rs, cs)" "distinct cs"
      "set (fst p # a1 @ a2 @ a3 @ a4 @ a5) \<inter> set cs = {}"
  shows "\<exists>e g bs. load evaluationsType h (a, off + j) = Some e \<and>
    store evaluationsType (a, off + j) (e\<lparr>eoResults := results, eoTaintStatus := st, eoTime := t\<rparr>) h = Some g \<and>
    heap_ok g \<and> nextAddr g = nextAddr h \<and>
    (\<forall>c. c \<notin> set (fst p # a1 @ a2 @ a3 @ a4 @ a5) \<longrightarrow> heapCells g c = heapCells h c) \<and>
    viewRulePtr g (Some p) = Some (Some (rule_value x sp ap fl (Some ((nilAsEmpty ev)[j :=
      (nilAsEmpty ev ! j)\<lparr>conditionResults := nilAsEmpty rs, taintStatus := st, evalLastEvaluationTime := t\<rparr>])) dr), bs) \<and>
    set bs \<subseteq> set (fst p # a1 @ a2 @ a3 @ a4 @ a5) \<union> set cs \<and> distinct bs"
proof -
  note R' = R[unfolded rule_at_def]
  have sl: "viewSlice evaluationsType viewEvaluation h (Slice a off n cp) = Some (ev, a4)" using R' ev by simp
  from slice_elem[OF sl j] obtain e es where e: "load evaluationsType h (a, off + j) = Some e"
    "viewEvaluation h e = Some (nilAsEmpty ev ! j, es)" by blast
  let ?y = "e\<lparr>eoResults := results, eoTaintStatus := st, eoTime := t\<rparr>"
  let ?w = "(nilAsEmpty ev ! j)\<lparr>conditionResults := nilAsEmpty rs, taintStatus := st, evalLastEvaluationTime := t\<rparr>"
  have y: "viewEvaluation h ?y = Some (?w, cs)" by (rule viewEvaluationD(2)[OF e(2) rs(1)])
  have d4: "distinct a4" "set a4 \<inter> set cs = {}" using d rs(3) by auto
  from setElem_ok[OF evaluationArrays.array_type_axioms copier_viewer[OF copier_evaluation[OF plain_lib_contract]]
      ok sl d4(1) j y rs(2) d4(2)]
  obtain g ds where g: "store evaluationsType (a, off + j) ?y h = Some g" "heap_ok g" "nextAddr g = nextAddr h"
    "\<forall>c. c \<noteq> a \<longrightarrow> heapCells g c = heapCells h c"
    "viewSlice evaluationsType viewEvaluation g (Slice a off n cp) = Some (Some ((nilAsEmpty ev)[j := ?w]), ds)"
    "set ds \<subseteq> set a4 \<union> set cs" "distinct ds" by blast
  have a: "a \<in> set a4" using slice_len[OF sl] by blast
  then have na: "a \<noteq> fst p" "a \<notin> set a1 \<union> set a2 \<union> set a3 \<union> set a5" using d by auto
  have x: "x\<lparr>roStatus := (roStatus x)\<lparr>stFailed := stFailed (roStatus x), stEvaluations := Slice a off n cp\<rparr>\<rparr> = x"
    using ev[symmetric] by simp
  have ld: "load rulesType g p = Some x" using R' load_cong[of g p h rulesType] g(4) na(1) by simp
  have fl: "viewSlice failuresType viewFlat g (stFailed (roStatus x)) = Some (fl, a3)"
    by (rule viewer.view_local[OF part_viewers(2)]) (use R' g(4) na(2) in auto)
  have "heapCells g b = heapCells h b" if "b \<in> set a1 \<union> set a2 \<union> set a5" for b
    using g(4) na(2) that by auto
  from rule_at_frame[OF R, where g = g and f = "stFailed (roStatus x)" and e = "Slice a off n cp", unfolded x,
      OF ld this fl g(5)]
  have "rule_at g p x (sp, a1) (ap, a2) (fl, a3) (Some ((nilAsEmpty ev)[j := ?w]), ds) (dr, a5)" .
  note v = rule_at_view[OF this]
  have "distinct (fst p # a1 @ a2 @ a3 @ ds @ a5)" using d rs(3) g(6,7) by auto
  moreover have "set (fst p # a1 @ a2 @ a3 @ ds @ a5) \<subseteq> set (fst p # a1 @ a2 @ a3 @ a4 @ a5) \<union> set cs" using g(6) by auto
  moreover have "\<forall>c. c \<notin> set (fst p # a1 @ a2 @ a3 @ a4 @ a5) \<longrightarrow> heapCells g c = heapCells h c" using g(4) a by auto
  ultimately show ?thesis using e(1) g(1-3) v by blast
qed

text \<open>
  The room for the entry: found where it is, or appended as an entry with the name only. Either way there
  is then an index at which the fields are set, and setting them gives the list of the value model.
\<close>

lemma make_entry_ok:
  assumes ok: "heap_ok h" and R: "rule_at h p x (sp, a1) (ap, a2) (fl, a3) (ev, a4) (dr, a5)"
    and d: "distinct (fst p # a1 @ a2 @ a3 @ a4 @ a5)"
  shows "\<exists>a off n cp g b4. goAppend evaluationsType grow (stEvaluations (roStatus x)) (newEvaluationObj name) h =
      Some (Slice a off (Suc n) cp, g) \<and> n = length (nilAsEmpty ev) \<and>
    (\<exists>g'. store rulesType p (x\<lparr>roStatus := (roStatus x)\<lparr>stEvaluations := Slice a off (Suc n) cp\<rparr>\<rparr>) g = Some g' \<and>
      heap_ok g' \<and> nextAddr h \<le> nextAddr g' \<and>
      (\<forall>c < nextAddr h. c \<notin> set (fst p # a1 @ a2 @ a3 @ a4 @ a5) \<longrightarrow> heapCells g' c = heapCells h c) \<and>
      rule_at g' p (x\<lparr>roStatus := (roStatus x)\<lparr>stEvaluations := Slice a off (Suc n) cp\<rparr>\<rparr>) (sp, a1) (ap, a2) (fl, a3)
        (Some (nilAsEmpty ev @ [\<lparr>evalNodeName = name, conditionResults = [], taintStatus = [],
          evalLastEvaluationTime = zeroTime\<rparr>]), b4) (dr, a5) \<and>
      set b4 \<subseteq> set a4 \<union> {nextAddr h..<nextAddr g'} \<and> distinct (fst p # a1 @ a2 @ a3 @ b4 @ a5))"
proof -
  note R' = R[unfolded rule_at_def]
  note V = copier_viewer[OF copier_evaluation[OF plain_lib_contract]]
  have sl: "viewSlice evaluationsType viewEvaluation h (stEvaluations (roStatus x)) = Some (ev, a4)" using R' by simp
  have new: "viewEvaluation h (newEvaluationObj name) = Some (\<lparr>evalNodeName = name, conditionResults = [], taintStatus = [],
      evalLastEvaluationTime = zeroTime\<rparr>, [])"
    by (simp add: viewEvaluation_def newEvaluationObj_def viewSlice_def)
  have d4: "distinct a4" using d by auto
  obtain a off cp g cs where g: "goAppend evaluationsType grow (stEvaluations (roStatus x)) (newEvaluationObj name) h =
      Some (Slice a off (Suc (length (nilAsEmpty ev))) cp, g)" "heap_ok g" "nextAddr h \<le> nextAddr g"
    "\<forall>c < nextAddr h. c \<notin> set a4 \<longrightarrow> heapCells g c = heapCells h c"
    "viewSlice evaluationsType viewEvaluation g (Slice a off (Suc (length (nilAsEmpty ev))) cp) =
      Some (Some (nilAsEmpty ev @ [\<lparr>evalNodeName = name, conditionResults = [], taintStatus = [],
        evalLastEvaluationTime = zeroTime\<rparr>]), cs)" "set cs \<subseteq> set a4 \<union> {nextAddr h..<nextAddr g}" "distinct cs"
    using goAppend_ok[OF evaluationArrays.array_type_axioms V ok sl d4 new, of grow] by auto
  let ?s = "Slice a off (Suc (length (nilAsEmpty ev))) cp"
  let ?x = "x\<lparr>roStatus := (roStatus x)\<lparr>stFailed := stFailed (roStatus x), stEvaluations := ?s\<rparr>\<rparr>"
  have x: "?x = x\<lparr>roStatus := (roStatus x)\<lparr>stEvaluations := ?s\<rparr>\<rparr>" by simp
  have all: "set (fst p # a1 @ a2 @ a3 @ a4 @ a5) \<subseteq> {..<nextAddr h}"
    by (rule ruleView.view_below[OF ok rule_at_view[OF R]])
  have p: "fst p \<notin> set a4" "fst p < nextAddr h" using d all by auto
  have "load rulesType g p = Some x" using R' load_cong[of g p h rulesType] g(4) p by simp
  from store_rule[OF this g(2), of ?x] obtain g' where g': "store rulesType p ?x g = Some g'" "heap_ok g'"
    "nextAddr g' = nextAddr g" "load rulesType g' p = Some ?x" "\<forall>c. c \<noteq> fst p \<longrightarrow> heapCells g' c = heapCells g c" by blast
  have cs: "fst p \<notin> set cs" using g(6) p by auto
  have ev': "viewSlice evaluationsType viewEvaluation g' ?s =
      Some (Some (nilAsEmpty ev @ [\<lparr>evalNodeName = name, conditionResults = [], taintStatus = [],
        evalLastEvaluationTime = zeroTime\<rparr>]), cs)"
    by (rule viewer.view_local[OF part_viewers(3) g(5)]) (use g'(5) cs in metis)
  have keep: "heapCells g' b = heapCells h b" if "b \<in> set a1 \<union> set a2 \<union> set a3 \<union> set a5" for b
  proof -
    have "b \<noteq> fst p" "b \<notin> set a4" "b < nextAddr h" using that d all by auto
    with g(4) g'(5) show ?thesis by simp
  qed
  have fl: "viewSlice failuresType viewFlat g' (stFailed (roStatus x)) = Some (fl, a3)"
    by (rule viewer.view_local[OF part_viewers(2)]) (use R' keep in auto)
  have "heapCells g' b = heapCells h b" if "b \<in> set a1 \<union> set a2 \<union> set a5" for b using keep that by blast
  note at = rule_at_frame[OF R g'(4) this fl ev', unfolded x]
  have "\<forall>c < nextAddr h. c \<notin> set (fst p # a1 @ a2 @ a3 @ a4 @ a5) \<longrightarrow> heapCells g' c = heapCells h c"
    using g(4) g'(5) by auto
  moreover have "set cs \<subseteq> set a4 \<union> {nextAddr h..<nextAddr g'}" using g(6) g'(3) by simp
  moreover have "distinct (fst p # a1 @ a2 @ a3 @ cs @ a5)"
  proof -
    have "set cs \<inter> (insert (fst p) (set a1 \<union> set a2 \<union> set a3 \<union> set a5)) = {}"
      using g(6) d all by fastforce
    with d g(7) show ?thesis by auto
  qed
  moreover have "nextAddr h \<le> nextAddr g'" using g(3) g'(3) by simp
  ultimately show ?thesis using g(1) g'(1,2) at unfolding x by blast
qed

text \<open>
  What a change of the rule behind a pointer owes: the rule then has the wanted value, in the storage it
  had, storage handed to it, or new storage; and storage that is neither its own nor new is as it was.
\<close>

definition changes_rule :: "heap \<Rightarrow> ptr \<Rightarrow> addr list \<Rightarrow> addr list \<Rightarrow> nodeReadinessRule \<Rightarrow> heap \<Rightarrow> bool" where
  "changes_rule h p as cs r g \<longleftrightarrow> heap_ok g \<and> nextAddr h \<le> nextAddr g \<and>
     (\<forall>c < nextAddr h. c \<notin> set as \<longrightarrow> heapCells g c = heapCells h c) \<and>
     (\<exists>bs. viewRulePtr g (Some p) = Some (Some r, bs) \<and> distinct bs \<and>
       set bs \<subseteq> set as \<union> set cs \<union> {nextAddr h..<nextAddr g})"

lemma sharedUpdateEvaluation_ok:
  assumes ok: "heap_ok h" and v: "viewRulePtr h (Some p) = Some (Some r, as)" and d: "distinct as"
    and rs: "viewSlice resultsType viewFlat h results = Some (rs, cs)" "distinct cs" "set as \<inter> set cs = {}"
  shows "\<exists>g. sharedUpdateEvaluation env grow p name results st h w = Some (g, snd (clockNow env w)) \<and>
    changes_rule h p as cs (fst (updateNodeEvaluationStatus env r name (nilAsEmpty rs) st w)) g"
proof -
  obtain t w' where t: "clockNow env w = (t, w')" by (cases "clockNow env w")
  from rule_at_parts[OF v] obtain x sp a1 ap a2 fl a3 ev a4 dr a5 where
    R: "rule_at h p x (sp, a1) (ap, a2) (fl, a3) (ev, a4) (dr, a5)" and r: "r = rule_value x sp ap fl ev dr"
    and as: "as = fst p # a1 @ a2 @ a3 @ a4 @ a5" by blast
  note R' = R[unfolded rule_at_def]
  let ?f = "\<lambda>u. u\<lparr>conditionResults := nilAsEmpty rs, taintStatus := st, evalLastEvaluationTime := t\<rparr>"
  have goal: "fst (updateNodeEvaluationStatus env r name (nilAsEmpty rs) st w) =
      rule_value x sp ap fl (Some (setEvaluation name (nilAsEmpty rs) st t (nilAsEmpty ev))) dr"
    by (simp add: updateNodeEvaluationStatus_def t r rule_value_def Let_def)
  have find: "(case stEvaluations (roStatus x) of NilSlice \<Rightarrow> Some None
      | Slice a off n cp \<Rightarrow> findEvaluation h a off name [0..<n]) = Some None \<and>
      (\<forall>k \<in> {0..<length (nilAsEmpty ev)}. evalNodeName (nilAsEmpty ev ! k) \<noteq> name) \<or>
    (\<exists>a off n cp j. stEvaluations (roStatus x) = Slice a off n cp \<and> j < n \<and> n = length (nilAsEmpty ev) \<and>
      findEvaluation h a off name [0..<n] = Some (Some (a, off + j)) \<and> evalNodeName (nilAsEmpty ev ! j) = name \<and>
      (\<forall>k \<in> {0..<j}. evalNodeName (nilAsEmpty ev ! k) \<noteq> name))"
  proof (cases "stEvaluations (roStatus x)")
    case NilSlice
    with R' show ?thesis by (auto simp: viewSlice_def)
  next
    case (Slice a off n cp)
    with R' have sl: "viewSlice evaluationsType viewEvaluation h (Slice a off n cp) = Some (ev, a4)" by simp
    have n: "length (nilAsEmpty ev) = n" using slice_len[OF sl] by simp
    from findEvaluation_ok[OF sl le0, of name] show ?thesis
    proof (elim disjE conjE bexE)
      assume "findEvaluation h a off name [0..<n] = Some None" "\<forall>j \<in> {0..<n}. evalNodeName (nilAsEmpty ev ! j) \<noteq> name"
      then show ?thesis using Slice n by (intro disjI1) simp
    next
      fix j assume "j \<in> {0..<n}" "findEvaluation h a off name [0..<n] = Some (Some (a, off + j))"
        "evalNodeName (nilAsEmpty ev ! j) = name" "\<forall>k \<in> {0..<j}. evalNodeName (nilAsEmpty ev ! k) \<noteq> name"
      then show ?thesis using Slice n
        by (intro disjI2 exI[of _ a] exI[of _ off] exI[of _ n] exI[of _ cp] exI[of _ j]) simp
    qed
  qed
  then show ?thesis
  proof (elim disjE conjE exE)
    fix a off n cp j
    assume s: "stEvaluations (roStatus x) = Slice a off n cp" and j: "j < n" "n = length (nilAsEmpty ev)"
      and f: "findEvaluation h a off name [0..<n] = Some (Some (a, off + j))" "evalNodeName (nilAsEmpty ev ! j) = name"
        "\<forall>k \<in> {0..<j}. evalNodeName (nilAsEmpty ev ! k) \<noteq> name"
    from set_entry_ok[OF ok R d[unfolded as] s j(1) rs(1,2) rs(3)[unfolded as], where st = st and t = t] obtain e g bs where
      e: "load evaluationsType h (a, off + j) = Some e"
        "store evaluationsType (a, off + j) (e\<lparr>eoResults := results, eoTaintStatus := st, eoTime := t\<rparr>) h = Some g"
      and g: "heap_ok g" "nextAddr g = nextAddr h" "\<forall>c. c \<notin> set as \<longrightarrow> heapCells g c = heapCells h c"
        "viewRulePtr g (Some p) = Some (Some (rule_value x sp ap fl (Some ((nilAsEmpty ev)[j := ?f (nilAsEmpty ev ! j)])) dr), bs)"
        "set bs \<subseteq> set as \<union> set cs" "distinct bs" unfolding as by blast
    have "sharedUpdateEvaluation env grow p name results st h w = Some (g, w')"
      using R' s f(1) e t by (simp add: sharedUpdateEvaluation_def Let_def)
    moreover have "changes_rule h p as cs (fst (updateNodeEvaluationStatus env r name (nilAsEmpty rs) st w)) g"
      using g setEvaluation_at[of j "nilAsEmpty ev" name "nilAsEmpty rs" st t] j f(2,3) unfolding changes_rule_def goal by auto
    ultimately show ?thesis using t by simp
  next
    assume f: "(case stEvaluations (roStatus x) of NilSlice \<Rightarrow> Some None
      | Slice a off n cp \<Rightarrow> findEvaluation h a off name [0..<n]) = Some None"
      "\<forall>k \<in> {0..<length (nilAsEmpty ev)}. evalNodeName (nilAsEmpty ev ! k) \<noteq> name"
    let ?n = "\<lparr>evalNodeName = name, conditionResults = [], taintStatus = [], evalLastEvaluationTime = zeroTime\<rparr>"
    let ?l = "length (nilAsEmpty ev)"
    from make_entry_ok[OF ok R d[unfolded as], of grow name] obtain a off cp g g' b4 where
      m: "goAppend evaluationsType grow (stEvaluations (roStatus x)) (newEvaluationObj name) h = Some (Slice a off (Suc ?l) cp, g)"
        "store rulesType p (x\<lparr>roStatus := (roStatus x)\<lparr>stEvaluations := Slice a off (Suc ?l) cp\<rparr>\<rparr>) g = Some g'"
        "heap_ok g'" "nextAddr h \<le> nextAddr g'" "\<forall>c < nextAddr h. c \<notin> set as \<longrightarrow> heapCells g' c = heapCells h c"
      and R2: "rule_at g' p (x\<lparr>roStatus := (roStatus x)\<lparr>stEvaluations := Slice a off (Suc ?l) cp\<rparr>\<rparr>) (sp, a1) (ap, a2) (fl, a3)
        (Some (nilAsEmpty ev @ [?n]), b4) (dr, a5)"
      and b4: "set b4 \<subseteq> set a4 \<union> {nextAddr h..<nextAddr g'}" and d2: "distinct (fst p # a1 @ a2 @ a3 @ b4 @ a5)"
      unfolding as by blast
    let ?x = "x\<lparr>roStatus := (roStatus x)\<lparr>stEvaluations := Slice a off (Suc ?l) cp\<rparr>\<rparr>"
    have cb: "set cs \<subseteq> {..<nextAddr h}" by (rule viewer.view_below[OF part_viewers(2) ok rs(1)])
    have rs2: "viewSlice resultsType viewFlat g' results = Some (rs, cs)"
      by (rule viewer.view_local[OF part_viewers(2) rs(1)]) (use m(5) cb rs(3) in auto)
    have dis: "set (fst p # a1 @ a2 @ a3 @ b4 @ a5) \<inter> set cs = {}" using b4 rs(3) as cb by fastforce
    have jl: "?l < Suc ?l" by simp
    have s2: "stEvaluations (roStatus ?x) = Slice a off (Suc ?l) cp" by simp
    from set_entry_ok[OF m(3) R2 d2 s2 jl rs2 rs(2) dis, where st = st and t = t] obtain e h2 bs where
      e: "load evaluationsType g' (a, off + ?l) = Some e"
        "store evaluationsType (a, off + ?l) (e\<lparr>eoResults := results, eoTaintStatus := st, eoTime := t\<rparr>) g' = Some h2"
      and g: "heap_ok h2" "nextAddr h2 = nextAddr g'"
        "\<forall>c. c \<notin> set (fst p # a1 @ a2 @ a3 @ b4 @ a5) \<longrightarrow> heapCells h2 c = heapCells g' c"
        "viewRulePtr h2 (Some p) = Some (Some (rule_value ?x sp ap fl (Some ((nilAsEmpty ev @ [?n])[?l := ?f ?n])) dr), bs)"
        "set bs \<subseteq> set (fst p # a1 @ a2 @ a3 @ b4 @ a5) \<union> set cs" "distinct bs" by auto
    have run: "sharedUpdateEvaluation env grow p name results st h w = Some (h2, w')"
      using R' f(1) m(1,2) e t by (simp add: sharedUpdateEvaluation_def Let_def)
    have val: "rule_value ?x sp ap fl (Some ((nilAsEmpty ev @ [?n])[?l := ?f ?n])) dr =
        fst (updateNodeEvaluationStatus env r name (nilAsEmpty rs) st w)"
      unfolding goal using setEvaluation_new[OF f(2)] by (simp add: rule_value_def)
    have own: "set bs \<subseteq> set as \<union> set cs \<union> {nextAddr h..<nextAddr h2}" using g(2,5) b4 as by auto
    have keep: "\<forall>c < nextAddr h. c \<notin> set as \<longrightarrow> heapCells h2 c = heapCells h c"
    proof (intro allI impI)
      fix c assume c: "c < nextAddr h" "c \<notin> set as"
      then have "c \<notin> set (fst p # a1 @ a2 @ a3 @ b4 @ a5)" using b4 as by auto
      with g(3) m(5) c show "heapCells h2 c = heapCells h c" by simp
    qed
    have "changes_rule h p as cs (fst (updateNodeEvaluationStatus env r name (nilAsEmpty rs) st w)) h2"
      using g(1,2,4,6) m(4) own keep unfolding changes_rule_def val by auto
    with run t show ?thesis by simp
  qed
qed

subsection \<open>Failures through a pointer\<close>

text \<open>
  \<open>recordNodeFailure\<close>: the failures of other nodes are appended one by one to a slice that starts as
  nil, then the new one; the old array is only read.
\<close>

fun keepFailures :: "(nat \<Rightarrow> nat) \<Rightarrow> addr \<Rightarrow> nat \<Rightarrow> string \<Rightarrow> nat list \<Rightarrow> slice \<Rightarrow> heap \<Rightarrow> (slice \<times> heap) option" where
  "keepFailures grow a off name [] fs h = Some (fs, h)"
| "keepFailures grow a off name (i # is) fs h = do {
     f \<leftarrow> load failuresType h (a, off + i);
     (fs, h) \<leftarrow> (if failNodeName f \<noteq> name then goAppend failuresType grow fs f h else Some (fs, h));
     keepFailures grow a off name is fs h }"

definition sharedRecordFailure :: "'w env \<Rightarrow> (nat \<Rightarrow> nat) \<Rightarrow> ptr \<Rightarrow> string \<Rightarrow> string \<Rightarrow> string \<Rightarrow>
    heap \<Rightarrow> 'w \<Rightarrow> (heap \<times> 'w) option" where
  "sharedRecordFailure env grow p name reason message h w = do {
     rule \<leftarrow> load rulesType h p;
     (fs, h) \<leftarrow> (case stFailed (roStatus rule) of
         NilSlice \<Rightarrow> Some (NilSlice, h) | Slice a off n cp \<Rightarrow> keepFailures grow a off name [0..<n] NilSlice h);
     let (t, w) = clockNow env w;
     (fs, h) \<leftarrow> goAppend failuresType grow fs \<lparr>failNodeName = name, failReason = reason, failMessage = message,
       failLastEvaluationTime = t\<rparr> h;
     h \<leftarrow> store rulesType p (rule\<lparr>roStatus := (roStatus rule)\<lparr>stFailed := fs\<rparr>\<rparr>) h;
     Some (h, w) }"

lemma append_failure:
  assumes "heap_ok h" and "viewSlice failuresType viewFlat h s = Some (v, as)" and "distinct as"
  shows "\<exists>s' g bs. goAppend failuresType grow s f h = Some (s', g) \<and> heap_ok g \<and> nextAddr h \<le> nextAddr g \<and>
    (\<forall>c < nextAddr h. c \<notin> set as \<longrightarrow> heapCells g c = heapCells h c) \<and>
    viewSlice failuresType viewFlat g s' = Some (Some (nilAsEmpty v @ [f]), bs) \<and>
    set bs \<subseteq> set as \<union> {nextAddr h..<nextAddr g} \<and> distinct bs"
proof -
  have x: "viewFlat h f = Some (f, [])" by (simp add: viewFlat_def)
  from goAppend_ok[OF failureArrays.array_type_axioms viewer_flat assms x, of grow] obtain a off cp g cs where
    "goAppend failuresType grow s f h = Some (Slice a off (Suc (length (nilAsEmpty v))) cp, g)" "heap_ok g"
    "nextAddr h \<le> nextAddr g" "\<forall>c < nextAddr h. c \<notin> set as \<longrightarrow> heapCells g c = heapCells h c"
    "viewSlice failuresType viewFlat g (Slice a off (Suc (length (nilAsEmpty v))) cp) = Some (Some (nilAsEmpty v @ [f]), cs)"
    "set cs \<subseteq> set as \<union> {nextAddr h..<nextAddr g}" "distinct cs" by auto
  then show ?thesis by blast
qed

lemma keepFailures_ok:
  assumes "viewSlice failuresType viewFlat h0 (Slice a off n cp) = Some (v, as)"
  shows "i \<le> n \<Longrightarrow> heap_ok h \<Longrightarrow> nextAddr h0 \<le> nextAddr h \<Longrightarrow>
    \<forall>c < nextAddr h0. heapCells h c = heapCells h0 c \<Longrightarrow> a < nextAddr h0 \<Longrightarrow>
    viewSlice failuresType viewFlat h fs = Some (u, bs) \<Longrightarrow> distinct bs \<Longrightarrow> \<forall>b \<in> set bs. nextAddr h0 \<le> b \<Longrightarrow>
    \<exists>fs' g u' bs'. keepFailures grow a off name [i..<n] fs h = Some (fs', g) \<and> heap_ok g \<and> nextAddr h0 \<le> nextAddr g \<and>
      (\<forall>c < nextAddr h0. heapCells g c = heapCells h0 c) \<and>
      viewSlice failuresType viewFlat g fs' = Some (u', bs') \<and> distinct bs' \<and> (\<forall>b \<in> set bs'. nextAddr h0 \<le> b) \<and>
      nilAsEmpty u' = nilAsEmpty u @ filter (\<lambda>f. failNodeName f \<noteq> name) (drop i (nilAsEmpty v))"
proof (induction "n - i" arbitrary: i h fs u bs)
  case 0
  then have "i = n" by simp
  with 0 slice_len[OF assms] show ?case by simp
next
  case (Suc m)
  then have i: "i < n" "m = n - Suc i" "Suc i \<le> n" by auto
  from slice_elem[OF assms i(1)] obtain f es where f: "load failuresType h0 (a, off + i) = Some f"
    "viewFlat h0 f = Some (nilAsEmpty v ! i, es)" by blast
  then have fe: "f = nilAsEmpty v ! i" by (simp add: viewFlat_def)
  have ld: "load failuresType h (a, off + i) = Some f"
    using f(1) load_cong[of h "(a, off + i)" h0 failuresType] Suc.prems(4,5) by simp
  have dr: "drop i (nilAsEmpty v) = f # drop (Suc i) (nilAsEmpty v)"
    using i(1) slice_len[OF assms] fe by (simp add: Cons_nth_drop_Suc)
  show ?case
  proof (cases "failNodeName f \<noteq> name")
    case False
    from Suc.hyps(1)[OF i(2,3) Suc.prems(2-8)] show ?thesis
      using False ld i(1) dr by (simp add: upt_conv_Cons)
  next
    case True
    from append_failure[OF Suc.prems(2,6,7), of grow f] obtain s' g cs where
      g: "goAppend failuresType grow fs f h = Some (s', g)" "heap_ok g" "nextAddr h \<le> nextAddr g"
        "\<forall>c < nextAddr h. c \<notin> set bs \<longrightarrow> heapCells g c = heapCells h c"
        "viewSlice failuresType viewFlat g s' = Some (Some (nilAsEmpty u @ [f]), cs)"
        "set cs \<subseteq> set bs \<union> {nextAddr h..<nextAddr g}" "distinct cs" by blast
    have n0: "nextAddr h0 \<le> nextAddr g" using g(3) Suc.prems(3) by simp
    have keep: "\<forall>c < nextAddr h0. heapCells g c = heapCells h0 c"
    proof (intro allI impI)
      fix c assume c: "c < nextAddr h0"
      with Suc.prems(8) have "c \<notin> set bs" by (meson leD)
      moreover have "c < nextAddr h" using c Suc.prems(3) by simp
      ultimately show "heapCells g c = heapCells h0 c" using g(4) Suc.prems(4) c by simp
    qed
    have cs: "\<forall>b \<in> set cs. nextAddr h0 \<le> b" using g(6) Suc.prems(3,8) by force
    from Suc.hyps(1)[OF i(2,3) g(2) n0 keep Suc.prems(5) g(5,7) cs] show ?thesis
      using True ld i(1) dr g(1) by (simp add: upt_conv_Cons)
  qed
qed

lemma sharedRecordFailure_ok:
  assumes ok: "heap_ok h" and v: "viewRulePtr h (Some p) = Some (Some r, as)" and d: "distinct as"
  shows "\<exists>g. sharedRecordFailure env grow p name reason message h w = Some (g, snd (clockNow env w)) \<and>
    changes_rule h p as [] (fst (recordNodeFailure env r name reason message w)) g"
proof -
  obtain t w' where t: "clockNow env w = (t, w')" by (cases "clockNow env w")
  from rule_at_parts[OF v] obtain x sp a1 ap a2 fl a3 ev a4 dr a5 where
    R: "rule_at h p x (sp, a1) (ap, a2) (fl, a3) (ev, a4) (dr, a5)" and r: "r = rule_value x sp ap fl ev dr"
    and as: "as = fst p # a1 @ a2 @ a3 @ a4 @ a5" by blast
  note R' = R[unfolded rule_at_def]
  let ?new = "\<lparr>failNodeName = name, failReason = reason, failMessage = message, failLastEvaluationTime = t\<rparr>"
  let ?keep = "filter (\<lambda>f. failNodeName f \<noteq> name) (nilAsEmpty fl)"
  have below: "set as \<subseteq> {..<nextAddr h}" by (rule ruleView.view_below[OF ok v])
  have "\<exists>fs g u bs. (case stFailed (roStatus x) of
         NilSlice \<Rightarrow> Some (NilSlice, h) | Slice a off n cp \<Rightarrow> keepFailures grow a off name [0..<n] NilSlice h) = Some (fs, g) \<and>
      heap_ok g \<and> nextAddr h \<le> nextAddr g \<and> (\<forall>c < nextAddr h. heapCells g c = heapCells h c) \<and>
      viewSlice failuresType viewFlat g fs = Some (u, bs) \<and> distinct bs \<and> (\<forall>b \<in> set bs. nextAddr h \<le> b) \<and>
      nilAsEmpty u = ?keep"
  proof (cases "stFailed (roStatus x)")
    case NilSlice
    with R' ok show ?thesis by (auto simp: viewSlice_def)
  next
    case (Slice a off n cp)
    with R' have sl: "viewSlice failuresType viewFlat h (Slice a off n cp) = Some (fl, a3)" by simp
    have a: "a < nextAddr h" using slice_len[OF sl] below as by auto
    have nil: "viewSlice failuresType viewFlat h NilSlice = Some (None, [])" by (simp add: viewSlice_def)
    from keepFailures_ok[OF sl, of 0 h NilSlice None "[]" grow name] ok a nil Slice show ?thesis by simp
  qed
  then obtain fs g u bs where k: "(case stFailed (roStatus x) of
         NilSlice \<Rightarrow> Some (NilSlice, h) | Slice a off n cp \<Rightarrow> keepFailures grow a off name [0..<n] NilSlice h) = Some (fs, g)"
      "heap_ok g" "nextAddr h \<le> nextAddr g" "\<forall>c < nextAddr h. heapCells g c = heapCells h c"
      "viewSlice failuresType viewFlat g fs = Some (u, bs)" "distinct bs" "\<forall>b \<in> set bs. nextAddr h \<le> b"
      "nilAsEmpty u = ?keep" by blast
  from append_failure[OF k(2,5,6), of grow ?new] obtain s' g1 cs where
    g1: "goAppend failuresType grow fs ?new g = Some (s', g1)" "heap_ok g1" "nextAddr g \<le> nextAddr g1"
      "\<forall>c < nextAddr g. c \<notin> set bs \<longrightarrow> heapCells g1 c = heapCells g c"
      "viewSlice failuresType viewFlat g1 s' = Some (Some (?keep @ [?new]), cs)"
      "set cs \<subseteq> set bs \<union> {nextAddr g..<nextAddr g1}" "distinct cs" unfolding k(8) by blast
  have keep1: "\<forall>c < nextAddr h. heapCells g1 c = heapCells h c"
  proof (intro allI impI)
    fix c assume c: "c < nextAddr h"
    with k(7) have "c \<notin> set bs" by (meson leD)
    moreover have "c < nextAddr g" using c k(3) by simp
    ultimately show "heapCells g1 c = heapCells h c" using g1(4) k(4) c by simp
  qed
  have csf: "\<forall>b \<in> set cs. nextAddr h \<le> b \<and> b < nextAddr g1"
  proof
    fix b assume b: "b \<in> set cs"
    then have "b < nextAddr g1" using viewer.view_below[OF part_viewers(2) g1(2,5)] by blast
    moreover have "nextAddr h \<le> b"
    proof (cases "b \<in> set bs")
      case True
      with k(7) show ?thesis by blast
    next
      case False
      with b g1(6) have "nextAddr g \<le> b" by auto
      with k(3) show ?thesis by simp
    qed
    ultimately show "nextAddr h \<le> b \<and> b < nextAddr g1" by simp
  qed
  let ?x = "x\<lparr>roStatus := (roStatus x)\<lparr>stFailed := s', stEvaluations := stEvaluations (roStatus x)\<rparr>\<rparr>"
  have x: "?x = x\<lparr>roStatus := (roStatus x)\<lparr>stFailed := s'\<rparr>\<rparr>" by simp
  have p: "fst p < nextAddr h" using below as by simp
  have "load rulesType g1 p = Some x" using R' load_cong[of g1 p h rulesType] keep1 p by simp
  from store_rule[OF this g1(2), of ?x] obtain g2 where g2: "store rulesType p ?x g1 = Some g2" "heap_ok g2"
    "nextAddr g2 = nextAddr g1" "load rulesType g2 p = Some ?x" "\<forall>c. c \<noteq> fst p \<longrightarrow> heapCells g2 c = heapCells g1 c" by blast
  have keep2: "heapCells g2 b = heapCells h b" if "b \<in> set a1 \<union> set a2 \<union> set a4 \<union> set a5" for b
  proof -
    have "b \<noteq> fst p" "b < nextAddr h" using that d below as by auto
    with keep1 g2(5) show ?thesis by simp
  qed
  have "fst p \<notin> set cs" using csf p by auto
  then have fl: "viewSlice failuresType viewFlat g2 s' = Some (Some (?keep @ [?new]), cs)"
    by (intro viewer.view_local[OF part_viewers(2) g1(5)]) (use g2(5) in metis)
  have evs: "viewSlice evaluationsType viewEvaluation g2 (stEvaluations (roStatus x)) = Some (ev, a4)"
    by (rule viewer.view_local[OF part_viewers(3)]) (use R' keep2 in auto)
  have "heapCells g2 b = heapCells h b" if "b \<in> set a1 \<union> set a2 \<union> set a5" for b using keep2 that by blast
  note v2 = rule_at_view[OF rule_at_frame[OF R g2(4) this fl evs]]
  have val: "rule_value ?x sp ap (Some (?keep @ [?new])) ev dr = fst (recordNodeFailure env r name reason message w)"
    by (simp add: recordNodeFailure_def t r rule_value_def Let_def replaceFailure_def)
  have run: "sharedRecordFailure env grow p name reason message h w = Some (g2, w')"
    using R' k(1) g1(1) g2(1) t unfolding x by (simp add: sharedRecordFailure_def)
  have "set (fst p # a1 @ a2 @ cs @ a4 @ a5) \<subseteq> set as \<union> {nextAddr h..<nextAddr g2}" using csf g2(3) as by auto
  moreover have "distinct (fst p # a1 @ a2 @ cs @ a4 @ a5)"
  proof -
    have "set cs \<inter> set as = {}" using csf below by force
    with d g1(7) as show ?thesis by auto
  qed
  moreover have "\<forall>c < nextAddr h. c \<notin> set as \<longrightarrow> heapCells g2 c = heapCells h c"
    using keep1 g2(5) as by auto
  moreover have "nextAddr h \<le> nextAddr g2" using k(3) g1(3) g2(3) by simp
  ultimately have "changes_rule h p as [] (fst (recordNodeFailure env r name reason message w)) g2"
    using g2(2) v2 unfolding changes_rule_def val by auto
  with run t show ?thesis by simp
qed

subsection \<open>Property\<close>

lemma flat_slice_distinct: "viewSlice ty viewFlat h s = Some (v, cs) \<Longrightarrow> distinct cs"
  by (auto simp: viewSlice_def bind_conv those_flat comp_def map_replicate_const split: slice.splits if_splits)

lemma changes_rule_stands_for:
  assumes st: "stands_for h sc c" and p: "fmlookup (cachePtrs sc) (ruleName r') = Some (Some p)"
    and e: "entry_at h sc (ruleName r') = Some (r, as)" and g: "changes_rule h p as cs r' g"
    and cs: "\<And>j s bs. entry_at h sc j = Some (s, bs) \<Longrightarrow> set bs \<inter> set cs = {}"
  shows "stands_for g sc (updateRuleCache c r')"
proof -
  note D = stands_forD[OF st]
  from g obtain bs where b: "heap_ok g" "\<forall>a < nextAddr h. a \<notin> set as \<longrightarrow> heapCells g a = heapCells h a"
    "viewRulePtr g (Some p) = Some (Some r', bs)" "distinct bs" "set bs \<subseteq> set as \<union> set cs \<union> {nextAddr h..<nextAddr g}"
    unfolding changes_rule_def by blast
  have "stands_for g (sc\<lparr>cachePtrs := fmupd (ruleName r') (Some p) (cachePtrs sc)\<rparr>) (updateRuleCache c r')"
  proof (rule stands_for_entry[OF st b(1,3,4)])
    fix j s ds a
    assume j: "j \<noteq> ruleName r'" "entry_at h sc j = Some (s, ds)" "a \<in> set ds"
    have "a < nextAddr h" using entry_at_below[OF D(1) j(2)] j(3) by blast
    moreover have "a \<notin> set as" using D(5)[OF j(1,2) e] j(3) by blast
    moreover have "a \<notin> set cs" using cs[OF j(2)] j(3) by blast
    ultimately show "heapCells g a = heapCells h a \<and> a \<notin> set bs" using b(2,5) by auto
  qed
  moreover have "fmupd (ruleName r') (Some p) (cachePtrs sc) = cachePtrs sc"
    by (rule fmap_ext) (use p in auto)
  ultimately show ?thesis by simp
qed

text \<open>
  C10: Writing through a pointer of the cache changes that entry and nothing else. When the reconciler
  records an evaluation (its condition results in a slice no entry holds) or a failure through the pointer
  it was handed, in place or by an append that may move the list, the cache stands for the value cache
  with exactly that rule replaced by the rule the value model computes; nothing can panic.
\<close>

theorem shared_write_through:
  assumes "stands_for h sc c" and "getCachedRule c k = Some r" and "ruleName r = k"
    and "fmlookup (cachePtrs sc) k = Some (Some p)"
    and "viewSlice resultsType viewFlat h results = Some (rs, cs)"
    and "\<And>j s bs. entry_at h sc j = Some (s, bs) \<Longrightarrow> set bs \<inter> set cs = {}"
  shows "(\<exists>g. sharedUpdateEvaluation env grow p name results st h w = Some (g, snd (clockNow env w)) \<and>
      stands_for g sc (updateRuleCache c (fst (updateNodeEvaluationStatus env r name (nilAsEmpty rs) st w)))) \<and>
    (\<exists>g. sharedRecordFailure env grow p name reason message h w = Some (g, snd (clockNow env w)) \<and>
      stands_for g sc (updateRuleCache c (fst (recordNodeFailure env r name reason message w))))"
proof -
  note D = stands_forD[OF assms(1)]
  have "fmlookup (ruleCache c) k = Some r" using assms(2) by (simp add: getCachedRule_def)
  from D(4)[OF this] obtain as where e: "entry_at h sc k = Some (r, as)" by blast
  from entry_atD[OF e] assms(4) have v: "viewRulePtr h (Some p) = Some (Some r, as)" by auto
  note d = D(6)[OF e]
  let ?r1 = "fst (updateNodeEvaluationStatus env r name (nilAsEmpty rs) st w)"
  let ?r2 = "fst (recordNodeFailure env r name reason message w)"
  have n: "ruleName ?r1 = k" "ruleName ?r2 = k"
    using assms(3) by (simp_all add: updateNodeEvaluationStatus_def recordNodeFailure_def Let_def split_def)
  from sharedUpdateEvaluation_ok[OF D(1) v d assms(5) flat_slice_distinct[OF assms(5)] assms(6)[OF e],
      where env = env and grow = grow and name = name and st = st and w = w]
  obtain g1 where g1: "sharedUpdateEvaluation env grow p name results st h w = Some (g1, snd (clockNow env w))"
    "changes_rule h p as cs ?r1 g1" by blast
  have "stands_for g1 sc (updateRuleCache c ?r1)"
    by (rule changes_rule_stands_for[OF assms(1) _ _ g1(2) assms(6)]) (use n(1) assms(4) e in simp_all)
  moreover from sharedRecordFailure_ok[OF D(1) v d, where env = env and grow = grow and name = name and reason = reason
      and message = message and w = w]
  obtain g2 where g2: "sharedRecordFailure env grow p name reason message h w = Some (g2, snd (clockNow env w))"
    "changes_rule h p as [] ?r2 g2" by blast
  have "stands_for g2 sc (updateRuleCache c ?r2)"
    by (rule changes_rule_stands_for[OF assms(1) _ _ g2(2)]) (use n(2) assms(4) e in simp_all)
  ultimately show ?thesis using g1(1) g2(1) by blast
qed

text \<open>The rule of the sample heap in a cache, and a failure recorded through the cache's pointer.\<close>

theorem shared_write_through_witness:
  "\<exists>r sc p h g. ruleName r = ''net'' \<and> stands_for h sc (updateRuleCache newReadinessGateController r) \<and>
     fmlookup (cachePtrs sc) ''net'' = Some (Some p) \<and>
     sharedRecordFailure mem_env (\<lambda>n. 2 * n) p ''w1'' ''EvaluationError'' ''denied'' h (server_of [] [] []) = Some g \<and>
     stands_for (fst g) sc (updateRuleCache newReadinessGateController (fst (recordNodeFailure mem_env r
       ''w1'' ''EvaluationError'' ''denied'' (server_of [] [] []))))"
proof -
  obtain r where r: "viewRulePtr sample_heap (Some (1, 0)) = Some (Some r, sample_addrs)" "ruleName r = ''net''"
    using sample_rule_view by blast
  let ?c = "updateRuleCache newReadinessGateController r"
  obtain sc h where st: "stands_for h sc ?c"
    using sharedUpdateRuleCache_ok[OF plain_lib_contract stands_for_new[OF sample_heap_ok] r(1)] by blast
  have hit: "getCachedRule ?c (ruleName r) = Some r" by (simp add: cache.lookup_update)
  then have "fmlookup (ruleCache ?c) (ruleName r) = Some r" by (simp add: getCachedRule_def)
  from stands_forD(4)[OF st this] obtain as where "entry_at h sc (ruleName r) = Some (r, as)" by blast
  from entry_atD[OF this] obtain p where p: "fmlookup (cachePtrs sc) (ruleName r) = Some (Some p)" by blast
  have rs: "viewSlice resultsType viewFlat h NilSlice = Some (None, [])" by (simp add: viewSlice_def)
  let ?f = "fst (recordNodeFailure mem_env r ''w1'' ''EvaluationError'' ''denied'' (server_of [] [] []))"
  have same: "updateRuleCache ?c ?f = updateRuleCache newReadinessGateController ?f"
    by (simp add: updateRuleCache_def recordNodeFailure_def Let_def split_def)
  obtain g where g: "sharedRecordFailure mem_env (\<lambda>n. 2 * n) p ''w1'' ''EvaluationError'' ''denied'' h (server_of [] [] []) =
      Some (g, snd (clockNow mem_env (server_of [] [] [])))" "stands_for g sc (updateRuleCache ?c ?f)"
    using shared_write_through[OF st hit refl p rs, where env = mem_env and grow = "\<lambda>n. 2 * n" and name = "''w1''"
        and reason = "''EvaluationError''" and message = "''denied''" and w = "server_of [] [] []"] by auto
  show ?thesis
    by (rule exI[of _ r], rule exI[of _ sc], rule exI[of _ p], rule exI[of _ h],
        rule exI[of _ "(g, snd (clockNow mem_env (server_of [] [] [])))"])
      (use r(2) st p[unfolded r(2)] g[unfolded same] in simp)
qed

end
