(* ===== verification/Flags.thy ===== *)
theory Flags
  imports Prelude
begin

text \<open>
  The command line of \<open>cmd/main.go\<close>: its four flags with their defaults, and what Go's \<open>flag\<close>
  package makes of the arguments (\<open>flag.Parse\<close> on \<open>flag.CommandLine\<close>, which exits on an error). The
  flags that other packages define on the same set (zap's, controller-runtime's) are a parameter.
\<close>

subsection \<open>The flags\<close>

record flagValues =
  metricsAddr :: string
  probeAddr :: string
  enableLeaderElection :: bool
  enableWebhook :: bool
  foreignFlags :: "(string \<times> string) list"

definition defaultFlags :: flagValues where
  "defaultFlags = \<lparr>metricsAddr = ''0'', probeAddr = '':8081'', enableLeaderElection = False,
     enableWebhook = False, foreignFlags = []\<rparr>"

text \<open>
  A flag: whether it is boolean, and what setting it does; \<open>None\<close> when the value is refused. A flag of
  another package says which values it accepts.
\<close>

record flagDef =
  isBoolFlag :: bool
  setFlag :: "string \<Rightarrow> flagValues \<Rightarrow> flagValues option"

type_synonym foreign_flags = "string \<Rightarrow> (bool \<times> (string \<Rightarrow> bool)) option"

text \<open>\<open>strconv.ParseBool\<close>.\<close>

definition parseBool :: "string \<Rightarrow> bool option" where
  "parseBool s =
     (if s \<in> set [''1'', ''t'', ''T'', ''TRUE'', ''true'', ''True''] then Some True
      else if s \<in> set [''0'', ''f'', ''F'', ''FALSE'', ''false'', ''False''] then Some False
      else None)"

definition lookupFlag :: "foreign_flags \<Rightarrow> string \<Rightarrow> flagDef option" where
  "lookupFlag foreign name =
     (if name = ''metrics-bind-address''
      then Some \<lparr>isBoolFlag = False, setFlag = (\<lambda>v fl. Some (fl\<lparr>metricsAddr := v\<rparr>))\<rparr>
      else if name = ''health-probe-bind-address''
      then Some \<lparr>isBoolFlag = False, setFlag = (\<lambda>v fl. Some (fl\<lparr>probeAddr := v\<rparr>))\<rparr>
      else if name = ''leader-elect''
      then Some \<lparr>isBoolFlag = True, setFlag = (\<lambda>v fl. map_option (\<lambda>b. fl\<lparr>enableLeaderElection := b\<rparr>) (parseBool v))\<rparr>
      else if name = ''enable-webhook''
      then Some \<lparr>isBoolFlag = True, setFlag = (\<lambda>v fl. map_option (\<lambda>b. fl\<lparr>enableWebhook := b\<rparr>) (parseBool v))\<rparr>
      else (case foreign name of
          None \<Rightarrow> None
        | Some (b, accepts) \<Rightarrow> Some \<lparr>isBoolFlag = b, setFlag = (\<lambda>v fl.
            if accepts v then Some (fl\<lparr>foreignFlags := foreignFlags fl @ [(name, v)]\<rparr>) else None)\<rparr>))"

subsection \<open>Parsing\<close>

text \<open>
  The outcome of \<open>flag.Parse\<close>: the values, with the arguments that are not flags left over; or the
  process exits, with code 0 after \<open>-h\<close> or \<open>-help\<close>, with code 2 after an error.
\<close>

datatype flagResult = Parsed flagValues "string list" | HelpExit | UsageExit

text \<open>The name up to the first equals sign, which is not looked for at the first character.\<close>

fun splitValue :: "string \<Rightarrow> string \<times> string option" where
  "splitValue [] = ([], None)"
| "splitValue (c # cs) = (if c = CHR ''='' then ([], Some cs) else (let (n, v) = splitValue cs in (c # n, v)))"

definition splitFlag :: "string \<Rightarrow> string \<times> string option" where
  "splitFlag name = (case name of [] \<Rightarrow> ([], None) | c # cs \<Rightarrow> (let (n, v) = splitValue cs in (c # n, v)))"

text \<open>The text after the one or two minus signs of an argument; \<open>None\<close> when it is no flag.\<close>

fun flagText :: "string \<Rightarrow> string option" where
  "flagText (c # d # cs) = (if c \<noteq> CHR ''-'' then None else if d = CHR ''-'' then Some cs else Some (d # cs))"
| "flagText s = None"

definition malformed :: "string \<Rightarrow> bool" where
  "malformed name \<longleftrightarrow> (case name of [] \<Rightarrow> True | c # cs \<Rightarrow> c = CHR ''-'' \<or> c = CHR ''='')"

text \<open>The value of a flag: the one given with it, \<open>true\<close> for a boolean, or the next argument.\<close>

definition flagValue :: "bool \<Rightarrow> string option \<Rightarrow> string list \<Rightarrow> (string \<times> string list) option" where
  "flagValue bool given rest = (case given of
     Some v \<Rightarrow> Some (v, rest)
   | None \<Rightarrow> if bool then Some (''true'', rest) else (case rest of [] \<Rightarrow> None | v # vs \<Rightarrow> Some (v, vs)))"

lemma flagValue_shorter: "flagValue b g rest = Some (v, rest') \<Longrightarrow> length rest' \<le> length rest"
  by (auto simp: flagValue_def split: option.splits if_splits list.splits)

function parseFlags :: "foreign_flags \<Rightarrow> string list \<Rightarrow> flagValues \<Rightarrow> flagResult" where
  "parseFlags foreign [] fl = Parsed fl []"
| "parseFlags foreign (s # rest) fl =
     (if s = ''--'' then Parsed fl rest
      else case flagText s of
        None \<Rightarrow> Parsed fl (s # rest)
      | Some text \<Rightarrow>
          if malformed text then UsageExit
          else (let (name, given) = splitFlag text in
            case lookupFlag foreign name of
              None \<Rightarrow> if name = ''help'' \<or> name = ''h'' then HelpExit else UsageExit
            | Some def \<Rightarrow> (case flagValue (isBoolFlag def) given rest of
                  None \<Rightarrow> UsageExit
                | Some (v, rest') \<Rightarrow> (case setFlag def v fl of
                      None \<Rightarrow> UsageExit
                    | Some fl' \<Rightarrow> parseFlags foreign rest' fl'))))"
  by pat_completeness auto

termination
  by (relation "measure (\<lambda>(f, args, fl). length args)") (auto dest: flagValue_shorter)

subsection \<open>Property\<close>

text \<open>
  A setting, and how it is written on the command line: with one minus sign or two, and with the value after
  an equals sign or detached, which for an address is the next argument and for a boolean that is true no
  value at all.
\<close>

datatype setting = MetricsAddr string | ProbeAddr string | LeaderElect bool | EnableWebhook bool

datatype spelling = Attached | Detached

definition boolText :: "bool \<Rightarrow> string" where
  "boolText b = (if b then ''true'' else ''false'')"

definition dashes :: "bool \<Rightarrow> string" where
  "dashes two = (if two then ''--'' else ''-'')"

fun settingName :: "setting \<Rightarrow> string" where
  "settingName (MetricsAddr a) = ''metrics-bind-address''"
| "settingName (ProbeAddr a) = ''health-probe-bind-address''"
| "settingName (LeaderElect b) = ''leader-elect''"
| "settingName (EnableWebhook b) = ''enable-webhook''"

fun settingText :: "setting \<Rightarrow> string" where
  "settingText (MetricsAddr a) = a"
| "settingText (ProbeAddr a) = a"
| "settingText (LeaderElect b) = boolText b"
| "settingText (EnableWebhook b) = boolText b"

fun isBoolean :: "setting \<Rightarrow> bool" where
  "isBoolean (LeaderElect b) = True"
| "isBoolean (EnableWebhook b) = True"
| "isBoolean s = False"

fun arguments :: "bool \<times> spelling \<times> setting \<Rightarrow> string list" where
  "arguments (two, sp, s) =
     (if sp = Attached \<or> isBoolean s \<and> settingText s = ''false''
      then [dashes two @ settingName s @ ''='' @ settingText s]
      else if isBoolean s then [dashes two @ settingName s] else [dashes two @ settingName s, settingText s])"

fun applied :: "setting \<Rightarrow> flagValues \<Rightarrow> flagValues" where
  "applied (MetricsAddr a) fl = fl\<lparr>metricsAddr := a\<rparr>"
| "applied (ProbeAddr a) fl = fl\<lparr>probeAddr := a\<rparr>"
| "applied (LeaderElect b) fl = fl\<lparr>enableLeaderElection := b\<rparr>"
| "applied (EnableWebhook b) fl = fl\<lparr>enableWebhook := b\<rparr>"

lemma parseBool_boolText: "parseBool (boolText b) = Some b"
  by (cases b) (simp_all add: parseBool_def boolText_def)

lemma splitValue_append: "CHR ''='' \<notin> set n \<Longrightarrow> splitValue (n @ CHR ''='' # v) = (n, Some v)"
  by (induction n) auto

lemma splitValue_plain: "CHR ''='' \<notin> set n \<Longrightarrow> splitValue n = (n, None)"
  by (induction n) auto

lemma settingName_plain: "settingName s \<noteq> []" "CHR ''='' \<notin> set (settingName s)" "hd (settingName s) \<noteq> CHR ''-''"
  by (cases s; simp)+

lemma splitFlag_setting:
  "splitFlag (settingName s @ CHR ''='' # v) = (settingName s, Some v)" "splitFlag (settingName s) = (settingName s, None)"
  using settingName_plain[of s]
  by (cases "settingName s"; simp add: splitFlag_def splitValue_append splitValue_plain)+

lemma flagText_dashes: "n \<noteq> [] \<Longrightarrow> hd n \<noteq> CHR ''-'' \<Longrightarrow> flagText (dashes two @ n) = Some n \<and> dashes two @ n \<noteq> ''--''"
  by (cases n) (auto simp: dashes_def)

lemma lookupFlag_setting:
  "\<exists>def. lookupFlag foreign (settingName s) = Some def \<and> isBoolFlag def = isBoolean s \<and>
     setFlag def (settingText s) fl = Some (applied s fl)"
  by (cases s) (simp_all add: lookupFlag_def parseBool_boolText)

lemma parseFlags_attached:
  "parseFlags foreign ((dashes two @ settingName s @ ''='' @ settingText s) # rest) fl = parseFlags foreign rest (applied s fl)"
proof -
  obtain def where d: "lookupFlag foreign (settingName s) = Some def" "setFlag def (settingText s) fl = Some (applied s fl)"
    using lookupFlag_setting[of foreign s fl] by blast
  have t: "flagText (dashes two @ settingName s @ ''='' @ settingText s) = Some (settingName s @ CHR ''='' # settingText s)"
    "dashes two @ settingName s @ ''='' @ settingText s \<noteq> ''--''"
    using flagText_dashes[of "settingName s @ CHR ''='' # settingText s" two] settingName_plain[of s] by simp_all
  have "\<not> malformed (settingName s @ CHR ''='' # settingText s)" by (cases s) (simp_all add: malformed_def)
  with t d show ?thesis by (simp add: splitFlag_setting flagValue_def del: append.simps)
qed

lemma parseFlags_detached:
  assumes "isBoolean s \<longrightarrow> settingText s = ''true''"
  shows "parseFlags foreign ((dashes two @ settingName s) # (if isBoolean s then rest else settingText s # rest)) fl =
    parseFlags foreign rest (applied s fl)"
proof -
  obtain def where d: "lookupFlag foreign (settingName s) = Some def" "isBoolFlag def = isBoolean s"
    "setFlag def (settingText s) fl = Some (applied s fl)"
    using lookupFlag_setting[of foreign s fl] by blast
  have t: "flagText (dashes two @ settingName s) = Some (settingName s)" "dashes two @ settingName s \<noteq> ''--''"
    using flagText_dashes[of "settingName s" two] settingName_plain[of s] by simp_all
  have "\<not> malformed (settingName s)" by (cases s) (simp_all add: malformed_def)
  with t d assms show ?thesis by (cases "isBoolean s") (simp_all add: splitFlag_setting flagValue_def)
qed

lemma parseFlags_arguments: "parseFlags foreign (arguments x @ rest) fl = parseFlags foreign rest (applied (snd (snd x)) fl)"
proof (cases x)
  case (fields two sp s)
  have bools: "isBoolean s \<Longrightarrow> settingText s = ''true'' \<or> settingText s = ''false''" by (cases s) (auto simp: boolText_def)
  show ?thesis
  proof (cases "sp = Attached \<or> isBoolean s \<and> settingText s = ''false''")
    case True
    have "arguments x @ rest = (dashes two @ settingName s @ ''='' @ settingText s) # rest" using True by (simp add: fields)
    then show ?thesis by (simp only: parseFlags_attached fields snd_conv)
  next
    case False
    have "arguments x @ rest = (dashes two @ settingName s) # (if isBoolean s then rest else settingText s # rest)"
      using False by (simp add: fields)
    then show ?thesis using parseFlags_detached[of s foreign two rest fl] bools False by (simp only: fields snd_conv) blast
  qed
qed

lemma fold_applied:
  "fold applied ss fl = fl\<lparr>metricsAddr := last (metricsAddr fl # [a. MetricsAddr a \<leftarrow> ss]),
     probeAddr := last (probeAddr fl # [a. ProbeAddr a \<leftarrow> ss]),
     enableLeaderElection := last (enableLeaderElection fl # [b. LeaderElect b \<leftarrow> ss]),
     enableWebhook := last (enableWebhook fl # [b. EnableWebhook b \<leftarrow> ss])\<rparr>"
proof (induction ss arbitrary: fl)
  case Nil
  then show ?case by simp
next
  case (Cons s ss)
  then show ?case by (cases s) simp_all
qed

text \<open>
  C17: Settings written as flags are read back, with one minus sign or two, with the value attached or
  detached, whatever text an address is; of several for the same flag the last one counts, and without one
  the metrics address is \<open>0\<close> (no endpoint), the probe address \<open>:8081\<close>, and leader election and webhook
  are off.
\<close>

theorem flags_read_back:
  "parseFlags foreign (concat (map arguments xs)) defaultFlags = Parsed
     \<lparr>metricsAddr = last (''0'' # [a. (_, _, MetricsAddr a) \<leftarrow> xs]),
      probeAddr = last ('':8081'' # [a. (_, _, ProbeAddr a) \<leftarrow> xs]),
      enableLeaderElection = last (False # [b. (_, _, LeaderElect b) \<leftarrow> xs]),
      enableWebhook = last (False # [b. (_, _, EnableWebhook b) \<leftarrow> xs]),
      foreignFlags = []\<rparr> []"
proof -
  have parsed: "parseFlags foreign (concat (map arguments xs)) fl = Parsed (fold applied (map (\<lambda>x. snd (snd x)) xs) fl) []" for fl
    by (induction xs arbitrary: fl) (simp_all add: parseFlags_arguments del: arguments.simps applied.simps parseFlags.simps(2))
  have "[a. MetricsAddr a \<leftarrow> map (\<lambda>x. snd (snd x)) xs] = [a. (_, _, MetricsAddr a) \<leftarrow> xs]"
    "[a. ProbeAddr a \<leftarrow> map (\<lambda>x. snd (snd x)) xs] = [a. (_, _, ProbeAddr a) \<leftarrow> xs]"
    "[b. LeaderElect b \<leftarrow> map (\<lambda>x. snd (snd x)) xs] = [b. (_, _, LeaderElect b) \<leftarrow> xs]"
    "[b. EnableWebhook b \<leftarrow> map (\<lambda>x. snd (snd x)) xs] = [b. (_, _, EnableWebhook b) \<leftarrow> xs]"
    by (induction xs) (auto split: setting.split)
  then show ?thesis unfolding parsed fold_applied by (simp add: defaultFlags_def)
qed

text \<open>What the two deployments of \<open>config/\<close> pass, and some arguments that end the process.\<close>

lemma parseFlags_examples:
  "parseFlags (\<lambda>_. None) [''--leader-elect'', ''--enable-webhook=false''] defaultFlags =
     Parsed (defaultFlags\<lparr>enableLeaderElection := True\<rparr>) []"
  "parseFlags (\<lambda>_. None) [''-leader-elect'', ''-metrics-bind-address'', '':8443''] defaultFlags =
     Parsed (defaultFlags\<lparr>enableLeaderElection := True, metricsAddr := '':8443''\<rparr>) []"
  "parseFlags (\<lambda>_. None) [''--enable-webhook=yes''] defaultFlags = UsageExit"
  "parseFlags (\<lambda>_. None) [''--help''] defaultFlags = HelpExit"
  "parseFlags (\<lambda>_. None) [''--enable-webhook'', ''false'', ''--leader-elect''] defaultFlags =
     Parsed (defaultFlags\<lparr>enableWebhook := True\<rparr>) [''false'', ''--leader-elect'']"
  by (simp_all add: malformed_def splitFlag_def lookupFlag_def flagValue_def parseBool_def defaultFlags_def)

end
