(* ===== verification/Startup.thy ===== *)
theory Startup
  imports Flags Version_Info Change_Detection Webhook
begin

text \<open>
  How the program comes up: the API group and the registration of its types with the scheme
  (\<open>api/v1alpha1/groupversion_info.go\<close>, the \<open>init\<close> functions of
  \<open>nodereadinessrule_types.go\<close> and \<open>cmd/main.go\<close>), what each \<open>SetupWithManager\<close> asks
  controller-runtime for, and \<open>main\<close> as the sequence of its calls, each of which the environment may
  fail, with the exit codes and messages.
\<close>

subsection \<open>Group, version and scheme\<close>

record groupVersion =
  gvGroup :: string
  gvVersion :: string

definition GroupVersion :: groupVersion where
  "GroupVersion = \<lparr>gvGroup = ''readiness.node.x-k8s.io'', gvVersion = ''v1alpha1''\<rparr>"

datatype goType = RuleType | RuleListType | NodeType

text \<open>The package variable \<open>objectTypes\<close>: empty at first, extended by the \<open>init\<close> of the types.\<close>

definition initialObjectTypes :: "goType list" where
  "initialObjectTypes = []"

definition initTypes :: "goType list \<Rightarrow> goType list" where
  "initTypes objectTypes = objectTypes @ [RuleType, RuleListType]"

text \<open>
  \<open>runtime.Scheme\<close> and its builder, as a parameter: registering types under a group and version, the
  meta types of a group, running the functions of a builder, and client-go's own types.
\<close>

record 's schemeLib =
  addKnownTypesTo :: "groupVersion \<Rightarrow> goType list \<Rightarrow> 's \<Rightarrow> 's"
  addToGroupVersion :: "groupVersion \<Rightarrow> 's \<Rightarrow> 's"
  builderAddToScheme :: "('s \<Rightarrow> goError option \<times> 's) list \<Rightarrow> 's \<Rightarrow> goError option \<times> 's"
  clientgoAddToScheme :: "'s \<Rightarrow> goError option \<times> 's"

definition addKnownTypes :: "'s schemeLib \<Rightarrow> goType list \<Rightarrow> 's \<Rightarrow> goError option \<times> 's" where
  "addKnownTypes lib objectTypes s =
     (let s = addKnownTypesTo lib GroupVersion objectTypes s;
          s = addToGroupVersion lib GroupVersion s
      in (None, s))"

definition AddToScheme :: "'s schemeLib \<Rightarrow> goType list \<Rightarrow> 's \<Rightarrow> goError option \<times> 's" where
  "AddToScheme lib objectTypes s = builderAddToScheme lib [addKnownTypes lib objectTypes] s"

text \<open>\<open>utilruntime.Must\<close> panics on an error: then there is no scheme.\<close>

definition initMain :: "'s schemeLib \<Rightarrow> 's \<Rightarrow> 's option" where
  "initMain lib s = (case clientgoAddToScheme lib s of
     (Some e, s) \<Rightarrow> None
   | (None, s) \<Rightarrow> (case AddToScheme lib (initTypes initialObjectTypes) s of
         (Some e, s) \<Rightarrow> None
       | (None, s) \<Rightarrow> Some s))"

text \<open>
  Documented behaviour of a scheme, with \<open>known s\<close> the types it knows: registration adds the types, and
  nothing else removes one; a builder runs its functions in order until one fails.
\<close>

fun run_all :: "('s \<Rightarrow> goError option \<times> 's) list \<Rightarrow> 's \<Rightarrow> goError option \<times> 's" where
  "run_all [] s = (None, s)"
| "run_all (f # fs) s = (case f s of (Some e, s) \<Rightarrow> (Some e, s) | (None, s) \<Rightarrow> run_all fs s)"

definition scheme_contract :: "'s schemeLib \<Rightarrow> ('s \<Rightarrow> (groupVersion \<times> goType) set) \<Rightarrow> bool" where
  "scheme_contract lib known \<longleftrightarrow>
     (\<forall>gv ts s. known (addKnownTypesTo lib gv ts s) = known s \<union> {gv} \<times> set ts) \<and>
     (\<forall>gv s. known s \<subseteq> known (addToGroupVersion lib gv s)) \<and>
     (\<forall>fs s. builderAddToScheme lib fs s = run_all fs s)"

subsection \<open>What is asked of controller-runtime\<close>

text \<open>
  A controller as it is built: its name, the type it watches, the predicate on its events, the number of
  workers when it is set, and the reconciler, which holds a reference to the shared
  \<open>ReadinessGateController\<close>.
\<close>

record 'c ruleReconcilerObj =
  rrController :: 'c

record 'c nodeReconcilerObj =
  nrController :: 'c

datatype eventPredicate = GenerationChanged | Funcs "eventObject \<Rightarrow> bool" "node \<Rightarrow> node \<Rightarrow> bool"

datatype 'c reconcilerObj = RuleReconciler "'c ruleReconcilerObj" | NodeReconciler "'c nodeReconcilerObj"

record 'c controllerSpec =
  specName :: string
  specFor :: goType
  specPredicate :: eventPredicate
  specWorkers :: "nat option"
  specReconciler :: "'c reconcilerObj"

record managerOptions =
  optMetrics :: string
  optProbe :: string
  optLeaderElection :: bool
  optLeaderElectionID :: string

text \<open>The calls of the start-up that can fail, in the order of their appearance in \<open>main\<close>.\<close>

datatype 'c startCall =
    GetConfig
  | NewManager managerOptions
  | NewClientset
  | CompleteController "'c controllerSpec"
  | CompleteWebhook goType
  | AddHealthzCheck string
  | AddReadyzCheck string
  | StartManager

text \<open>
  The environment: whether a call fails, given the calls before it. A call is recorded and yields its
  error.
\<close>

type_synonym 'c responses = "'c startCall list \<Rightarrow> 'c startCall \<Rightarrow> goError option"

definition perform :: "'c responses \<Rightarrow> 'c startCall \<Rightarrow> 'c startCall list \<Rightarrow> goError option \<times> 'c startCall list" where
  "perform env call calls = (env calls call, calls @ [call])"

definition ruleControllerSpec :: "'c ruleReconcilerObj \<Rightarrow> 'c controllerSpec" where
  "ruleControllerSpec r = \<lparr>specName = ''nodereadiness-controller'', specFor = RuleType,
     specPredicate = GenerationChanged, specWorkers = Some 1, specReconciler = RuleReconciler r\<rparr>"

definition ruleSetupWithManager :: "'c responses \<Rightarrow> 'c ruleReconcilerObj \<Rightarrow> 'c startCall list \<Rightarrow>
    goError option \<times> 'c startCall list" where
  "ruleSetupWithManager env r calls = perform env (CompleteController (ruleControllerSpec r)) calls"

definition nodeControllerSpec :: "'c nodeReconcilerObj \<Rightarrow> 'c controllerSpec" where
  "nodeControllerSpec r = \<lparr>specName = ''node'', specFor = NodeType,
     specPredicate = Funcs nodeCreateFunc nodeUpdateFunc, specWorkers = None, specReconciler = NodeReconciler r\<rparr>"

definition nodeSetupWithManager :: "'c responses \<Rightarrow> 'c nodeReconcilerObj \<Rightarrow> 'c startCall list \<Rightarrow>
    goError option \<times> 'c startCall list" where
  "nodeSetupWithManager env r calls = perform env (CompleteController (nodeControllerSpec r)) calls"

definition webhookSetupWithManager :: "'c responses \<Rightarrow> 'c startCall list \<Rightarrow> goError option \<times> 'c startCall list" where
  "webhookSetupWithManager env calls = perform env (CompleteWebhook RuleType) calls"

subsection \<open>main\<close>

text \<open>
  How the process ends: \<open>main\<close> returns, or \<open>os.Exit\<close> with a code, after the message that was logged
  last. \<open>orExit\<close> is the recurring \<open>if err != nil { setupLog.Error(...); os.Exit(1) }\<close>.
\<close>

datatype processEnd = Returned | Exited nat string

definition orExit :: "goError option \<times> 'c startCall list \<Rightarrow> string \<Rightarrow>
    ('c startCall list \<Rightarrow> processEnd \<times> 'c startCall list) \<Rightarrow> processEnd \<times> 'c startCall list" where
  "orExit r message continue = (case r of
     (Some e, calls) \<Rightarrow> (Exited 1 message, calls)
   | (None, calls) \<Rightarrow> continue calls)"

definition optionsOf :: "flagValues \<Rightarrow> managerOptions" where
  "optionsOf fl = \<lparr>optMetrics = metricsAddr fl, optProbe = probeAddr fl,
     optLeaderElection = enableLeaderElection fl, optLeaderElectionID = ''ba65f13e.readiness.node.x-k8s.io''\<rparr>"

text \<open>
  The part after \<open>flag.Parse\<close>. \<open>gate\<close> is the pointer \<open>NewReadinessGateController\<close> returns;
  \<open>GetConfigOrDie\<close> exits with code 1 itself.
\<close>

definition runManager :: "'c responses \<Rightarrow> 'c \<Rightarrow> flagValues \<Rightarrow> processEnd \<times> 'c startCall list" where
  "runManager env gate fl =
     orExit (perform env GetConfig []) ''unable to get kubeconfig'' (\<lambda>calls.
     orExit (perform env (NewManager (optionsOf fl)) calls) ''unable to start manager'' (\<lambda>calls.
     orExit (perform env NewClientset calls) ''unable to create kubernetes clientset'' (\<lambda>calls.
     let readinessController = gate;
         ruleReconciler = \<lparr>rrController = readinessController\<rparr>;
         nodeReconciler = \<lparr>nrController = readinessController\<rparr>
     in
     orExit (ruleSetupWithManager env ruleReconciler calls) ''unable to create controller'' (\<lambda>calls.
     orExit (nodeSetupWithManager env nodeReconciler calls) ''unable to create controller'' (\<lambda>calls.
     orExit (if enableWebhook fl then webhookSetupWithManager env calls else (None, calls))
       ''unable to create webhook'' (\<lambda>calls.
     orExit (perform env (AddHealthzCheck ''healthz'') calls) ''unable to set up health check'' (\<lambda>calls.
     orExit (perform env (AddReadyzCheck ''readyz'') calls) ''unable to set up ready check'' (\<lambda>calls.
     orExit (perform env StartManager calls) ''problem running manager'' (\<lambda>calls.
     (Returned, calls))))))))))"

definition main :: "'c responses \<Rightarrow> 'c \<Rightarrow> foreign_flags \<Rightarrow> string list \<Rightarrow> processEnd \<times> 'c startCall list" where
  "main env gate foreign args = (case parseFlags foreign args defaultFlags of
     HelpExit \<Rightarrow> (Exited 0 [], [])
   | UsageExit \<Rightarrow> (Exited 2 [], [])
   | Parsed fl rest \<Rightarrow> runManager env gate fl)"

subsection \<open>Properties\<close>

text \<open>The calls of a complete start-up.\<close>

definition fullStart :: "'c \<Rightarrow> flagValues \<Rightarrow> 'c startCall list" where
  "fullStart gate fl =
     [GetConfig, NewManager (optionsOf fl), NewClientset,
      CompleteController (ruleControllerSpec \<lparr>rrController = gate\<rparr>),
      CompleteController (nodeControllerSpec \<lparr>nrController = gate\<rparr>)] @
     (if enableWebhook fl then [CompleteWebhook RuleType] else []) @
     [AddHealthzCheck ''healthz'', AddReadyzCheck ''readyz'', StartManager]"

text \<open>Calls made in order until one fails.\<close>

fun run_calls :: "'c responses \<Rightarrow> 'c startCall list \<Rightarrow> 'c startCall list \<Rightarrow> bool \<times> 'c startCall list" where
  "run_calls env [] calls = (True, calls)"
| "run_calls env (x # xs) calls =
     (if env calls x = None then run_calls env xs (calls @ [x]) else (False, calls @ [x]))"

lemma run_calls_spec:
  "xs \<noteq> [] \<Longrightarrow> \<exists>n < length xs. snd (run_calls env xs calls) = calls @ take (Suc n) xs \<and>
     (\<forall>i < n. env (calls @ take i xs) (xs ! i) = None) \<and>
     (if fst (run_calls env xs calls) then Suc n = length xs \<and> env (calls @ take n xs) (xs ! n) = None
      else env (calls @ take n xs) (xs ! n) \<noteq> None)"
proof (induction xs arbitrary: calls)
  case Nil
  then show ?case by simp
next
  case (Cons x xs)
  show ?case
  proof (cases "env calls x = None \<and> xs \<noteq> []")
    case False
    show ?thesis
    proof (cases "env calls x")
      case None
      with False show ?thesis by (intro exI[of _ 0]) simp
    next
      case (Some e)
      then show ?thesis by (intro exI[of _ 0]) simp
    qed
  next
    case True
    with Cons.IH[of "calls @ [x]"] obtain n where n: "n < length xs"
      "snd (run_calls env xs (calls @ [x])) = (calls @ [x]) @ take (Suc n) xs"
      "\<forall>i < n. env ((calls @ [x]) @ take i xs) (xs ! i) = None"
      "if fst (run_calls env xs (calls @ [x])) then Suc n = length xs \<and> env ((calls @ [x]) @ take n xs) (xs ! n) = None
       else env ((calls @ [x]) @ take n xs) (xs ! n) \<noteq> None" by blast
    have "\<forall>i < Suc n. env (calls @ take i (x # xs)) ((x # xs) ! i) = None"
      using n(3) True by (auto simp: less_Suc_eq_0_disj)
    moreover have "take (Suc n) (x # xs) = x # take n xs" "(x # xs) ! Suc n = xs ! n" by simp_all
    ultimately show ?thesis using n True
      by (intro exI[of _ "Suc n"]) (cases "fst (run_calls env xs (calls @ [x]))", simp_all)
  qed
qed

text \<open>A process end that fits a run of calls; the steps of \<open>main\<close> fit one by one.\<close>

definition fits :: "processEnd \<times> 'c startCall list \<Rightarrow> bool \<times> 'c startCall list \<Rightarrow> bool" where
  "fits r s \<longleftrightarrow> snd r = snd s \<and> (if fst s then fst r = Returned else (\<exists>message. fst r = Exited 1 message))"

lemma fits_step:
  "fits (k (calls @ [x])) (run_calls env xs (calls @ [x])) \<Longrightarrow>
   fits (orExit (perform env x calls) message k) (run_calls env (x # xs) calls)"
  by (cases "env calls x") (auto simp: fits_def orExit_def perform_def split: if_splits)

lemma fits_pass: "fits (k calls) s \<Longrightarrow> fits (orExit (None, calls) message k) s"
  by (simp add: orExit_def)

lemma runManager_fits: "fits (runManager env gate fl) (run_calls env (fullStart gate fl) [])"
proof -
  have tail: "fits (orExit (perform env (AddHealthzCheck ''healthz'') calls) ''unable to set up health check'' (\<lambda>calls.
      orExit (perform env (AddReadyzCheck ''readyz'') calls) ''unable to set up ready check'' (\<lambda>calls.
      orExit (perform env StartManager calls) ''problem running manager'' (\<lambda>calls. (Returned, calls)))))
    (run_calls env [AddHealthzCheck ''healthz'', AddReadyzCheck ''readyz'', StartManager] calls)" for calls
    by (intro fits_step) (simp add: fits_def)
  have wh: "fits (orExit (if enableWebhook fl then webhookSetupWithManager env calls else (None, calls))
      ''unable to create webhook'' (\<lambda>calls. orExit (perform env (AddHealthzCheck ''healthz'') calls) ''unable to set up health check'' (\<lambda>calls.
      orExit (perform env (AddReadyzCheck ''readyz'') calls) ''unable to set up ready check'' (\<lambda>calls.
      orExit (perform env StartManager calls) ''problem running manager'' (\<lambda>calls. (Returned, calls))))))
    (run_calls env ((if enableWebhook fl then [CompleteWebhook RuleType] else []) @
      [AddHealthzCheck ''healthz'', AddReadyzCheck ''readyz'', StartManager]) calls)" for calls
  proof (cases "enableWebhook fl")
    case True
    show ?thesis unfolding webhookSetupWithManager_def if_P[OF True] append.simps by (intro fits_step tail)
  next
    case False
    show ?thesis unfolding if_not_P[OF False] append.simps by (intro fits_pass tail)
  qed
  show ?thesis
    unfolding runManager_def fullStart_def Let_def ruleSetupWithManager_def nodeSetupWithManager_def append.simps
    by (intro fits_step wh)
qed

text \<open>
  C14: A start-up is complete or it fails with a code. When \<open>main\<close> goes on after its flags, it makes the
  calls of the list in order - the rule and the node controller, both for the one controller object, the
  webhook if and only if its flag is set, both checks, and starting the manager last - until one fails;
  then the process exits with code 1 right after it. It returns only when all have been made. Bad flags end
  the process with code 2, asking for help with 0, before any call.
\<close>

theorem main_starts_completely:
  "case parseFlags foreign args defaultFlags of
     HelpExit \<Rightarrow> main env gate foreign args = (Exited 0 [], [])
   | UsageExit \<Rightarrow> main env gate foreign args = (Exited 2 [], [])
   | Parsed fl rest \<Rightarrow>
       (\<exists>n < length (fullStart gate fl). snd (main env gate foreign args) = take (Suc n) (fullStart gate fl) \<and>
         (\<forall>i < n. env (take i (fullStart gate fl)) (fullStart gate fl ! i) = None) \<and>
         (case env (take n (fullStart gate fl)) (fullStart gate fl ! n) of
            None \<Rightarrow> fst (main env gate foreign args) = Returned \<and> Suc n = length (fullStart gate fl)
          | Some e \<Rightarrow> (\<exists>message. fst (main env gate foreign args) = Exited 1 message)))"
proof (cases "parseFlags foreign args defaultFlags")
  case (Parsed fl rest)
  then have m: "main env gate foreign args = runManager env gate fl" by (simp add: main_def)
  have "fullStart gate fl \<noteq> []" by (simp add: fullStart_def)
  from run_calls_spec[OF this, of env "[]"] obtain n where n: "n < length (fullStart gate fl)"
    "snd (run_calls env (fullStart gate fl) []) = take (Suc n) (fullStart gate fl)"
    "\<forall>i < n. env (take i (fullStart gate fl)) (fullStart gate fl ! i) = None"
    "if fst (run_calls env (fullStart gate fl) []) then Suc n = length (fullStart gate fl) \<and>
        env (take n (fullStart gate fl)) (fullStart gate fl ! n) = None
     else env (take n (fullStart gate fl)) (fullStart gate fl ! n) \<noteq> None" unfolding append_Nil by blast
  have f: "fits (runManager env gate fl) (run_calls env (fullStart gate fl) [])" by (rule runManager_fits)
  have "case env (take n (fullStart gate fl)) (fullStart gate fl ! n) of
      None \<Rightarrow> fst (runManager env gate fl) = Returned \<and> Suc n = length (fullStart gate fl)
    | Some e \<Rightarrow> (\<exists>message. fst (runManager env gate fl) = Exited 1 message)"
    using n(4) f by (cases "fst (run_calls env (fullStart gate fl) [])") (auto simp: fits_def)
  moreover have "snd (runManager env gate fl) = take (Suc n) (fullStart gate fl)" using f n(2) by (simp add: fits_def)
  ultimately show ?thesis using n(1,3) unfolding Parsed m flagResult.case by blast
qed (simp_all add: main_def)

text \<open>All calls succeed, with the webhook on.\<close>

theorem main_starts_completely_witness:
  "main (\<lambda>_ _. None) (7 :: nat) (\<lambda>_. None) [''--enable-webhook''] =
     (Returned, fullStart 7 (defaultFlags\<lparr>enableWebhook := True\<rparr>)) \<and>
   CompleteWebhook RuleType \<in> set (fullStart (7 :: nat) (defaultFlags\<lparr>enableWebhook := True\<rparr>))"
proof -
  let ?fl = "defaultFlags\<lparr>enableWebhook := True\<rparr>"
  let ?m = "main (\<lambda>_ _. None) (7 :: nat) (\<lambda>_. None) [''--enable-webhook'']"
  have p: "parseFlags (\<lambda>_. None) [''--enable-webhook''] defaultFlags = Parsed ?fl []"
    by (simp add: malformed_def splitFlag_def lookupFlag_def flagValue_def parseBool_def)
  from main_starts_completely[where foreign = "\<lambda>_. None" and args = "[''--enable-webhook'']" and env = "\<lambda>_ _. None"
      and gate = "7 :: nat", unfolded p flagResult.case option.case]
  obtain n where "snd ?m = take (Suc n) (fullStart 7 ?fl)" "fst ?m = Returned" "Suc n = length (fullStart (7 :: nat) ?fl)"
    by blast
  then have "?m = (Returned, fullStart 7 ?fl)" by (simp add: prod_eq_iff)
  then show ?thesis by (simp add: fullStart_def)
qed

text \<open>
  After the \<open>init\<close> functions the scheme knows the rule and its list under the API's group and
  version, as well as everything client-go registered.
\<close>

lemma scheme_knows_the_types:
  assumes "scheme_contract lib known" and "clientgoAddToScheme lib s = (None, s1)"
  shows "\<exists>s2. initMain lib s = Some s2 \<and> known s1 \<subseteq> known s2 \<and>
    (\<lparr>gvGroup = ''readiness.node.x-k8s.io'', gvVersion = ''v1alpha1''\<rparr>, RuleType) \<in> known s2 \<and>
    (\<lparr>gvGroup = ''readiness.node.x-k8s.io'', gvVersion = ''v1alpha1''\<rparr>, RuleListType) \<in> known s2"
proof -
  let ?s2 = "addToGroupVersion lib GroupVersion (addKnownTypesTo lib GroupVersion [RuleType, RuleListType] s1)"
  have "initMain lib s = Some ?s2"
    using assms by (simp add: initMain_def AddToScheme_def scheme_contract_def addKnownTypes_def initTypes_def
        initialObjectTypes_def Let_def)
  moreover have "known s1 \<union> {GroupVersion} \<times> {RuleType, RuleListType} \<subseteq> known ?s2"
  proof -
    have "known (addKnownTypesTo lib GroupVersion [RuleType, RuleListType] s1) = known s1 \<union> {GroupVersion} \<times> {RuleType, RuleListType}"
      using assms(1) by (simp add: scheme_contract_def)
    moreover have "known (addKnownTypesTo lib GroupVersion [RuleType, RuleListType] s1) \<subseteq> known ?s2"
      using assms(1) unfolding scheme_contract_def by blast
    ultimately show ?thesis by simp
  qed
  ultimately show ?thesis by (auto simp: GroupVersion_def)
qed

text \<open>A scheme that is the set of what it knows.\<close>

definition set_scheme :: "(groupVersion \<times> goType) set schemeLib" where
  "set_scheme = \<lparr>addKnownTypesTo = (\<lambda>gv ts s. s \<union> {gv} \<times> set ts), addToGroupVersion = (\<lambda>gv s. s),
     builderAddToScheme = run_all, clientgoAddToScheme = (\<lambda>s. (None, insert (\<lparr>gvGroup = [], gvVersion = ''v1''\<rparr>, NodeType) s))\<rparr>"

lemma scheme_knows_the_types_witness:
  "\<exists>s2. initMain set_scheme {} = Some s2 \<and> (GroupVersion, RuleType) \<in> s2 \<and>
     (\<lparr>gvGroup = [], gvVersion = ''v1''\<rparr>, NodeType) \<in> s2"
proof -
  have con: "scheme_contract set_scheme (\<lambda>s. s)" by (simp add: scheme_contract_def set_scheme_def)
  have go: "clientgoAddToScheme set_scheme {} = (None, {(\<lparr>gvGroup = [], gvVersion = ''v1''\<rparr>, NodeType)})"
    by (simp add: set_scheme_def)
  from scheme_knows_the_types[OF con go] show ?thesis by (auto simp: GroupVersion_def)
qed

end
