(* ===== verification/Spec2Isabelle.thy ===== *)
theory Spec2Isabelle
  imports System Feedback Liveness Hazards Schema Shared_Status Startup
begin

text \<open>
  Node readiness controller: a verification development.

  The program. A \<open>NodeReadinessRule\<close> names node conditions, a node selector and a taint. While a
  selected node does not meet every condition it carries the taint, so that nothing is scheduled on it.
  Three parts act. The rule reconciler (\<open>RuleReconciler.Reconcile\<close> in
  \<open>internal/controller/nodereadinessrule_controller.go\<close>) runs for a changed rule: it handles
  deletion with a finalizer, cleans up after a changed selector, caches the rule and evaluates it on every
  node, or only counts what it would do when the rule is a dry run, and publishes the status. The node
  reconciler (\<open>NodeReconciler.Reconcile\<close> in \<open>internal/controller/node_controller.go\<close>) runs for a
  changed node and evaluates every cached rule that applies to it; event predicates decide which changes
  count. The webhook (\<open>internal/webhook/nodereadinessgaterule_webhook.go\<close>) validates rules before
  they are stored. The first two share the cache of rules and the API server's objects; the third shares
  only the stored rules. \<open>cmd/main.go\<close> starts them.

  The model. State passing: each operation takes the state it reads and returns the state it changes.
  A Go struct is a record, a Go \<open>map[string]string\<close> a finite map, \<open>int32\<close> and \<open>int64\<close> are
  words, an error is a value of \<open>goError\<close>. What lies outside the repository - the client of
  controller-runtime, \<open>RetryOnConflict\<close>, the clock, label selectors - is the record \<open>env\<close> of
  functions over an arbitrary world \<open>'w\<close>, an argument of every definition that calls it. Failures, and
  writes of other clients between two calls, are instances of it. The documented behaviour some
  properties need is stated as a predicate on \<open>env\<close>. For the nodes: \<open>patch_contract\<close> (a patch sends what
  differs from its base, the taint list as a whole or not at all, and answers with the server's node) and
  \<open>update_contract\<close> (an update replaces the object, taints included, unless its resource version is old),
  both part of \<open>taints_contract\<close>; \<open>list_contract\<close>, \<open>conditions_contract\<close>, \<open>annotations_contract\<close> and
  \<open>marks_contract\<close>. For the rules: \<open>status_contract\<close>, \<open>finalizers_contract\<close>, \<open>schema_contract\<close>,
  \<open>refuses_unnamed\<close>; \<open>bookkeeping_contract\<close> for what \<open>Schema\<close> counts, \<open>retry_contract\<close> for
  \<open>RetryOnConflict\<close>, \<open>copy_contract\<close> for the deep copies of other packages. And \<open>read_only\<close> and
  \<open>node_write_free\<close> say which calls keep an arbitrary predicate on the world, so that keeping it means
  making no other call. \<open>Mem_Server\<close> computes patches from the difference and checks versions, and meets
  the contracts; the witnesses run on it or on small variants of it.

  The theories, in the order of their imports, with the code each models:

  \<^item> \<open>Prelude\<close>: types, Go maps and strings, keyed lists, counters; the interface
    \<open>presence_store\<close> (present, put, delete, and steering towards a wish).
  \<^item> \<open>Api_Types\<close>: \<open>api/v1alpha1/nodereadinessrule_types.go\<close>.
  \<^item> \<open>Environment\<close>: the calls outside the repository and their contracts.
  \<^item> \<open>Mem_Server\<close>, \<open>Samples\<close>: the in-memory server and the objects the witnesses use; no code.
  \<^item> \<open>Change_Detection\<close>: \<open>conditionsEqual\<close>, \<open>taintsEqual\<close>, \<open>labelsEqual\<close>, the event
    predicates, \<open>nodeSelectorChanged\<close>, \<open>stringMapEqual\<close>. Each is an instance of
    \<open>change_detector\<close>: it decides equality of a view on the objects it can tell apart, which are not all
    the API server admits; lemmas show changes of others that it misses.
  \<^item> \<open>Node_Taints\<close>: \<open>getConditionStatus\<close>, \<open>hasTaintBySpec\<close>, \<open>addTaintBySpec\<close>,
    \<open>removeTaintBySpec\<close>; an instance of \<open>presence_store\<close>.
  \<^item> \<open>Rule_Status\<close>: \<open>updateNodeEvaluationStatus\<close>, \<open>recordNodeFailure\<close>; two instances of
    \<open>keyed_store\<close>.
  \<^item> \<open>Evaluation\<close>: \<open>evaluateRuleForNode\<close>, \<open>isBootstrapCompleted\<close>,
    \<open>markBootstrapCompleted\<close>. The specification is \<open>steered\<close>: the node with the rule's taint
    present exactly when a condition is not met; the lemmas show that an evaluation refines it.
  \<^item> \<open>Dry_Run\<close>: \<open>ruleAppliesTo\<close>, \<open>processDryRun\<close>; the specification is a count over the nodes.
  \<^item> \<open>Rule_Cache\<close>: \<open>ReadinessGateController\<close>, its cache operations (an instance of
    \<open>rule_store\<close>) and the finalizer helpers (an instance of \<open>presence_store\<close>).
  \<^item> \<open>Cleanup\<close>: \<open>cleanupTaintsForRule\<close>, \<open>cleanupNodesAfterSelectorChange\<close>,
    \<open>cleanupDeletedNodes\<close>; the first two are one \<open>sweep\<close>.
  \<^item> \<open>Rule_Reconciler\<close>: \<open>RuleReconciler.Reconcile\<close> in its sections,
    \<open>processAllNodesForRule\<close>, \<open>updateRuleStatus\<close>; \<open>Rule_Outcomes\<close>: what a call comes to.
  \<^item> \<open>Node_Reconciler\<close>: \<open>NodeReconciler.Reconcile\<close>, \<open>processNodeAgainstAllRules\<close>.
  \<^item> \<open>Webhook\<close>: the checks and entry points of the webhook; admission as a step relation on the
    store of rules, with an invariant from the interface \<open>exclusive_registry\<close>.
  \<^item> \<open>Version_Info\<close>: \<open>internal/info/version.go\<close>.
  \<^item> \<open>System\<close>: the controller as a state machine, its invariant, and what a whole rule reconcile
    does to the taints.
  \<^item> \<open>Feedback\<close>: a pass of the node reconciler as a fold of \<open>steered\<close> over the rules it evaluates,
    and the loop it makes with its own update events; \<open>Liveness\<close>: endless runs of the state machine;
    \<open>Hazards\<close>: failed patches, patches from old copies, failures in the status.
  \<^item> \<open>Schema\<close>: the kubebuilder markers of \<open>nodereadinessrule_types.go\<close> as predicates, and what the
    reconcilers produce against them.
  \<^item> \<open>Object_Store\<close>: a heap of typed arrays, pointers into them and slices with their capacity, and the
    structs of a rule with their storage, taint, selector and metadata included; interfaces \<open>array_type\<close>, \<open>viewer\<close> (the value an object stands for and the storage it occupies)
    and \<open>copier\<close>. \<open>Copier_Rules\<close>: how pointers, slices and structs inherit them.
    \<open>Slice_Append\<close>: Go's \<open>append\<close>, in place or into a larger array.
  \<^item> \<open>Deep_Copy\<close>: \<open>api/v1alpha1/zz_generated.deepcopy.go\<close>, every function an instance of
    \<open>copier\<close> or proved by its rules.
  \<^item> \<open>Shared_Cache\<close>: the cache as a map to pointers; \<open>stands_for\<close> relates it to \<open>Rule_Cache\<close>.
    \<open>Shared_Status\<close>: \<open>updateNodeEvaluationStatus\<close> and \<open>recordNodeFailure\<close> through those pointers.
  \<^item> \<open>Flags\<close>: the flags of \<open>cmd/main.go\<close> with their defaults and all their spellings; \<open>Startup\<close>: the
    rest of it, \<open>api/v1alpha1/groupversion_info.go\<close> and the
    \<open>SetupWithManager\<close> functions: the calls in their order, with the errors and exit codes.
  \<^item> This theory: the properties that span components.

  What is shown. Convergence: an evaluation, a processed rule and a reconciled node leave each taint
  exactly as the conditions demand, keep everything else, and record what they did; the events a node
  reconcile causes come to rest after two rounds; and in an endless run with failures the taint is right
  from some point on, if the node is reconciled again and again while the server answers. Safety: the
  finalizer of a rule outlives its taints, whatever the call returns; a reconcile touches no taint of another identity; dry runs write
  no node. Invariants of the cache, of the status lists and of the admitted rules; the status is of the
  type its schema declares, error messages of unbounded length apart. Exactness: of the change detection, of the validation, of the dry-run counts and
  of their prediction. Refinement: the operations on shared storage do what the value model says, so the
  theories that pass rules as values lose nothing; the deep copies are what this rests on. Start-up: main
  makes all its calls or exits with the code and message of the first that fails. And where the code falls
  short of its intent, the theorem that says so: entries and failures the node reconciler does not get
  stored, changes the comparisons miss, rules that may flap, completed nodes that are tainted again, the global dry
  run one of the reconcilers ignores, failures that stay listed, updates lost to a patch from an old copy,
  refused changes carried out later, rules too large for their status.

  Bounds. All recursion is structural on the lists the code ranges over, so nothing runs out of fuel;
  \<open>parseFlags\<close> recurs on a shorter list of arguments, and \<open>settle\<close> counts the rounds of the feedback
  loop, of which two are enough. The order in which Go ranges over the cache is an argument
  (\<open>range_order\<close>), and so is the growth of \<open>append\<close>. The dry-run counts are exact below \<open>2 ^ 31\<close> nodes
  and \<open>2 ^ 63\<close> conditions; the schema bounds lists by 5000. \<open>RetryOnConflict\<close> is a parameter of which
  only \<open>retry_contract\<close> is used; the in-memory server retries at most four times.

  Not modelled. Logging; the bodies of controller-runtime, client-go and the scheme, which are parameters;
  zap's flags beyond their names; tests and manifests. A reconcile is one step: two reconciles that overlap
  in time, and the unsynchronised writes through a pointer into the cache they may race on, are taken in
  sequence.

  To come: overlapping reconciles as interleaved steps; the convergence of a node reconcile when patches
  fail, where a change lives on in memory.
\<close>

subsection \<open>Reachable states\<close>

text \<open>
  C12: In every state that rule events, node events, switches of the global dry run and anything other
  clients do can lead to, each cached rule sits under its own name, its status holds at most one
  evaluation and one failure per node, and it is a rule the API server served under that name, changed
  in its status only: what is enforced is never anything but a served specification.
\<close>

theorem reachable_cache_served:
  assumes "schema_contract env" and "system_reachable env (c, w)"
  shows "\<forall>k r. getCachedRule c k = Some r \<longrightarrow>
    ruleName r = k \<and>
    distinct (map evalNodeName (nodeEvaluations (ruleStatus r))) \<and>
    distinct (map failNodeName (failedNodes (ruleStatus r))) \<and>
    (\<exists>v r0 v'. getRule env k v = (Inr r0, v') \<and> ruleSpec r = ruleSpec r0 \<and> ruleName r = ruleName r0)"
proof (intro allI impI)
  fix k r assume hit: "getCachedRule c k = Some r"
  have inv: "cache_ok c" "served env c" using reachable_invariant[OF assms] by simp_all
  from inv(2) hit obtain v r0 v' where "getRule env k v = (Inr r0, v')" "same_rule r0 r"
    unfolding served_def by blast
  with cache_okD[OF inv(1) hit] show "ruleName r = k \<and>
    distinct (map evalNodeName (nodeEvaluations (ruleStatus r))) \<and>
    distinct (map failNodeName (failedNodes (ruleStatus r))) \<and>
    (\<exists>v r0 v'. getRule env k v = (Inr r0, v') \<and> ruleSpec r = ruleSpec r0 \<and> ruleName r = ruleName r0)"
    by (auto simp: wf_status_def same_rule_def)
qed

text \<open>A server whose rules have keyed statuses by construction: it serves the network rule only.\<close>

definition one_rule_env :: "server env" where
  "one_rule_env = mem_env\<lparr>getRule := (\<lambda>k s. (if k = ''net'' then Inr (net_rule ''continuous'' False) else Inl notFound, s))\<rparr>"

theorem reachable_cache_served_witness:
  "\<exists>c s. system_reachable one_rule_env (c, s) \<and> getCachedRule c ''net'' \<noteq> None \<and>
     (\<forall>k r. getCachedRule c k = Some r \<longrightarrow> ruleName r = k)"
proof -
  let ?s = "server_of [worker ''w1'' ''False'' []] [net_rule ''continuous'' False] []"
  have schema: "schema_contract one_rule_env"
    by (auto simp: schema_contract_def one_rule_env_def net_rule_def no_status_def wf_status_def split: if_splits)
  obtain res c s where run: "ruleReconcile one_rule_env newReadinessGateController ''net'' ?s = (res, c, s)"
    by (cases "ruleReconcile one_rule_env newReadinessGateController ''net'' ?s")
  have "getRule one_rule_env ''net'' ?s = (Inr (net_rule ''continuous'' False), ?s)" by (simp add: one_rule_env_def)
  from ruleReconcile_fresh[OF this, of newReadinessGateController] run
  have "c = updateRuleCache newReadinessGateController (net_rule ''continuous'' False)"
    by (simp add: net_rule_def containsFinalizer_def finalizerName_def getCachedRule_def newReadinessGateController_def)
  then have hit: "getCachedRule c ''net'' \<noteq> None" by (simp add: cache.lookup_update net_rule_def)
  have reach: "system_reachable one_rule_env (c, s)"
    by (rule system_reachable.advance[OF system_reachable.boot system_step.rule_event[OF run]])
  from reachable_cache_served[OF schema reach] reach hit show ?thesis by blast
qed

subsection \<open>Whole reconciles\<close>

text \<open>
  C7: Whatever a rule reconcile does - deletion, a changed selector, a dry run, processing, with or without
  errors - it changes no taint, on any node, whose key and effect are not those of the rule: the taints of
  another identity are on every node afterwards what they were before. In particular a taint that the
  rule's specification had before it was edited stays where it was.
\<close>

theorem ruleReconcile_touches_own_taint_only:
  assumes "taints_contract env tv" and "list_contract env tv"
    and "\<forall>v r v'. getRule env name v = (Inr r, v') \<longrightarrow> taint_id (ruleTaint (ruleSpec r)) \<noteq> taint_id t"
    and "ruleReconcile env c name w = (res, c', w')"
  shows "filter (\<lambda>s. taint_id s = taint_id t) (tv w' k) = filter (\<lambda>s. taint_id s = taint_id t) (tv w k)"
proof -
  have "taint_id (taint_of r) \<noteq> taint_id t" if "getRule env name v = (Inr r, v')" for r v v'
    using assms(3) that by blast
  from ruleReconcile_same[OF assms(1,2) this assms(4)] show ?thesis
    by (simp add: same_everywhere_def same_id_def)
qed

lemma one_rule_contracts: "taints_contract one_rule_env server_taints" "list_contract one_rule_env server_taints"
  using mem_taints_contract mem_list_contract
  by (simp_all add: one_rule_env_def taints_contract_def list_contract_def patch_contract_def update_contract_def
      retry_contract_def keeps_def)

theorem ruleReconcile_touches_own_taint_only_witness:
  "\<exists>res c' s'. ruleReconcile one_rule_env newReadinessGateController ''net''
       (server_of [worker ''w1'' ''False'' [disk_taint]] [net_rule ''continuous'' False] []) = (res, c', s') \<and>
     filter (\<lambda>s. taint_id s = taint_id disk_taint) (server_taints s' ''w1'') = [disk_taint]"
proof -
  let ?s = "server_of [worker ''w1'' ''False'' [disk_taint]] [net_rule ''continuous'' False] []"
  obtain res c' s' where run: "ruleReconcile one_rule_env newReadinessGateController ''net'' ?s = (res, c', s')"
    by (cases "ruleReconcile one_rule_env newReadinessGateController ''net'' ?s")
  have "\<forall>v r v'. getRule one_rule_env ''net'' v = (Inr r, v') \<longrightarrow> taint_id (ruleTaint (ruleSpec r)) \<noteq> taint_id disk_taint"
    by (simp add: one_rule_env_def net_rule_def net_spec_def net_taint_def disk_taint_def)
  from ruleReconcile_touches_own_taint_only[OF one_rule_contracts this run, of "''w1''"] run show ?thesis
    by (simp add: server_taints_def server_of_def worker_def)
qed

subsection \<open>Events and evaluations\<close>

lemma getConditionStatus_view:
  "getConditionStatus n ty = (case condition_view (nodeConditions n) ty of None \<Rightarrow> ConditionUnknown | Some st \<Rightarrow> st)"
  unfolding getConditionStatus_def conditionStatusIn_find_key condition_view_def
  by (cases "find_key condType ty (nodeConditions n)") simp_all

lemma hasTaintBySpec_view: "hasTaintBySpec n t \<longleftrightarrow> taint_view (nodeTaints n) (taint_id t) \<noteq> None"
proof -
  have "find_key taint_id (taint_id t) (nodeTaints n) = None \<longleftrightarrow> \<not> hasTaintIn (nodeTaints n) t"
    unfolding find_key_None_iff hasTaintIn_iff image_iff eq_commute[of "taint_id t"] ..
  then show ?thesis by (simp add: hasTaintBySpec_def taint_view_def)
qed

text \<open>
  C20: An update event that the predicate drops cannot change what any rule would do, for nodes the
  comparisons can tell apart (\<open>wf_node\<close>: no empty label value, no taint key that ends in \<open>Prefer\<close>, one
  condition per type and one taint per key and effect): every rule applies to the new node exactly when it applied to the old one, its
  conditions give the same results, and it would act on the new node exactly when it would on the old.
\<close>

theorem dropped_updates_are_harmless:
  assumes "wf_node old" and "wf_node new" and "\<not> nodeUpdateFunc old new"
  shows "ruleAppliesTo env rule new = ruleAppliesTo env rule old \<and>
    evaluateConditions new (conditions (ruleSpec rule)) True [] = evaluateConditions old (conditions (ruleSpec rule)) True [] \<and>
    hasTaintBySpec new t = hasTaintBySpec old t"
proof -
  have v: "condition_view (nodeConditions new) = condition_view (nodeConditions old)"
    "taint_view (nodeTaints new) = taint_view (nodeTaints old)" "nodeLabels new = nodeLabels old"
    using assms(3) unfolding nodeUpdateFunc_iff[OF assms(1,2)] by (simp_all add: node_view_def)
  have "satisfiedBy new = satisfiedBy old" "conditionResult new = conditionResult old"
    by (simp_all add: fun_eq_iff satisfiedBy_def conditionResult_def getConditionStatus_view v(1))
  moreover have "ruleAppliesTo env rule new = ruleAppliesTo env rule old"
    by (rule ruleAppliesTo_cong[OF refl v(3)])
  ultimately show ?thesis by (simp add: evaluateConditions_eq hasTaintBySpec_view v(2))
qed

theorem dropped_updates_are_harmless_witness:
  "hasTaintBySpec ((worker ''w1'' ''False'' [net_taint])\<lparr>nodeAnnotations := Some fmempty\<rparr>) net_taint =
     hasTaintBySpec (worker ''w1'' ''False'' [net_taint]) net_taint"
proof -
  let ?a = "worker ''w1'' ''False'' [net_taint]"
  let ?b = "?a\<lparr>nodeAnnotations := Some fmempty\<rparr>"
  have wf: "wf_node ?a" "wf_node ?b"
    by (auto simp: wf_node_defs sample_defs suffix_def fmpred_iff split: if_splits)
  have "\<not> nodeUpdateFunc ?a ?b" by (simp add: nodeUpdateFunc_iff[OF wf] node_view_def)
  from dropped_updates_are_harmless[OF wf this] show ?thesis by blast
qed

subsection \<open>Where two parts disagree\<close>

text \<open>
  C35: Two rules with the same taint whose selectors are written differently are both admitted, even when
  both apply to a node; if the node meets the conditions of one and not of the other, they undo each other
  forever. In every endless run in which the two are processed in turn, over lists that show the node with
  these conditions and labels, without a failure of the node, and with nobody else touching that taint of
  it, the node has lost the taint after each processing of the first rule and has it after each of the
  second: from the second on, every processing flips it.
\<close>

theorem admitted_rules_flap_forever:
  assumes "taints_contract env tv" and "list_contract env tv"
    and "taint_id (taint_of r1) = taint_id (taint_of r2)"
    and "labelSelectorAsSelector env (nodeSelector (ruleSpec r1)) = Inr s1"
    and "labelSelectorAsSelector env (nodeSelector (ruleSpec r2)) = Inr s2" and "selString s1 \<noteq> selString s2"
    and "ruleAppliesTo env r1 n" and "ruleAppliesTo env r2 n"
    and "list_all (\<lambda>c. getConditionStatus n (reqType c) = requiredStatus c) (conditions (ruleSpec r1))"
    and "\<not> list_all (\<lambda>c. getConditionStatus n (reqType c) = requiredStatus c) (conditions (ruleSpec r2))"
    and "\<forall>i. ruleSpec (rule i) = ruleSpec (if even i then r1 else r2)"
    and "\<forall>i. processAllNodesForRule env (rule i) (before i) = (None, rule' i, after i)"
    and "\<forall>i. \<exists>ns v m. listNodes env (before i) = (Inr ns, v) \<and> m \<in> set ns \<and> nodeName m = nodeName n \<and>
      nodeConditions m = nodeConditions n \<and> nodeLabels m = nodeLabels n"
    and "\<forall>i. find_key failNodeName (nodeName n) (failedNodes (ruleStatus (rule' i))) = None"
    and "\<forall>i. filter (\<lambda>t. taint_id t = taint_id (taint_of r1)) (tv (before (Suc i)) (nodeName n)) =
      filter (\<lambda>t. taint_id t = taint_id (taint_of r1)) (tv (after i) (nodeName n))"
  shows "\<not> rulesConflict env r1 r2 \<and>
    (\<forall>i. hasTaintIn (tv (after i) (nodeName n)) (taint_of r1) \<longleftrightarrow> odd i) \<and>
    (\<forall>i. hasTaintIn (tv (after (Suc i)) (nodeName n)) (taint_of r1) \<noteq>
      hasTaintIn (tv (before (Suc i)) (nodeName n)) (taint_of r1))"
proof -
  have same: "hasTaintIn ts (taint_of r2) = hasTaintIn ts (taint_of r1)" for ts
    using assms(3) by (simp add: hasTaintIn_iff)
  have flips: "hasTaintIn (tv (after i) (nodeName n)) (taint_of r1) \<longleftrightarrow> odd i" for i
  proof -
    let ?r = "if even i then r1 else r2"
    have spec: "ruleSpec (rule i) = ruleSpec ?r" using assms(11) by blast
    from assms(13) obtain ns v m where l: "listNodes env (before i) = (Inr ns, v)" and m: "m \<in> set ns"
      "nodeName m = nodeName n" "nodeConditions m = nodeConditions n" "nodeLabels m = nodeLabels n" by blast
    note k = processAllNodesForRule_contract[OF assms(1,2) l assms(12)[rule_format, of i]]
    have "ruleAppliesTo env ?r n" using assms(7,8) by simp
    then have applies: "ruleAppliesTo env (rule i) m"
      using ruleAppliesTo_cong[OF refl m(4), of env ?r] ruleAppliesTo_spec[OF spec, of env] by simp
    have "\<not> failed (tv (after i)) (rule' i) m" using assms(14) m(2) by (simp add: failed_def)
    with k(4)[OF m(1) applies] have "tv (after i) (nodeName n) = nodeTaints (steered ?r m)"
      using m(2) steered_spec[of "rule' i" ?r] k(6) spec by (simp add: outcome_def settled_def)
    then have "hasTaintIn (tv (after i) (nodeName n)) (taint_of ?r) \<longleftrightarrow> wants_taint ?r m"
      using steered_has[of ?r m] by (simp add: hasTaintBySpec_def)
    also have "wants_taint ?r m \<longleftrightarrow> odd i"
      using wants_taint_cong[OF m(3), of ?r] assms(9,10) by (simp add: wants_taint_def ready_def satisfiedBy_def[abs_def])
    finally show ?thesis using same by (simp split: if_splits)
  qed
  have "hasTaintIn (tv (before (Suc i)) (nodeName n)) (taint_of r1) = hasTaintIn (tv (after i) (nodeName n)) (taint_of r1)" for i
    unfolding hasTaintIn_same_id same_id_def using assms(15) by simp
  moreover have "\<not> rulesConflict env r1 r2" using assms(4-6) by (simp add: rulesConflict_def nodSelectorsOverlap_def)
  ultimately show ?thesis using flips by simp
qed

text \<open>An environment with selectors that match every node and are written as their labels' zone.\<close>

definition zone_env :: "server env" where
  "zone_env = mem_env\<lparr>labelSelectorAsSelector :=
     (\<lambda>s. Inr \<lparr>selMatches = (\<lambda>m. True), selEmpty = False, selString = go_index (matchLabels s) ''zone''\<rparr>)\<rparr>"

definition strict_rule :: nodeReadinessRule where
  "strict_rule = (net_rule ''continuous'' False)\<lparr>ruleName := ''strict'', ruleSpec := (net_spec ''continuous'' False)
     \<lparr>conditions := [\<lparr>reqType = ''CalicoReady'', requiredStatus = ''False''\<rparr>],
      nodeSelector := \<lparr>matchLabels = fmupd ''zone'' ''a'' fmempty, matchExpressions = []\<rparr>\<rparr>\<rparr>"

lemma zone_contracts: "taints_contract zone_env server_taints" "list_contract zone_env server_taints"
  using mem_taints_contract mem_list_contract
  by (simp_all add: zone_env_def taints_contract_def list_contract_def patch_contract_def update_contract_def
      retry_contract_def keeps_def)

text \<open>A run on the in-memory server: the strict rule wants the condition false, the other one true.\<close>

definition turn :: "nat \<Rightarrow> nodeReadinessRule" where
  "turn i = (if even i then strict_rule else net_rule ''continuous'' False)"

fun flap_run :: "nat \<Rightarrow> server" where
  "flap_run 0 = server_of [worker ''w1'' ''False'' []] [] []"
| "flap_run (Suc i) = snd (snd (processAllNodesForRule zone_env (turn i) (flap_run i)))"

definition flap_state :: "bool \<Rightarrow> server \<Rightarrow> bool" where
  "flap_state tainted s \<longleftrightarrow> (\<exists>v clock. s = \<lparr>srvNodes = [(worker ''w1'' ''False'' (if tainted then [net_taint] else []))
     \<lparr>nodeResourceVersion := v\<rparr>], srvRules = [], srvFaults = [], srvClock = clock\<rparr>)"

lemma flap_step:
  assumes "flap_state tainted s"
  shows "\<exists>r s'. processAllNodesForRule zone_env strict_rule s = (None, r, s') \<and> failedNodes (ruleStatus r) = [] \<and> flap_state False s'"
    "\<exists>r s'. processAllNodesForRule zone_env (net_rule ''continuous'' False) s = (None, r, s') \<and> failedNodes (ruleStatus r) = [] \<and>
      flap_state True s'"
  using assms
  by (auto simp: flap_state_def processing_eval evaluation_eval zone_env_def strict_rule_def mode_defs sample_defs server_defs)

lemma flap_run_state: "\<exists>b. flap_state b (flap_run i)"
proof (induction i)
  case 0
  have "flap_state False (flap_run 0)" by (simp add: flap_state_def server_of_def worker_def)
  then show ?case by blast
next
  case (Suc i)
  then obtain b where "flap_state b (flap_run i)" by blast
  from flap_step[OF this] show ?case by (cases "even i") (auto simp: turn_def)
qed

theorem admitted_rules_flap_forever_witness:
  "\<forall>i. hasTaintIn (server_taints (flap_run (Suc i)) ''w1'') net_taint \<longleftrightarrow> odd i"
proof -
  let ?n = "worker ''w1'' ''False'' []" and ?r = "net_rule ''continuous'' False"
  have run: "\<forall>i. \<exists>r. processAllNodesForRule zone_env (turn i) (flap_run i) = (None, r, flap_run (Suc i)) \<and>
      failedNodes (ruleStatus r) = []"
  proof
    fix i
    from flap_run_state[of i] obtain b where "flap_state b (flap_run i)" by blast
    from flap_step[OF this] show "\<exists>r. processAllNodesForRule zone_env (turn i) (flap_run i) = (None, r, flap_run (Suc i)) \<and>
        failedNodes (ruleStatus r) = []"
      by (cases "even i") (auto simp: turn_def)
  qed
  from choice[OF this] obtain rule' where rule': "\<forall>i. processAllNodesForRule zone_env (turn i) (flap_run i) =
      (None, rule' i, flap_run (Suc i)) \<and> failedNodes (ruleStatus (rule' i)) = []" by blast
  then have proc: "\<forall>i. processAllNodesForRule zone_env (turn i) (flap_run i) = (None, rule' i, flap_run (Suc i))"
    and clean: "\<forall>i. find_key failNodeName (nodeName ?n) (failedNodes (ruleStatus (rule' i))) = None" by simp_all
  have list: "\<forall>i. \<exists>ns v m. listNodes zone_env (flap_run i) = (Inr ns, v) \<and> m \<in> set ns \<and> nodeName m = nodeName ?n \<and>
      nodeConditions m = nodeConditions ?n \<and> nodeLabels m = nodeLabels ?n"
  proof
    fix i
    from flap_run_state[of i] show "\<exists>ns v m. listNodes zone_env (flap_run i) = (Inr ns, v) \<and> m \<in> set ns \<and> nodeName m = nodeName ?n \<and>
        nodeConditions m = nodeConditions ?n \<and> nodeLabels m = nodeLabels ?n"
      by (auto simp: flap_state_def zone_env_def mem_env_simps worker_def)
  qed
  have ids: "taint_id (taint_of strict_rule) = taint_id (taint_of ?r)"
    by (simp add: strict_rule_def net_rule_def net_spec_def)
  obtain a b where sel: "labelSelectorAsSelector zone_env (nodeSelector (ruleSpec strict_rule)) = Inr a"
    "labelSelectorAsSelector zone_env (nodeSelector (ruleSpec ?r)) = Inr b" "selString a \<noteq> selString b"
    by (simp add: zone_env_def strict_rule_def net_rule_def net_spec_def role_labels_def go_index_def)
  have applies: "ruleAppliesTo zone_env strict_rule ?n" "ruleAppliesTo zone_env ?r ?n"
    by (simp_all add: ruleAppliesTo_def zone_env_def)
  have ready: "list_all (\<lambda>c. getConditionStatus ?n (reqType c) = requiredStatus c) (conditions (ruleSpec strict_rule))"
    "\<not> list_all (\<lambda>c. getConditionStatus ?n (reqType c) = requiredStatus c) (conditions (ruleSpec ?r))"
    by (simp_all add: getConditionStatus_def strict_rule_def sample_defs)
  have specs: "\<forall>i. ruleSpec (turn i) = ruleSpec (if even i then strict_rule else ?r)" by (simp add: turn_def)
  have gap: "\<forall>i. filter (\<lambda>t. taint_id t = taint_id (taint_of strict_rule)) (server_taints (flap_run (Suc i)) (nodeName ?n)) =
      filter (\<lambda>t. taint_id t = taint_id (taint_of strict_rule)) (server_taints (flap_run (Suc i)) (nodeName ?n))" by simp
  have ids2: "nodeName ?n = ''w1''" "taint_of strict_rule = net_taint"
    by (simp_all add: worker_def strict_rule_def net_spec_def)
  note th = admitted_rules_flap_forever[where env = zone_env and tv = server_taints and n = ?n and ?r1.0 = strict_rule
      and ?r2.0 = ?r and rule = turn and rule' = rule' and before = flap_run and after = "\<lambda>i. flap_run (Suc i)",
    OF zone_contracts ids sel applies ready specs proc list clean gap]
  from th[THEN conjunct2, THEN conjunct1] show ?thesis unfolding ids2 .
qed

text \<open>
  C34: The two reconcilers disagree on completed nodes: the node reconciler skips a bootstrap-only rule on a
  node that carries its completion mark, but processing the rule taints such a node again as soon as a
  condition is not met.
\<close>

theorem completed_node_tainted_again:
  assumes "taints_contract env tv" and "list_contract env tv" and "listNodes env w = (Inr ns, w1)"
    and "n \<in> set ns" and "ruleAppliesTo env rule n" and "enforcementMode (ruleSpec rule) = ''bootstrap-only''"
    and "hasAnnotation n (bootstrapAnnotation (ruleName rule))"
    and "\<not> list_all (\<lambda>c. getConditionStatus n (reqType c) = requiredStatus c) (conditions (ruleSpec rule))"
    and "processAllNodesForRule env rule w = (e, rule', w')"
    and "find_key failNodeName (nodeName n) (failedNodes (ruleStatus rule')) = None"
  shows "skipRule c rule (hasAnnotation n (bootstrapAnnotation (ruleName rule))) \<and>
    hasTaintIn (tv w' (nodeName n)) (taint_of rule)"
proof -
  note k = processAllNodesForRule_contract[OF assms(1-3,9)]
  have "\<not> failed (tv w') rule' n" using assms(10) by (simp add: failed_def)
  with k(4)[OF assms(4,5)] have "settled (tv w') rule' n" by (simp add: outcome_def)
  then have "tv w' (nodeName n) = nodeTaints (steered rule n)" using steered_spec[OF k(6)] by (simp add: settled_def)
  moreover have "wants_taint rule n" using assms(8) by (simp add: wants_taint_def ready_def satisfiedBy_def[abs_def])
  ultimately have "hasTaintIn (tv w' (nodeName n)) (taint_of rule)"
    using steered_has[of rule n] by (simp add: hasTaintBySpec_def)
  with assms(6,7) show ?thesis by (simp add: skipRule_def mode_defs)
qed

theorem completed_node_tainted_again_witness:
  "\<exists>rule' s'. processAllNodesForRule mem_env (net_rule ''bootstrap-only'' False) (server_of [completed_worker] [] []) =
       (None, rule', s') \<and> hasTaintIn (server_taints s' ''w1'') net_taint"
proof -
  let ?r = "net_rule ''bootstrap-only'' False" and ?s = "server_of [completed_worker] [] []"
  have list: "listNodes mem_env ?s = (Inr [completed_worker], ?s)" by (simp add: server_of_def server_defs)
  have applies: "ruleAppliesTo mem_env ?r completed_worker"
    by (simp add: ruleAppliesTo_def completed_worker_def sample_defs server_defs Let_def)
  have mode: "enforcementMode (ruleSpec ?r) = ''bootstrap-only''" by (simp add: net_rule_def net_spec_def)
  have mark: "hasAnnotation completed_worker (bootstrapAnnotation (ruleName ?r))"
    by (simp add: hasAnnotation_def completed_worker_def net_rule_def)
  have unready: "\<not> list_all (\<lambda>c. getConditionStatus completed_worker (reqType c) = requiredStatus c) (conditions (ruleSpec ?r))"
    by (simp add: getConditionStatus_def completed_worker_def sample_defs)
  obtain rule' s' where run: "processAllNodesForRule mem_env ?r ?s = (None, rule', s')" and ok: "failedNodes (ruleStatus rule') = []"
    by (simp add: processing_eval evaluation_eval completed_worker_def sample_defs server_defs)
  have clean: "find_key failNodeName (nodeName completed_worker) (failedNodes (ruleStatus rule')) = None" by (simp add: ok)
  have ids: "nodeName completed_worker = ''w1''" "taint_of ?r = net_taint"
    by (simp_all add: completed_worker_def worker_def net_rule_def net_spec_def)
  from completed_node_tainted_again[OF mem_taints_contract mem_list_contract, OF list _ applies mode mark unready run clean]
  have "hasTaintIn (server_taints s' ''w1'') net_taint" unfolding ids by simp
  with run show ?thesis by blast
qed

end
